(* ===== verification/Prelude.thy ===== *)
theory Prelude
  imports Main "HOL-Library.Char_ord" "HOL-Library.List_Lexorder" "HOL-Library.Sublist"
begin

text \<open>
  What every component of the development shares: effects as explicit state passing with
  exceptions as values, guarantees (two-state relations every run of an operation respects),
  tables as lists of rows with a key column, and the Python values and strings the program
  passes around.  Nothing here models a function of the program; it is the vocabulary the
  component theories are written in.
\<close>

section \<open>Effects: state passing with exceptions\<close>

text \<open>
  A Python statement that reads and writes the state and may raise is a function from the
  state to either the exception (\<open>Inl\<close>) or the value (\<open>Inr\<close>), together with the state
  it leaves: an exception does not undo what was written before it.
\<close>

type_synonym ('s, 'e, 'a) eff = "'s \<Rightarrow> ('e + 'a) \<times> 's"

definition ret :: "'a \<Rightarrow> ('s, 'e, 'a) eff" where
  "ret a = (\<lambda>s. (Inr a, s))"

definition raise :: "'e \<Rightarrow> ('s, 'e, 'a) eff" where
  "raise e = (\<lambda>s. (Inl e, s))"

text \<open>\<open>mtry m h k\<close> is \<open>try: x = m; except e: h(e); else: k(x)\<close>.\<close>

definition mtry ::
  "('s, 'e, 'a) eff \<Rightarrow> ('e \<Rightarrow> ('s, 'e, 'b) eff) \<Rightarrow> ('a \<Rightarrow> ('s, 'e, 'b) eff) \<Rightarrow> ('s, 'e, 'b) eff" where
  "mtry m h k = (\<lambda>s. case m s of (r, s') \<Rightarrow> (case r of Inl e \<Rightarrow> h e s' | Inr a \<Rightarrow> k a s'))"

definition mbind :: "('s, 'e, 'a) eff \<Rightarrow> ('a \<Rightarrow> ('s, 'e, 'b) eff) \<Rightarrow> ('s, 'e, 'b) eff" where
  "mbind m k = (\<lambda>s. case m s of (r, s') \<Rightarrow> (case r of Inl e \<Rightarrow> (Inl e, s') | Inr a \<Rightarrow> k a s'))"

definition mseq :: "('s, 'e, 'a) eff \<Rightarrow> ('s, 'e, 'b) eff \<Rightarrow> ('s, 'e, 'b) eff" where
  "mseq m k = mbind m (\<lambda>_. k)"

definition gets :: "('s \<Rightarrow> 'a) \<Rightarrow> ('s, 'e, 'a) eff" where
  "gets f = (\<lambda>s. (Inr (f s), s))"

definition modify :: "('s \<Rightarrow> 's) \<Rightarrow> ('s, 'e, unit) eff" where
  "modify f = (\<lambda>s. (Inr (), f s))"

text \<open>A pure computation that may raise, run in the middle of a stateful one.\<close>

definition lift_sum :: "('e + 'a) \<Rightarrow> ('s, 'e, 'a) eff" where
  "lift_sum r = (\<lambda>s. (r, s))"

definition sum_bind :: "('e + 'a) \<Rightarrow> ('a \<Rightarrow> 'e + 'b) \<Rightarrow> 'e + 'b" where
  "sum_bind r k = (case r of Inl e \<Rightarrow> Inl e | Inr a \<Rightarrow> k a)"

lemmas eff_defs = ret_def raise_def gets_def modify_def lift_sum_def

lemma ret_apply [simp]: "ret a s = (Inr a, s)"
  and raise_apply [simp]: "raise e s = (Inl e, s)"
  and gets_apply [simp]: "gets f s = (Inr (f s), s)"
  and modify_apply [simp]: "modify g s = (Inr (), g s)"
  and lift_sum_apply [simp]: "lift_sum r s = (r, s)"
  by (simp_all add: eff_defs)

lemma mbind_apply: "mbind m k s =
    (case m s of (r, s') \<Rightarrow> (case r of Inl e \<Rightarrow> (Inl e, s') | Inr a \<Rightarrow> k a s'))"
  by (simp add: mbind_def)

lemma mseq_apply: "mseq m k s =
    (case m s of (r, s') \<Rightarrow> (case r of Inl e \<Rightarrow> (Inl e, s') | Inr a \<Rightarrow> k s'))"
  by (simp add: mseq_def mbind_def)

lemma mtry_apply: "mtry m h k s =
    (case m s of (r, s') \<Rightarrow> (case r of Inl e \<Rightarrow> h e s' | Inr a \<Rightarrow> k a s'))"
  by (simp add: mtry_def)

lemma snd_mseq_final [simp]: "snd (mseq m (raise e) s) = snd (m s)" "snd (mseq m (ret a) s) = snd (m s)"
  by (auto simp: mseq_apply split: prod.splits sum.splits)

lemma mbind_lift [simp]: "mbind (lift_sum (Inr a)) k = k a" "mbind (lift_sum (Inl e)) k = raise e"
  by (simp_all add: mbind_def lift_sum_def raise_def)

text \<open>One statement of a block, once its outcome is known.\<close>

lemma mseq_step: "m s = (Inr a, s') \<Longrightarrow> mseq m k s = k s'"
  and mbind_step: "m s = (Inr a, s') \<Longrightarrow> mbind m f s = f a s'"
  by (simp_all add: mseq_apply mbind_apply)

lemma mbind_conv_mtry: "mbind m k = mtry m raise k"
  by (simp add: mbind_def mtry_def raise_def fun_eq_iff split: prod.splits sum.splits)

lemmas eff_apply = mbind_apply mseq_apply mtry_apply

lemma sum_bind_simps [simp]: "sum_bind (Inl e) k = Inl e" "sum_bind (Inr a) k = k a"
  by (simp_all add: sum_bind_def)

lemma mbind_Inr_iff:
  "mbind m k s = (Inr b, t) \<longleftrightarrow> (\<exists>a s'. m s = (Inr a, s') \<and> k a s' = (Inr b, t))"
  by (auto simp: mbind_def split: prod.splits sum.splits)

section \<open>Guarantees\<close>

text \<open>
  \<open>guar R m\<close>: whatever the run of \<open>m\<close> does (return or raise), the state it leaves is related
  to the state it started from by \<open>R\<close>.  With \<open>R w w' = (I w \<longrightarrow> I w')\<close> this is preservation
  of an invariant, with an equation between fields it is a frame.  Every such \<open>R\<close> is a
  preorder, and a guarantee of the parts is then one of the whole: the locale proves that
  once for all the sequencing operators.
\<close>

definition guar :: "('s \<Rightarrow> 's \<Rightarrow> bool) \<Rightarrow> ('s, 'e, 'a) eff \<Rightarrow> bool" where
  "guar R m \<longleftrightarrow> (\<forall>s. R s (snd (m s)))"

lemma guarI: "(\<And>s. R s (snd (m s))) \<Longrightarrow> guar R m"
  by (simp add: guar_def)

lemma guarD: "guar R m \<Longrightarrow> R s (snd (m s))"
  by (simp add: guar_def)

lemma guarD': "guar R m \<Longrightarrow> m s = (r, s') \<Longrightarrow> R s s'"
  by (metis guarD snd_conv)

lemma guar_mono: "guar R m \<Longrightarrow> (\<And>s t. R s t \<Longrightarrow> Q s t) \<Longrightarrow> guar Q m"
  by (simp add: guar_def)

named_theorems guar_rules "guarantees of operations, for composing the guarantee of a caller"

locale guarantee =
  fixes R :: "'s \<Rightarrow> 's \<Rightarrow> bool"
  assumes rel_refl: "R s s"
    and rel_trans: "R s t \<Longrightarrow> R t u \<Longrightarrow> R s u"
begin

lemma guar_ret: "guar R (ret a)"
  and guar_raise: "guar R (raise e)"
  and guar_gets: "guar R (gets f)"
  and guar_lift_sum: "guar R (lift_sum r)"
  by (simp_all add: guar_def rel_refl)

lemma guar_mtry:
  assumes "guar R m" and "\<And>e. guar R (h e)" and "\<And>a. guar R (k a)"
  shows "guar R (mtry m h k)"
proof (rule guarI)
  fix s
  obtain r s' where m: "m s = (r, s')" by (cases "m s")
  have "R s s'" using assms(1) m by (rule guarD')
  moreover have "R s' (snd (h e s'))" and "R s' (snd (k a s'))" for e a
    using assms(2,3) by (auto dest: guarD)
  ultimately show "R s (snd (mtry m h k s))"
    using m by (auto simp: mtry_apply split: sum.splits intro: rel_trans)
qed

lemma guar_mbind: "guar R m \<Longrightarrow> (\<And>a. guar R (k a)) \<Longrightarrow> guar R (mbind m k)"
  unfolding mbind_conv_mtry by (rule guar_mtry) (auto intro: guar_raise)

lemma guar_mseq: "guar R m \<Longrightarrow> guar R k \<Longrightarrow> guar R (mseq m k)"
  by (simp add: mseq_def guar_mbind)

lemmas guar_intros = guar_ret guar_raise guar_gets guar_lift_sum guar_mtry guar_mbind guar_mseq

end

lemma guarantee_invariant: "guarantee (\<lambda>s t. I s \<longrightarrow> I t)"
  and guarantee_frame: "guarantee (\<lambda>s t. f t = f s)"
  by unfold_locales auto

text \<open>\<open>only_raises Q m\<close>: every exception a run of \<open>m\<close> ends with satisfies \<open>Q\<close>.\<close>

definition only_raises :: "('e \<Rightarrow> bool) \<Rightarrow> ('s, 'e, 'a) eff \<Rightarrow> bool" where
  "only_raises Q m \<longleftrightarrow> (\<forall>s e. fst (m s) = Inl e \<longrightarrow> Q e)"

named_theorems raise_rules "what operations raise, for composing what their callers raise"

lemma only_raisesD: "only_raises Q m \<Longrightarrow> m s = (Inl e, s') \<Longrightarrow> Q e"
  by (metis only_raises_def fst_conv)

lemma raises_basic [raise_rules]:
  "only_raises Q (ret a)" "Q e \<Longrightarrow> only_raises Q (raise e)" "only_raises Q (gets f)" "only_raises Q (modify g)"
  "(\<And>e. r = Inl e \<Longrightarrow> Q e) \<Longrightarrow> only_raises Q (lift_sum r)"
  by (auto simp: only_raises_def)

lemma raises_mtry [raise_rules]:
  assumes "only_raises P m" and "\<And>e. P e \<Longrightarrow> only_raises Q (h e)" and "\<And>a. only_raises Q (k a)"
  shows "only_raises Q (mtry m h k)"
  using assms unfolding only_raises_def mtry_apply
  by (auto split: prod.splits sum.splits) (metis fst_conv)+

lemma raises_mbind [raise_rules]:
  assumes "only_raises Q m" and "\<And>a. only_raises Q (k a)"
  shows "only_raises Q (mbind m k)"
  unfolding mbind_conv_mtry using assms by (auto intro!: raises_mtry [of Q] raises_basic)

lemma raises_mseq [raise_rules]: "only_raises Q m \<Longrightarrow> only_raises Q k \<Longrightarrow> only_raises Q (mseq m k)"
  by (simp add: mseq_def raises_mbind)

section \<open>Tables\<close>

text \<open>
  A table of the database is the list of its rows in insertion order.  \<open>tfind\<close> is
  \<open>SELECT ... WHERE key = k\<close>, \<open>tupdate\<close> is \<open>UPDATE ... WHERE key = k\<close>; both are used on
  columns with a uniqueness constraint.
\<close>

definition tfind :: "('r \<Rightarrow> 'k) \<Rightarrow> 'k \<Rightarrow> 'r list \<Rightarrow> 'r option" where
  "tfind key k rows = find (\<lambda>r. key r = k) rows"

definition tupdate :: "('r \<Rightarrow> 'k) \<Rightarrow> 'k \<Rightarrow> ('r \<Rightarrow> 'r) \<Rightarrow> 'r list \<Rightarrow> 'r list" where
  "tupdate key k f rows = map (\<lambda>r. if key r = k then f r else r) rows"

lemma tfind_Nil [simp]: "tfind key k [] = None"
  and tfind_Cons: "tfind key k (r # rows) = (if key r = k then Some r else tfind key k rows)"
  by (simp_all add: tfind_def)

lemma tfind_append: "tfind key k (xs @ ys) =
    (case tfind key k xs of None \<Rightarrow> tfind key k ys | Some r \<Rightarrow> Some r)"
  by (induction xs) (auto simp: tfind_Cons)

lemma tfind_SomeD: "tfind key k rows = Some r \<Longrightarrow> r \<in> set rows \<and> key r = k"
  by (induction rows) (auto simp: tfind_Cons split: if_splits)

lemma tfind_None_iff: "tfind key k rows = None \<longleftrightarrow> k \<notin> key ` set rows"
  by (induction rows) (auto simp: tfind_Cons)

lemma tfind_unique: "distinct (map key rows) \<Longrightarrow> r \<in> set rows \<Longrightarrow> tfind key (key r) rows = Some r"
  by (induction rows) (auto simp: tfind_Cons image_iff)

lemma tupdate_Nil [simp]: "tupdate key k f [] = []"
  and tupdate_Cons: "tupdate key k f (r # rows) = (if key r = k then f r else r) # tupdate key k f rows"
  by (simp_all add: tupdate_def)

lemma tupdate_keys: "(\<And>r. key (f r) = key r) \<Longrightarrow> map key (tupdate key k f rows) = map key rows"
  by (simp add: tupdate_def)

lemma length_tupdate [simp]: "length (tupdate key k f rows) = length rows"
  by (simp add: tupdate_def)

lemma tfind_tupdate: "(\<And>r. key (f r) = key r) \<Longrightarrow>
    tfind key j (tupdate key k f rows) =
    (if j = k then map_option f (tfind key k rows) else tfind key j rows)"
  by (induction rows) (auto simp: tfind_Cons tupdate_Cons)

lemma tupdate_absent: "tfind key k rows = None \<Longrightarrow> tupdate key k f rows = rows"
  by (induction rows) (auto simp: tfind_Cons tupdate_Cons split: if_splits)

lemma set_tupdateD: "r \<in> set (tupdate key k f rows) \<Longrightarrow>
    (r \<in> set rows \<and> key r \<noteq> k) \<or> (\<exists>r'\<in>set rows. key r' = k \<and> r = f r')"
  by (auto simp: tupdate_def split: if_splits)

lemma filter_tupdate: "(\<And>r. P (f r) = P r) \<Longrightarrow>
    filter P (tupdate key k f rows) = tupdate key k f (filter P rows)"
  by (induction rows) (auto simp: tupdate_Cons)

section \<open>Python values and strings\<close>

datatype pyval =
    PNone
  | PBool bool
  | PInt int
  | PStr string
  | PList "pyval list"
  | PTuple "pyval list"
  | PDict "(string \<times> pyval) list"

text \<open>A dict keeps the order of insertion; assigning an existing key keeps its place.\<close>

fun dict_set :: "string \<Rightarrow> pyval \<Rightarrow> (string \<times> pyval) list \<Rightarrow> (string \<times> pyval) list" where
  "dict_set k v [] = [(k, v)]"
| "dict_set k v ((k', v') # d) = (if k = k' then (k, v) # d else (k', v') # dict_set k v d)"

definition dict_update :: "(string \<times> pyval) list \<Rightarrow> (string \<times> pyval) list \<Rightarrow> (string \<times> pyval) list" where
  "dict_update d fields = fold (\<lambda>(k, v). dict_set k v) fields d"

lemma map_of_dict_set: "map_of (dict_set k v d) = (map_of d)(k \<mapsto> v)"
  by (induction d) auto

fun truthy :: "pyval \<Rightarrow> bool" where
  "truthy PNone = False"
| "truthy (PBool b) = b"
| "truthy (PInt i) = (i \<noteq> 0)"
| "truthy (PStr s) = (s \<noteq> [])"
| "truthy (PList xs) = (xs \<noteq> [])"
| "truthy (PTuple xs) = (xs \<noteq> [])"
| "truthy (PDict d) = (d \<noteq> [])"

lemma size_dict_value [termination_simp]:
  "(k, v) \<in> set d \<Longrightarrow> size v < Suc (size_list (size_prod (\<lambda>x. 0) size) d)"
  by (induction d) auto

text \<open>
  What a value looks like after \<open>json.loads(json.dumps(v))\<close>: the same, with tuples come
  back as lists.
\<close>

fun json_roundtrip :: "pyval \<Rightarrow> pyval" where
  "json_roundtrip (PList xs) = PList (map json_roundtrip xs)"
| "json_roundtrip (PTuple xs) = PList (map json_roundtrip xs)"
| "json_roundtrip (PDict d) = PDict (map (\<lambda>(k, v). (k, json_roundtrip v)) d)"
| "json_roundtrip v = v"

lemma json_roundtrip_idem [simp]: "json_roundtrip (json_roundtrip v) = json_roundtrip v"
  by (induction v rule: json_roundtrip.induct) auto

lemma json_roundtrip_dict: "\<exists>d'. json_roundtrip (PDict d) = PDict d'"
  by simp

subsection \<open>Rendering\<close>

fun show_digits :: "nat \<Rightarrow> string" where
  "show_digits n = (if n < 10 then [char_of (48 + n)] else show_digits (n div 10) @ [char_of (48 + n mod 10)])"

declare show_digits.simps [simp del]

definition show_int :: "int \<Rightarrow> string" where
  "show_int i = (if i < 0 then ''-'' @ show_digits (nat (- i)) else show_digits (nat i))"

text \<open>\<open>repr\<close> of a string of ASCII characters, as \<open>{x!r}\<close> renders it in a message.\<close>

definition hex_digit :: "nat \<Rightarrow> char" where
  "hex_digit n = char_of (if n < 10 then 48 + n else 87 + n)"

definition repr_char :: "char \<Rightarrow> char \<Rightarrow> string" where
  "repr_char q c =
     (let n = of_char c :: nat in
      if c = q \<or> n = 92 then [CHR 0x5C, c]
      else if n = 10 then [CHR 0x5C, CHR ''n'']
      else if n = 13 then [CHR 0x5C, CHR ''r'']
      else if n = 9 then [CHR 0x5C, CHR ''t'']
      else if n < 32 \<or> n = 127 then [CHR 0x5C, CHR ''x'', hex_digit (n div 16), hex_digit (n mod 16)]
      else [c])"

definition repr_str :: "string \<Rightarrow> string" where
  "repr_str s =
     (let q = (if CHR 0x27 \<in> set s \<and> CHR 0x22 \<notin> set s then CHR 0x22 else CHR 0x27)
      in [q] @ concat (map (repr_char q) s) @ [q])"

fun join :: "string \<Rightarrow> string list \<Rightarrow> string" where
  "join sep [] = []"
| "join sep [x] = x"
| "join sep (x # y # xs) = x @ sep @ join sep (y # xs)"

definition repr_str_list :: "string list \<Rightarrow> string" where
  "repr_str_list xs = ''['' @ join '', '' (map repr_str xs) @ '']''"

fun repr_val :: "pyval \<Rightarrow> string" where
  "repr_val PNone = ''None''"
| "repr_val (PBool b) = (if b then ''True'' else ''False'')"
| "repr_val (PInt i) = show_int i"
| "repr_val (PStr s) = repr_str s"
| "repr_val (PList xs) = ''['' @ join '', '' (map repr_val xs) @ '']''"
| "repr_val (PTuple xs) = ''('' @ join '', '' (map repr_val xs) @ (if length xs = 1 then '','' else []) @ '')''"
| "repr_val (PDict d) =
     [CHR 0x7B] @ join '', '' (map (\<lambda>(k, v). repr_str k @ '': '' @ repr_val v) d) @ [CHR 0x7D]"

text \<open>\<open>f"{x}"\<close>: a string as it is, anything else as its \<open>repr\<close>.\<close>

fun str_val :: "pyval \<Rightarrow> string" where
  "str_val (PStr s) = s"
| "str_val v = repr_val v"

text \<open>\<open>s[-n:]\<close> for a positive \<open>n\<close>.\<close>

definition last_chars :: "nat \<Rightarrow> string \<Rightarrow> string" where
  "last_chars n s = drop (length s - n) s"

lemma last_chars_append: "n \<le> length t \<Longrightarrow> last_chars n (s @ t) = last_chars n t"
  by (simp add: last_chars_def)

text \<open>\<open>str.lower\<close> on ASCII, and the substring test \<open>marker in s\<close>.\<close>

definition lower_char :: "char \<Rightarrow> char" where
  "lower_char c = (let n = of_char c :: nat in if 65 \<le> n \<and> n \<le> 90 then char_of (n + 32) else c)"

definition lower :: "string \<Rightarrow> string" where
  "lower s = map lower_char s"

fun contains :: "string \<Rightarrow> string \<Rightarrow> bool" where
  "contains p [] = (p = [])"
| "contains p (c # s) = (take (length p) (c # s) = p \<or> contains p s)"

lemma contains_sublist: "contains p s \<longleftrightarrow> sublist p s"
proof (induction s)
  case (Cons c s)
  have "prefix p (c # s) \<longleftrightarrow> take (length p) (c # s) = p"
    by (metis append_eq_conv_conj prefix_def append_take_drop_id)
  with Cons show ?case by (simp add: sublist_Cons_right)
qed simp

end
