(* ===== verification/Errors.thy ===== *)
theory Errors
  imports Prelude
begin

text \<open>
  \<open>domain/errors.py\<close>: the exception classes, their inheritance, and \<open>isinstance\<close> on them.
  Every \<open>except\<close> clause of the program is decided by \<open>is_instance\<close>.  The classes of the
  standard library and of SQLite that the program raises or lets through are listed too, and
  \<open>SimulatedProcessDeath\<close> of \<open>tools/iam.py\<close>, which derives from \<open>BaseException\<close> so that no
  \<open>except Exception\<close> catches it.
\<close>

datatype exc_class =
    BaseException
  | PyException
  | OrchestratorError
  | InvalidStateTransition
  | RunNotFound
  | InvalidRunOperation
  | ToolError
  | TransientToolError
  | PermanentToolError
  | ToolNotAllowed
  | BudgetExceeded
  | InvalidPlan
  | SideEffectReconciliationRequired
  | RunCancelled
  | ApprovalRejected
  | SimulatedProcessDeath
  | ValueError
  | KeyError
  | IndexError
  | TypeError
  | AttributeError
  | AssertionError
  | RecursionError
  | IntegrityError
  | ValidationError
  | JSONDecodeError
  | LibraryError

text \<open>The base class each class statement names; \<open>BaseException\<close> has none.\<close>

fun superclass :: "exc_class \<Rightarrow> exc_class option" where
  "superclass BaseException = None"
| "superclass PyException = Some BaseException"
| "superclass OrchestratorError = Some PyException"
| "superclass InvalidStateTransition = Some OrchestratorError"
| "superclass RunNotFound = Some OrchestratorError"
| "superclass InvalidRunOperation = Some OrchestratorError"
| "superclass ToolError = Some OrchestratorError"
| "superclass TransientToolError = Some ToolError"
| "superclass PermanentToolError = Some ToolError"
| "superclass ToolNotAllowed = Some PermanentToolError"
| "superclass BudgetExceeded = Some PermanentToolError"
| "superclass InvalidPlan = Some PermanentToolError"
| "superclass SideEffectReconciliationRequired = Some OrchestratorError"
| "superclass RunCancelled = Some OrchestratorError"
| "superclass ApprovalRejected = Some OrchestratorError"
| "superclass SimulatedProcessDeath = Some BaseException"
| "superclass ValueError = Some PyException"
| "superclass KeyError = Some PyException"
| "superclass IndexError = Some PyException"
| "superclass TypeError = Some PyException"
| "superclass AttributeError = Some PyException"
| "superclass AssertionError = Some PyException"
| "superclass RecursionError = Some PyException"
| "superclass IntegrityError = Some PyException"
| "superclass ValidationError = Some ValueError"
| "superclass JSONDecodeError = Some ValueError"
| "superclass LibraryError = Some PyException"

text \<open>The hierarchy is at most six classes deep, so six look-ups reach the root.\<close>

fun ancestors :: "nat \<Rightarrow> exc_class \<Rightarrow> exc_class list" where
  "ancestors 0 c = [c]"
| "ancestors (Suc n) c = c # (case superclass c of None \<Rightarrow> [] | Some p \<Rightarrow> ancestors n p)"

definition is_subclass :: "exc_class \<Rightarrow> exc_class \<Rightarrow> bool" where
  "is_subclass c d \<longleftrightarrow> d \<in> set (ancestors 6 c)"

text \<open>
  A raised exception: its class and its message \<open>str(exc)\<close>.  \<open>GraphInterrupt\<close> is the signal
  with which LangGraph's \<open>interrupt(payload)\<close> leaves a node; no \<open>except\<close> clause of the
  program encloses a call that raises it.
\<close>

datatype exc = Exc exc_class string | GraphInterrupt pyval

fun exc_class_of :: "exc \<Rightarrow> exc_class" where
  "exc_class_of (Exc c _) = c"
| "exc_class_of (GraphInterrupt _) = LibraryError"

fun exc_message :: "exc \<Rightarrow> string" where
  "exc_message (Exc _ m) = m"
| "exc_message (GraphInterrupt _) = []"

definition is_instance :: "exc \<Rightarrow> exc_class \<Rightarrow> bool" where
  "is_instance e c \<longleftrightarrow> is_subclass (exc_class_of e) c"

text \<open>\<open>type(exc).__name__\<close>, the \<open>error_type\<close> column of the trace.\<close>

fun class_name :: "exc_class \<Rightarrow> string" where
  "class_name BaseException = ''BaseException''"
| "class_name PyException = ''Exception''"
| "class_name OrchestratorError = ''OrchestratorError''"
| "class_name InvalidStateTransition = ''InvalidStateTransition''"
| "class_name RunNotFound = ''RunNotFound''"
| "class_name InvalidRunOperation = ''InvalidRunOperation''"
| "class_name ToolError = ''ToolError''"
| "class_name TransientToolError = ''TransientToolError''"
| "class_name PermanentToolError = ''PermanentToolError''"
| "class_name ToolNotAllowed = ''ToolNotAllowed''"
| "class_name BudgetExceeded = ''BudgetExceeded''"
| "class_name InvalidPlan = ''InvalidPlan''"
| "class_name SideEffectReconciliationRequired = ''SideEffectReconciliationRequired''"
| "class_name RunCancelled = ''RunCancelled''"
| "class_name ApprovalRejected = ''ApprovalRejected''"
| "class_name SimulatedProcessDeath = ''SimulatedProcessDeath''"
| "class_name ValueError = ''ValueError''"
| "class_name KeyError = ''KeyError''"
| "class_name IndexError = ''IndexError''"
| "class_name TypeError = ''TypeError''"
| "class_name AttributeError = ''AttributeError''"
| "class_name AssertionError = ''AssertionError''"
| "class_name RecursionError = ''RecursionError''"
| "class_name IntegrityError = ''IntegrityError''"
| "class_name ValidationError = ''ValidationError''"
| "class_name JSONDecodeError = ''JSONDecodeError''"
| "class_name LibraryError = ''LibraryError''"

definition type_name :: "exc \<Rightarrow> string" where
  "type_name e = class_name (exc_class_of e)"

section \<open>The hierarchy decided\<close>

text \<open>
  The classes the \<open>except\<close> clauses of the program name, as conditions on the class of the
  exception.  These equations are what every later case distinction rewrites with.
\<close>

lemma is_subclass_iff [simp]:
  "is_subclass c BaseException"
  "is_subclass c PyException \<longleftrightarrow> c \<notin> {BaseException, SimulatedProcessDeath}"
  "is_subclass c ToolError \<longleftrightarrow> c \<in> {ToolError, TransientToolError, PermanentToolError, ToolNotAllowed,
     BudgetExceeded, InvalidPlan}"
  "is_subclass c TransientToolError \<longleftrightarrow> c = TransientToolError"
  "is_subclass c PermanentToolError \<longleftrightarrow> c \<in> {PermanentToolError, ToolNotAllowed, BudgetExceeded, InvalidPlan}"
  "is_subclass c ToolNotAllowed \<longleftrightarrow> c = ToolNotAllowed"
  "is_subclass c BudgetExceeded \<longleftrightarrow> c = BudgetExceeded"
  "is_subclass c InvalidPlan \<longleftrightarrow> c = InvalidPlan"
  "is_subclass c SideEffectReconciliationRequired \<longleftrightarrow> c = SideEffectReconciliationRequired"
  "is_subclass c RunCancelled \<longleftrightarrow> c = RunCancelled"
  "is_subclass c ApprovalRejected \<longleftrightarrow> c = ApprovalRejected"
  "is_subclass c RunNotFound \<longleftrightarrow> c = RunNotFound"
  "is_subclass c InvalidRunOperation \<longleftrightarrow> c = InvalidRunOperation"
  "is_subclass c IntegrityError \<longleftrightarrow> c = IntegrityError"
  "is_subclass c ValidationError \<longleftrightarrow> c = ValidationError"
  "is_subclass c JSONDecodeError \<longleftrightarrow> c = JSONDecodeError"
  by (cases c; simp add: is_subclass_def numeral_eq_Suc)+

lemma is_subclass_refl: "is_subclass c c"
  by (simp add: is_subclass_def numeral_eq_Suc)

lemma is_subclass_trans: "is_subclass c d \<Longrightarrow> is_subclass d e \<Longrightarrow> is_subclass c e"
  by (cases c; auto simp: is_subclass_def numeral_eq_Suc)

lemma class_name_inject: "class_name c = class_name d \<longleftrightarrow> c = d"
  by (cases c; cases d; simp)

lemma is_instance_simps [simp]: "is_instance (Exc c m) d = is_subclass c d"
  by (simp add: is_instance_def)

end
