(* ===== verification/Run_Domain.thy ===== *)
theory Run_Domain
  imports Errors
begin

text \<open>
  \<open>domain/run.py\<close>: the two lifecycles and their transition tables.  A table is checked by
  \<open>transition_run\<close> / \<open>transition_step\<close>; the locale \<open>checked_lifecycle\<close> is the contract both
  keep (the check accepts exactly the table), and what follows for whole histories is proved
  in it once.
\<close>

section \<open>The enumerations\<close>

datatype run_status = RPending | RRunning | RPaused | RCompleted | RFailed | RCancelled

datatype step_status = SPending | SRunning | SPaused | SCompleted | SFailed | SSkipped

datatype step_name =
    FETCH_EMPLOYEE
  | PLAN_DEPROVISIONING
  | AWAIT_HR_APPROVAL
  | REVOKE_ACCESS
  | SEND_EXIT_PAPERWORK
  | AWAIT_SIGNED_DOCUMENT
  | FINALIZE

datatype pause_reason = HR_APPROVAL | SIGNED_DOCUMENT

datatype failure_reason =
    TOOL_FAILED
  | APPROVAL_REJECTED
  | BUDGET_EXCEEDED
  | TOOL_NOT_ALLOWED
  | INVALID_PLAN
  | NEEDS_RECONCILIATION

fun run_status_value :: "run_status \<Rightarrow> string" where
  "run_status_value RPending = ''pending''"
| "run_status_value RRunning = ''running''"
| "run_status_value RPaused = ''paused''"
| "run_status_value RCompleted = ''completed''"
| "run_status_value RFailed = ''failed''"
| "run_status_value RCancelled = ''cancelled''"

fun step_status_value :: "step_status \<Rightarrow> string" where
  "step_status_value SPending = ''pending''"
| "step_status_value SRunning = ''running''"
| "step_status_value SPaused = ''paused''"
| "step_status_value SCompleted = ''completed''"
| "step_status_value SFailed = ''failed''"
| "step_status_value SSkipped = ''skipped''"

fun step_value :: "step_name \<Rightarrow> string" where
  "step_value FETCH_EMPLOYEE = ''fetch_employee''"
| "step_value PLAN_DEPROVISIONING = ''plan_deprovisioning''"
| "step_value AWAIT_HR_APPROVAL = ''await_hr_approval''"
| "step_value REVOKE_ACCESS = ''revoke_access''"
| "step_value SEND_EXIT_PAPERWORK = ''send_exit_paperwork''"
| "step_value AWAIT_SIGNED_DOCUMENT = ''await_signed_document''"
| "step_value FINALIZE = ''finalize''"

fun pause_value :: "pause_reason \<Rightarrow> string" where
  "pause_value HR_APPROVAL = ''hr_approval''"
| "pause_value SIGNED_DOCUMENT = ''signed_document''"

fun failure_value :: "failure_reason \<Rightarrow> string" where
  "failure_value TOOL_FAILED = ''tool_failed''"
| "failure_value APPROVAL_REJECTED = ''approval_rejected''"
| "failure_value BUDGET_EXCEEDED = ''budget_exceeded''"
| "failure_value TOOL_NOT_ALLOWED = ''tool_not_allowed''"
| "failure_value INVALID_PLAN = ''invalid_plan''"
| "failure_value NEEDS_RECONCILIATION = ''needs_reconciliation''"

text \<open>\<open>PauseReason(value)\<close>: the member with that value, \<open>ValueError\<close> when there is none.\<close>

definition pause_reason_of :: "string \<Rightarrow> exc + pause_reason" where
  "pause_reason_of v =
     (if v = pause_value HR_APPROVAL then Inr HR_APPROVAL
      else if v = pause_value SIGNED_DOCUMENT then Inr SIGNED_DOCUMENT
      else Inl (Exc ValueError (repr_str v @ '' is not a valid PauseReason'')))"

lemma pause_reason_of_value [simp]: "pause_reason_of (pause_value r) = Inr r"
  by (cases r) (simp_all add: pause_reason_of_def)

lemma step_value_inject [simp]: "step_value s = step_value t \<longleftrightarrow> s = t"
  by (cases s; cases t; simp)

section \<open>Transition tables\<close>

fun ALLOWED_RUN_TRANSITIONS :: "run_status \<Rightarrow> run_status set" where
  "ALLOWED_RUN_TRANSITIONS RPending = {RRunning, RCancelled}"
| "ALLOWED_RUN_TRANSITIONS RRunning = {RPaused, RCompleted, RFailed, RCancelled}"
| "ALLOWED_RUN_TRANSITIONS RPaused = {RRunning, RFailed, RCancelled}"
| "ALLOWED_RUN_TRANSITIONS RCompleted = {}"
| "ALLOWED_RUN_TRANSITIONS RFailed = {}"
| "ALLOWED_RUN_TRANSITIONS RCancelled = {}"

fun ALLOWED_STEP_TRANSITIONS :: "step_status \<Rightarrow> step_status set" where
  "ALLOWED_STEP_TRANSITIONS SPending = {SRunning, SSkipped}"
| "ALLOWED_STEP_TRANSITIONS SRunning = {SCompleted, SFailed, SPaused, SRunning}"
| "ALLOWED_STEP_TRANSITIONS SPaused = {SRunning, SCompleted, SFailed}"
| "ALLOWED_STEP_TRANSITIONS SFailed = {SRunning}"
| "ALLOWED_STEP_TRANSITIONS SCompleted = {SRunning}"
| "ALLOWED_STEP_TRANSITIONS SSkipped = {}"

definition TERMINAL_RUN_STATUSES :: "run_status set" where
  "TERMINAL_RUN_STATUSES = {RCompleted, RFailed, RCancelled}"

definition RESUMABLE_RUN_STATUSES :: "run_status set" where
  "RESUMABLE_RUN_STATUSES = {RPaused}"

definition is_terminal :: "run_status \<Rightarrow> bool" where
  "is_terminal status \<longleftrightarrow> status \<in> TERMINAL_RUN_STATUSES"

definition transition_run :: "run_status \<Rightarrow> run_status \<Rightarrow> exc + run_status" where
  "transition_run current target =
     (if target \<notin> ALLOWED_RUN_TRANSITIONS current
      then Inl (Exc InvalidStateTransition
        (''illegal run transition '' @ run_status_value current @ '' -> '' @ run_status_value target))
      else Inr target)"

definition transition_step :: "step_status \<Rightarrow> step_status \<Rightarrow> exc + step_status" where
  "transition_step current target =
     (if target \<notin> ALLOWED_STEP_TRANSITIONS current
      then Inl (Exc InvalidStateTransition
        (''illegal step transition '' @ step_status_value current @ '' -> '' @ step_status_value target))
      else Inr target)"

section \<open>The contract of a checked lifecycle\<close>

text \<open>
  A history of a lifecycle is a list of targets, each checked against the one before it; it
  stops at the first refused move.
\<close>

fun advance_all :: "('s \<Rightarrow> 's \<Rightarrow> 'e + 's) \<Rightarrow> 's \<Rightarrow> 's list \<Rightarrow> 'e + 's" where
  "advance_all step s [] = Inr s"
| "advance_all step s (t # ts) = (case step s t of Inl e \<Rightarrow> Inl e | Inr u \<Rightarrow> advance_all step u ts)"

lemma advance_all_append:
  "advance_all step s (xs @ ys) = sum_bind (advance_all step s xs) (\<lambda>u. advance_all step u ys)"
  by (induction xs arbitrary: s) (auto split: sum.splits)

locale checked_lifecycle =
  fixes allowed :: "'s \<Rightarrow> 's set"
    and step :: "'s \<Rightarrow> 's \<Rightarrow> 'e + 's"
  assumes accepts: "t \<in> allowed s \<Longrightarrow> step s t = Inr t"
    and refuses: "t \<notin> allowed s \<Longrightarrow> \<exists>e. step s t = Inl e"
begin

lemma step_Inr_iff: "step s t = Inr u \<longleftrightarrow> t \<in> allowed s \<and> u = t"
  using accepts [of t s] refuses [of t s] by (cases "t \<in> allowed s") auto

lemma absorbing: "allowed s = {} \<Longrightarrow> advance_all step s ts = Inr u \<Longrightarrow> ts = [] \<and> u = s"
  by (cases ts) (auto simp: step_Inr_iff split: sum.splits)

text \<open>A set closed under the table is never left.\<close>

lemma closed_set_invariant:
  assumes closed: "\<And>x y. x \<in> A \<Longrightarrow> y \<in> allowed x \<Longrightarrow> y \<in> A"
  shows "s \<in> A \<Longrightarrow> advance_all step s ts = Inr u \<Longrightarrow> u \<in> A"
proof (induction ts arbitrary: s)
  case (Cons t ts)
  then obtain v where "step s t = Inr v" and rest: "advance_all step v ts = Inr u"
    by (auto split: sum.splits)
  then have "v \<in> A" using closed Cons.prems(1) by (auto simp: step_Inr_iff)
  then show ?case using rest by (rule Cons.IH)
qed simp

lemma last_target: "advance_all step s ts = Inr u \<Longrightarrow> u = last (s # ts)"
  by (induction ts arbitrary: s) (auto simp: step_Inr_iff split: sum.splits)

text \<open>What the last accepted move was made from.\<close>

lemma advance_snocD:
  assumes "advance_all step s (ts @ [t]) = Inr u"
  obtains v where "advance_all step s ts = Inr v" and "t \<in> allowed v" and "u = t"
proof (cases "advance_all step s ts")
  case (Inl e)
  with assms show ?thesis by (simp add: advance_all_append)
next
  case (Inr v)
  with assms have "advance_all step v [t] = Inr u" by (simp add: advance_all_append)
  then have "step v t = Inr u" by (auto split: sum.splits)
  then show ?thesis using Inr that by (simp add: step_Inr_iff)
qed

text \<open>A status with no way out is only ever the last of a history.\<close>

lemma no_exit_before_end:
  assumes "advance_all step s (ts @ [t]) = Inr u" and "x \<in> set ts"
  shows "allowed x \<noteq> {}"
proof
  assume dead: "allowed x = {}"
  from assms(2) obtain ys zs where ts: "ts = ys @ x # zs" by (meson split_list)
  have "advance_all step s ((ys @ [x]) @ (zs @ [t])) = Inr u" using assms(1) ts by simp
  then obtain w where w: "advance_all step s (ys @ [x]) = Inr w" "advance_all step w (zs @ [t]) = Inr u"
    by (subst (asm) advance_all_append) (cases "advance_all step s (ys @ [x])"; auto)
  have "w = x" using last_target [OF w(1)] by simp
  with w(2) dead show False using absorbing [of x "zs @ [t]" u] by simp
qed

end

interpretation run_cycle: checked_lifecycle ALLOWED_RUN_TRANSITIONS transition_run
  by unfold_locales (auto simp: transition_run_def)

interpretation step_cycle: checked_lifecycle ALLOWED_STEP_TRANSITIONS transition_step
  by unfold_locales (auto simp: transition_step_def)

lemma is_terminal_iff: "is_terminal s \<longleftrightarrow> ALLOWED_RUN_TRANSITIONS s = {}"
  by (cases s) (simp_all add: is_terminal_def TERMINAL_RUN_STATUSES_def)

lemma transition_run_target:
  "transition_run s t = Inr u \<Longrightarrow> u = t \<and> \<not> is_terminal s \<and> s \<noteq> t"
  by (cases s; cases t) (auto simp: run_cycle.step_Inr_iff is_terminal_iff)

text \<open>Every row the trace holds was left in a status a new attempt may start from.\<close>

lemma transition_step_running: "s \<noteq> SSkipped \<Longrightarrow> transition_step s SRunning = Inr SRunning"
  by (cases s) (auto simp: transition_step_def)

section \<open>The steps in execution order\<close>

fun step_index :: "step_name \<Rightarrow> nat" where
  "step_index FETCH_EMPLOYEE = 0"
| "step_index PLAN_DEPROVISIONING = 1"
| "step_index AWAIT_HR_APPROVAL = 2"
| "step_index REVOKE_ACCESS = 3"
| "step_index SEND_EXIT_PAPERWORK = 4"
| "step_index AWAIT_SIGNED_DOCUMENT = 5"
| "step_index FINALIZE = 6"

lemma step_index_inject [simp]: "step_index s = step_index t \<longleftrightarrow> s = t"
  by (cases s; cases t; simp)

instantiation step_name :: linorder
begin

definition less_eq_step_name :: "step_name \<Rightarrow> step_name \<Rightarrow> bool" where
  "s \<le> t \<longleftrightarrow> step_index s \<le> step_index t"

definition less_step_name :: "step_name \<Rightarrow> step_name \<Rightarrow> bool" where
  "s < t \<longleftrightarrow> step_index s < step_index t"

instance
  by standard (auto simp: less_eq_step_name_def less_step_name_def)

end

section \<open>Properties of the lifecycle\<close>

text \<open>
  C34. The statuses a run can be in after a history of accepted moves from \<open>pending\<close>: a
  terminal status is the end of the history, a completed run was running before, and a run
  that went anywhere but straight to \<open>cancelled\<close> was started.
\<close>

theorem run_lifecycle_shape:
  assumes "advance_all transition_run RPending (ts @ [t]) = Inr u"
  shows "u = t \<and> (\<forall>s \<in> set ts. \<not> is_terminal s)
    \<and> (t = RCompleted \<longrightarrow> last (RPending # ts) = RRunning)
    \<and> (hd (ts @ [t]) = RRunning \<or> ts = [] \<and> t = RCancelled)"
proof -
  obtain v where v: "advance_all transition_run RPending ts = Inr v"
      "t \<in> ALLOWED_RUN_TRANSITIONS v" "u = t"
    using run_cycle.advance_snocD [OF assms] .
  have "v = last (RPending # ts)" using v(1) by (rule run_cycle.last_target)
  moreover have "t = RCompleted \<longrightarrow> v = RRunning" using v(2) by (cases v) auto
  moreover have "\<forall>s \<in> set ts. \<not> is_terminal s"
    using run_cycle.no_exit_before_end [OF assms] by (auto simp: is_terminal_iff)
  moreover have "hd (ts @ [t]) = RRunning \<or> ts = [] \<and> t = RCancelled"
  proof (cases ts)
    case Nil
    with v show ?thesis by auto
  next
    case (Cons s ss)
    with v(1) have "s \<in> {RRunning, RCancelled}"
      by (auto simp: transition_run_def split: sum.splits if_splits)
    moreover have "s \<noteq> RCancelled"
      using Cons run_cycle.no_exit_before_end [OF assms, of s] by auto
    ultimately show ?thesis using Cons by simp
  qed
  ultimately show ?thesis using v(3) by simp
qed

text \<open>A run that paused once, was resumed and completed.\<close>

theorem run_lifecycle_shape_witness:
  "advance_all transition_run RPending ([RRunning, RPaused, RRunning] @ [RCompleted]) = Inr RCompleted
   \<and> \<not> is_terminal RRunning \<and> \<not> is_terminal RPaused"
proof -
  have h: "advance_all transition_run RPending ([RRunning, RPaused, RRunning] @ [RCompleted]) = Inr RCompleted"
    by (simp add: transition_run_def)
  show ?thesis using h run_lifecycle_shape [OF h] by simp
qed

end
