(* ===== verification/Redaction.thy ===== *)
theory Redaction
  imports Prelude
begin

text \<open>
  \<open>domain/redaction.py\<close>: the mask applied to what is written to the execution trace.  The
  keys of a dict are strings here, so \<open>str(k)\<close> is the key itself.
\<close>

definition SENSITIVE_KEY_MARKERS :: "string list" where
  "SENSITIVE_KEY_MARKERS =
     [''password'', ''secret'', ''token'', ''api_key'', ''apikey'', ''authorization'',
      ''credential'', ''private_key'', ''session'']"

definition REDACTED :: string where
  "REDACTED = ''***redacted***''"

definition is_sensitive :: "string \<Rightarrow> bool" where
  "is_sensitive key = (let lowered = lower key in
     list_ex (\<lambda>marker. contains marker lowered) SENSITIVE_KEY_MARKERS)"

fun redact :: "pyval \<Rightarrow> pyval" where
  "redact (PDict d) =
     PDict (map (\<lambda>(k, v). (k, if is_sensitive k then PStr REDACTED else redact v)) d)"
| "redact (PList xs) = PList (map redact xs)"
| "redact (PTuple xs) = PList (map redact xs)"
| "redact v = v"

section \<open>What the mask guarantees\<close>

text \<open>
  \<open>masked v\<close>: at every depth, the value behind a sensitive key is the mask and nothing else;
  \<open>no_tuple v\<close>: no tuple is left anywhere outside what a mask replaced.
\<close>

fun masked :: "pyval \<Rightarrow> bool" where
  "masked (PDict d) = (\<forall>(k, v) \<in> set d. if is_sensitive k then v = PStr REDACTED else masked v)"
| "masked (PList xs) = (\<forall>x \<in> set xs. masked x)"
| "masked (PTuple xs) = (\<forall>x \<in> set xs. masked x)"
| "masked v = True"

fun no_tuple :: "pyval \<Rightarrow> bool" where
  "no_tuple (PDict d) = (\<forall>(k, v) \<in> set d. no_tuple v)"
| "no_tuple (PList xs) = (\<forall>x \<in> set xs. no_tuple x)"
| "no_tuple (PTuple xs) = False"
| "no_tuple v = True"

text \<open>\<open>same_shape v w\<close>: \<open>w\<close> has the containers, lengths and keys of \<open>v\<close>, in the same places,
  except below a sensitive key; every leaf outside a sensitive key is the same.\<close>

fun same_shape :: "pyval \<Rightarrow> pyval \<Rightarrow> bool" where
  "same_shape (PDict d) w = (\<exists>d'. w = PDict d' \<and>
     list_all2 (\<lambda>(k, v) (k', v'). k' = k \<and> (is_sensitive k \<or> same_shape v v')) d d')"
| "same_shape (PList xs) w = (\<exists>ys. w = PList ys \<and> list_all2 same_shape xs ys)"
| "same_shape (PTuple xs) w = (\<exists>ys. w = PList ys \<and> list_all2 same_shape xs ys)"
| "same_shape v w = (w = v)"

lemma masked_redact: "masked (redact v)"
  by (induction v rule: redact.induct) (auto split: if_splits)

lemma no_tuple_redact: "no_tuple (redact v)"
  by (induction v rule: redact.induct) (auto split: if_splits)

lemma redact_fixed: "masked v \<Longrightarrow> no_tuple v \<Longrightarrow> redact v = v"
proof (induction v rule: redact.induct)
  case (1 d)
  have "map (\<lambda>(k, v). (k, if is_sensitive k then PStr REDACTED else redact v)) d = map id d"
    using 1 by (intro map_cong) (fastforce split: if_splits)+
  then show ?case by simp
next
  case (2 xs)
  then show ?case by (simp add: map_idI)
qed simp_all

lemma redact_fixed_iff: "redact v = v \<longleftrightarrow> masked v \<and> no_tuple v"
  using masked_redact [of v] no_tuple_redact [of v] redact_fixed [of v] by metis

lemma json_roundtrip_fixed: "no_tuple v \<Longrightarrow> json_roundtrip v = v"
proof (induction v rule: json_roundtrip.induct)
  case (1 xs)
  then show ?case by (simp add: map_idI)
next
  case (3 d)
  then have "map (\<lambda>(k, v). (k, json_roundtrip v)) d = map id d"
    by (intro map_cong) fastforce+
  then show ?case by simp
qed simp_all

lemma json_roundtrip_redact [simp]: "json_roundtrip (redact v) = redact v"
  by (simp add: json_roundtrip_fixed no_tuple_redact)

lemma redact_same_shape_aux: "same_shape v (redact v)"
  by (induction v rule: redact.induct)
    (auto simp: list_all2_map2 list_all2_same split: if_splits)

text \<open>
  C35. Redaction masks every value behind a sensitive key at every depth, keeps the shape and
  every other leaf, and is stable: applied again it changes nothing, and the values it leaves
  alone are exactly the tuple-free ones whose sensitive entries are already masked.
\<close>

theorem redact_masks_and_keeps_shape:
  "masked (redact v) \<and> same_shape v (redact v) \<and> redact (redact v) = redact v
   \<and> (redact v = v \<longleftrightarrow> masked v \<and> no_tuple v)"
  using masked_redact no_tuple_redact redact_fixed redact_same_shape_aux redact_fixed_iff by blast

end
