(* ===== verification/Store.thy ===== *)
theory Store
  imports Run_Domain Redaction
begin

text \<open>
  The durable state and what the repositories share: the read models of \<open>domain/models.py\<close>,
  the four tables of \<open>persistence/db.py\<close>, and the clock and the transaction helper of
  \<open>persistence/base.py\<close>.  A row and the read model built from it carry the same columns, so
  the tables hold the read models themselves; \<open>Rows\<close> shows that they are what the stored rows read
  back as.

  Beside the tables the state holds what lives in the process: the fault counters of the
  mocked IAM tool and document tool, and the sources of time and of random ids, which are
  arbitrary streams read one value at a time.
\<close>

type_synonym ts = nat  \<comment> \<open>an instant; \<open>Timestamps\<close>: the stored ISO texts are ordered as the instants are\<close>

record run =
  run_id :: string
  thread_id :: string
  employee_id :: string
  status :: run_status
  created_at :: ts
  updated_at :: ts
  pause_reason :: "pause_reason option"
  failure_reason :: "failure_reason option"
  failure_detail :: "string option"
  cancel_requested :: bool
  step_count :: int
  tool_call_count :: int
  max_steps :: int
  max_tool_calls :: int

record step_attempt =
  att_id :: nat
  att_run :: string
  att_step :: string
  attempt :: nat
  att_status :: step_status
  started_at :: ts
  ended_at :: "ts option"
  tool_invoked :: "string option"
  att_pause :: "pause_reason option"
  error_type :: "string option"
  error_message :: "string option"
  detail :: pyval

datatype effect_state = RESERVED | IN_PROGRESS | COMPLETED | FAILED

record side_effect_record =
  idempotency_key :: string
  eff_run :: string
  eff_step :: string
  eff_tool :: string
  eff_state :: effect_state
  eff_created :: ts
  completed_at :: "ts option"
  eff_result :: "pyval option"

record provider_effect =
  provider :: string
  provider_key :: string
  payload :: pyval
  prov_created :: ts

text \<open>\<open>IamTool\<close>'s instance fields: the fault injection of one process.\<close>

record iam_faults =
  remaining_failures :: int
  fail_permanently :: bool
  crash_after_apply :: bool

record world =
  runs_tbl :: "run list"
  trace_tbl :: "step_attempt list"
  trace_seq :: nat  \<comment> \<open>AUTOINCREMENT: the largest id ever given\<close>
  effects_tbl :: "side_effect_record list"
  provider_tbl :: "provider_effect list"
  clock :: "nat \<Rightarrow> ts"
  clock_reads :: nat
  uuids :: "nat \<Rightarrow> string"
  uuid_reads :: nat
  iam :: iam_faults
  paperwork_failures :: int

type_synonym 'a py = "(world, exc, 'a) eff"

definition run_is_terminal :: "run \<Rightarrow> bool" where
  "run_is_terminal r = is_terminal (status r)"

text \<open>\<open>now()\<close> takes the next reading of the clock; \<open>uuid4().hex\<close> the next random id.\<close>

definition now :: "ts py" where
  "now = (\<lambda>w. (Inr (clock w (clock_reads w)), w\<lparr>clock_reads := Suc (clock_reads w)\<rparr>))"

definition uuid_hex :: "string py" where
  "uuid_hex = (\<lambda>w. (Inr (uuids w (uuid_reads w)), w\<lparr>uuid_reads := Suc (uuid_reads w)\<rparr>))"

text \<open>
  \<open>immediate(conn)\<close>: the block runs with the write lock taken, is committed when it ends and
  rolled back when it raises.
\<close>

definition rollback :: "world \<Rightarrow> world \<Rightarrow> world" where
  "rollback before after = after\<lparr>runs_tbl := runs_tbl before, trace_tbl := trace_tbl before,
     trace_seq := trace_seq before, effects_tbl := effects_tbl before,
     provider_tbl := provider_tbl before\<rparr>"

definition immediate :: "'a py \<Rightarrow> 'a py" where
  "immediate block = (\<lambda>w. case block w of
     (r, w') \<Rightarrow> (case r of Inl e \<Rightarrow> (Inl e, rollback w w') | Inr a \<Rightarrow> (Inr a, w')))"

lemma now_apply [simp]: "now w = (Inr (clock w (clock_reads w)), w\<lparr>clock_reads := Suc (clock_reads w)\<rparr>)"
  by (simp add: now_def)

lemma uuid_hex_apply [simp]:
  "uuid_hex w = (Inr (uuids w (uuid_reads w)), w\<lparr>uuid_reads := Suc (uuid_reads w)\<rparr>)"
  by (simp add: uuid_hex_def)

lemma rollback_same [simp]: "rollback w w = w"
  by (simp add: rollback_def)

lemma immediate_apply: "immediate block w = (case block w of
     (r, w') \<Rightarrow> (case r of Inl e \<Rightarrow> (Inl e, rollback w w') | Inr a \<Rightarrow> (Inr a, w')))"
  by (simp add: immediate_def)

text \<open>
  A transaction is all or nothing: when the block raises, every table is what it was
  before, whatever the block had written; when it returns, its writes stand.
\<close>

theorem immediate_atomic:
  "case immediate block w of
     (Inl e, w') \<Rightarrow> fst (block w) = Inl e \<and> runs_tbl w' = runs_tbl w \<and> trace_tbl w' = trace_tbl w
       \<and> trace_seq w' = trace_seq w \<and> effects_tbl w' = effects_tbl w \<and> provider_tbl w' = provider_tbl w
   | (Inr a, w') \<Rightarrow> block w = (Inr a, w')"
  by (simp add: immediate_apply rollback_def split: prod.splits sum.splits)

text \<open>The state of a new database file in a fresh process with no faults injected.\<close>

definition no_faults :: iam_faults where
  "no_faults = \<lparr>remaining_failures = 0, fail_permanently = False, crash_after_apply = False\<rparr>"

definition empty_world :: "(nat \<Rightarrow> ts) \<Rightarrow> (nat \<Rightarrow> string) \<Rightarrow> world" where
  "empty_world clk ids = \<lparr>runs_tbl = [], trace_tbl = [], trace_seq = 0, effects_tbl = [],
     provider_tbl = [], clock = clk, clock_reads = 0, uuids = ids, uuid_reads = 0,
     iam = no_faults, paperwork_failures = 0\<rparr>"

lemma empty_world_simps [simp]:
  "runs_tbl (empty_world c i) = []" "trace_tbl (empty_world c i) = []"
  "trace_seq (empty_world c i) = 0"
  "effects_tbl (empty_world c i) = []" "provider_tbl (empty_world c i) = []"
  by (simp_all add: empty_world_def)

end
