(* ===== verification/Runs.thy ===== *)
theory Runs
  imports Store
begin

text \<open>
  \<open>persistence/runs.py\<close>: the runs table.  Every operation is the method of \<open>RunRepository\<close>
  with the same name; \<open>lookup_run\<close> is the table seen as a map from run ids to runs, which is
  the abstraction the operations are specified over.
\<close>

section \<open>Operations\<close>

definition run_not_found :: "string \<Rightarrow> exc" where
  "run_not_found rid = Exc RunNotFound (''no run with id '' @ repr_str rid)"

definition runs_get :: "string \<Rightarrow> run py" where
  "runs_get rid = mbind (gets (\<lambda>w. tfind run_id rid (runs_tbl w)))
     (\<lambda>row. case row of None \<Rightarrow> raise (run_not_found rid) | Some r \<Rightarrow> ret r)"

text \<open>\<open>INSERT INTO runs\<close>: \<open>run_id\<close> is the primary key, \<open>thread_id\<close> is unique.\<close>

definition insert_run :: "run \<Rightarrow> unit py" where
  "insert_run row = (\<lambda>w.
     if run_id row \<in> run_id ` set (runs_tbl w)
     then (Inl (Exc IntegrityError ''UNIQUE constraint failed: runs.run_id''), w)
     else if thread_id row \<in> thread_id ` set (runs_tbl w)
     then (Inl (Exc IntegrityError ''UNIQUE constraint failed: runs.thread_id''), w)
     else (Inr (), w\<lparr>runs_tbl := runs_tbl w @ [row]\<rparr>))"

definition fresh_run_id :: "string option \<Rightarrow> string py" where
  "fresh_run_id given = (case given of
     Some rid \<Rightarrow> if rid \<noteq> [] then ret rid else mbind uuid_hex (\<lambda>h. ret (''run_'' @ take 12 h))
   | None \<Rightarrow> mbind uuid_hex (\<lambda>h. ret (''run_'' @ take 12 h)))"

definition thread_of :: "string \<Rightarrow> string" where
  "thread_of rid = ''thread_'' @ rid"

definition new_run :: "string \<Rightarrow> string \<Rightarrow> int \<Rightarrow> int \<Rightarrow> ts \<Rightarrow> run" where
  "new_run rid emp msteps mcalls t = \<lparr>run_id = rid, thread_id = thread_of rid, employee_id = emp,
     status = RPending, created_at = t, updated_at = t, pause_reason = None, failure_reason = None,
     failure_detail = None, cancel_requested = False, step_count = 0, tool_call_count = 0,
     max_steps = msteps, max_tool_calls = mcalls\<rparr>"

definition runs_create :: "string \<Rightarrow> string option \<Rightarrow> int \<Rightarrow> int \<Rightarrow> run py" where
  "runs_create emp given msteps mcalls =
     mbind (fresh_run_id given) (\<lambda>rid.
     mbind now (\<lambda>t.
     mseq (insert_run (new_run rid emp msteps mcalls t))
     (runs_get rid)))"

text \<open>\<open>LIMIT\<close> with a negative number is no limit in SQLite.\<close>

definition limit_rows :: "int \<Rightarrow> 'a list \<Rightarrow> 'a list" where
  "limit_rows n rows = (if n < 0 then rows else take (nat n) rows)"

definition list_runs :: "int \<Rightarrow> run list py" where
  "list_runs n = gets (\<lambda>w. limit_rows n (sort_key (\<lambda>r. - int (created_at r)) (runs_tbl w)))"

definition coalesce :: "'a option \<Rightarrow> 'a option \<Rightarrow> 'a option" where
  "coalesce new old = (case new of None \<Rightarrow> old | Some _ \<Rightarrow> new)"

definition write_status ::
  "run_status \<Rightarrow> pause_reason option \<Rightarrow> failure_reason option \<Rightarrow> string option \<Rightarrow> ts \<Rightarrow> run \<Rightarrow> run" where
  "write_status target pr fr fd t r = r\<lparr>status := target, pause_reason := pr,
     failure_reason := coalesce fr (failure_reason r),
     failure_detail := coalesce fd (failure_detail r), updated_at := t\<rparr>"

definition update_run :: "string \<Rightarrow> (run \<Rightarrow> run) \<Rightarrow> unit py" where
  "update_run rid f = modify (\<lambda>w. w\<lparr>runs_tbl := tupdate run_id rid f (runs_tbl w)\<rparr>)"

definition set_status ::
  "string \<Rightarrow> run_status \<Rightarrow> pause_reason option \<Rightarrow> failure_reason option \<Rightarrow> string option \<Rightarrow> run py" where
  "set_status rid target pr fr fd =
     mseq (immediate (
       mbind (gets (\<lambda>w. tfind run_id rid (runs_tbl w))) (\<lambda>row. case row of
         None \<Rightarrow> raise (run_not_found rid)
       | Some r \<Rightarrow>
           mseq (lift_sum (transition_run (status r) target))
           (mbind now (\<lambda>t. update_run rid (write_status target pr fr fd t))))))
     (runs_get rid)"

definition request_cancel :: "string \<Rightarrow> run py" where
  "request_cancel rid =
     mseq (immediate (
       mbind (gets (\<lambda>w. tfind run_id rid (runs_tbl w))) (\<lambda>row. case row of
         None \<Rightarrow> raise (run_not_found rid)
       | Some r \<Rightarrow> mbind now (\<lambda>t.
           update_run rid (\<lambda>r. r\<lparr>cancel_requested := True, updated_at := t\<rparr>)))))
     (runs_get rid)"

definition add_counts :: "int \<Rightarrow> int \<Rightarrow> ts \<Rightarrow> run \<Rightarrow> run" where
  "add_counts steps calls t r = r\<lparr>step_count := step_count r + steps,
     tool_call_count := tool_call_count r + calls, updated_at := t\<rparr>"

definition bump_counters :: "string \<Rightarrow> int \<Rightarrow> int \<Rightarrow> run py" where
  "bump_counters rid steps calls =
     mseq (mbind now (\<lambda>t. update_run rid (add_counts steps calls t)))
     (runs_get rid)"

section \<open>The table as a map\<close>

definition lookup_run :: "world \<Rightarrow> string \<Rightarrow> run option" where
  "lookup_run w rid = tfind run_id rid (runs_tbl w)"

definition runs_wf :: "world \<Rightarrow> bool" where
  "runs_wf w \<longleftrightarrow> distinct (map run_id (runs_tbl w)) \<and> (\<forall>r \<in> set (runs_tbl w). thread_id r = thread_of (run_id r))"

text \<open>Everything but the runs table and the readings of the clock and of the ids is untouched.\<close>

definition only_runs :: "world \<Rightarrow> world \<Rightarrow> bool" where
  "only_runs w w' \<longleftrightarrow> trace_tbl w' = trace_tbl w \<and> trace_seq w' = trace_seq w \<and> effects_tbl w' = effects_tbl w
     \<and> provider_tbl w' = provider_tbl w \<and> iam w' = iam w \<and> paperwork_failures w' = paperwork_failures w
     \<and> clock w' = clock w \<and> uuids w' = uuids w"

lemma thread_of_inject [simp]: "thread_of a = thread_of b \<longleftrightarrow> a = b"
  by (simp add: thread_of_def)

lemma lookup_run_id: "lookup_run w rid = Some r \<Longrightarrow> run_id r = rid"
  by (auto simp: lookup_run_def dest: tfind_SomeD)

lemma lookup_run_cong: "runs_tbl w' = runs_tbl w \<Longrightarrow> lookup_run w' rid = lookup_run w rid"
  by (simp add: lookup_run_def)

lemma lookup_run_frame [simp]:
  "lookup_run (w\<lparr>trace_tbl := x1\<rparr>) rid = lookup_run w rid"
  "lookup_run (w\<lparr>trace_seq := x2\<rparr>) rid = lookup_run w rid"
  "lookup_run (w\<lparr>effects_tbl := x3\<rparr>) rid = lookup_run w rid"
  "lookup_run (w\<lparr>provider_tbl := x4\<rparr>) rid = lookup_run w rid"
  "lookup_run (w\<lparr>clock_reads := x5\<rparr>) rid = lookup_run w rid"
  "lookup_run (w\<lparr>uuid_reads := x6\<rparr>) rid = lookup_run w rid"
  "lookup_run (w\<lparr>iam := x7\<rparr>) rid = lookup_run w rid"
  "lookup_run (w\<lparr>paperwork_failures := x8\<rparr>) rid = lookup_run w rid"
  by (simp_all add: lookup_run_def)

lemma write_status_simps [simp]:
  "run_id (write_status s p f d t r) = run_id r"
  "thread_id (write_status s p f d t r) = thread_id r"
  "employee_id (write_status s p f d t r) = employee_id r"
  "status (write_status s p f d t r) = s"
  "pause_reason (write_status s p f d t r) = p"
  "failure_reason (write_status s p f d t r) = coalesce f (failure_reason r)"
  "failure_detail (write_status s p f d t r) = coalesce d (failure_detail r)"
  "cancel_requested (write_status s p f d t r) = cancel_requested r"
  "step_count (write_status s p f d t r) = step_count r"
  "tool_call_count (write_status s p f d t r) = tool_call_count r"
  "max_steps (write_status s p f d t r) = max_steps r"
  "max_tool_calls (write_status s p f d t r) = max_tool_calls r"
  "created_at (write_status s p f d t r) = created_at r"
  by (simp_all add: write_status_def)

lemma coalesce_simps [simp]: "coalesce None x = x" "coalesce (Some a) x = Some a"
  by (simp_all add: coalesce_def)

lemma lookup_run_update:
  assumes "\<And>r. run_id (f r) = run_id r"
  shows "lookup_run (w\<lparr>runs_tbl := tupdate run_id rid f (runs_tbl w)\<rparr>) =
    (lookup_run w)(rid := map_option f (lookup_run w rid))"
  using assms by (auto simp: lookup_run_def fun_eq_iff tfind_tupdate)

lemma runs_get_eq: "runs_get rid w =
    (case lookup_run w rid of None \<Rightarrow> (Inl (run_not_found rid), w) | Some r \<Rightarrow> (Inr r, w))"
  by (simp add: runs_get_def mbind_apply lookup_run_def split: option.splits)

lemma runs_get_Inr [simp]: "runs_get rid w = (Inr r, w') \<longleftrightarrow> lookup_run w rid = Some r \<and> w' = w"
  by (auto simp: runs_get_eq split: option.splits)

text \<open>\<open>set_status\<close> in one equation: refused moves leave the state alone.\<close>

lemma set_status_eq: "set_status rid target pr fr fd w =
    (case lookup_run w rid of
       None \<Rightarrow> (Inl (run_not_found rid), w)
     | Some r \<Rightarrow> (case transition_run (status r) target of
         Inl e \<Rightarrow> (Inl e, w)
       | Inr _ \<Rightarrow> (let t = clock w (clock_reads w) in
           (Inr (write_status target pr fr fd t r),
            w\<lparr>clock_reads := Suc (clock_reads w),
              runs_tbl := tupdate run_id rid (write_status target pr fr fd t) (runs_tbl w)\<rparr>))))"
  by (auto simp: set_status_def eff_apply immediate_apply update_run_def runs_get_eq lookup_run_def
      tfind_tupdate Let_def split: option.splits sum.splits)

lemma request_cancel_eq: "request_cancel rid w =
    (case lookup_run w rid of
       None \<Rightarrow> (Inl (run_not_found rid), w)
     | Some r \<Rightarrow> (let t = clock w (clock_reads w) in
         (Inr (r\<lparr>cancel_requested := True, updated_at := t\<rparr>),
          w\<lparr>clock_reads := Suc (clock_reads w),
            runs_tbl := tupdate run_id rid (\<lambda>r. r\<lparr>cancel_requested := True, updated_at := t\<rparr>) (runs_tbl w)\<rparr>)))"
  by (auto simp: request_cancel_def eff_apply immediate_apply update_run_def runs_get_eq lookup_run_def
      tfind_tupdate Let_def split: option.splits)

lemma add_counts_simps [simp]:
  "run_id (add_counts a b t r) = run_id r" "thread_id (add_counts a b t r) = thread_id r"
  "employee_id (add_counts a b t r) = employee_id r" "status (add_counts a b t r) = status r"
  "pause_reason (add_counts a b t r) = pause_reason r"
  "failure_reason (add_counts a b t r) = failure_reason r"
  "failure_detail (add_counts a b t r) = failure_detail r"
  "cancel_requested (add_counts a b t r) = cancel_requested r"
  "step_count (add_counts a b t r) = step_count r + a"
  "tool_call_count (add_counts a b t r) = tool_call_count r + b"
  "max_steps (add_counts a b t r) = max_steps r"
  "max_tool_calls (add_counts a b t r) = max_tool_calls r"
  by (simp_all add: add_counts_def)

lemma bump_counters_eq: "bump_counters rid steps calls w =
    (let t = clock w (clock_reads w);
         w' = w\<lparr>clock_reads := Suc (clock_reads w),
                runs_tbl := tupdate run_id rid (add_counts steps calls t) (runs_tbl w)\<rparr>
     in case lookup_run w rid of
       None \<Rightarrow> (Inl (run_not_found rid), w')
     | Some r \<Rightarrow> (Inr (add_counts steps calls t r), w'))"
  by (auto simp: bump_counters_def eff_apply update_run_def runs_get_eq lookup_run_def
      tfind_tupdate Let_def split: option.splits)

lemma new_run_simps [simp]:
  "run_id (new_run rid emp ms mc t) = rid" "thread_id (new_run rid emp ms mc t) = thread_of rid"
  "employee_id (new_run rid emp ms mc t) = emp" "status (new_run rid emp ms mc t) = RPending"
  "pause_reason (new_run rid emp ms mc t) = None" "failure_reason (new_run rid emp ms mc t) = None"
  "cancel_requested (new_run rid emp ms mc t) = False"
  "step_count (new_run rid emp ms mc t) = 0" "tool_call_count (new_run rid emp ms mc t) = 0"
  "max_steps (new_run rid emp ms mc t) = ms" "max_tool_calls (new_run rid emp ms mc t) = mc"
  by (simp_all add: new_run_def)

lemma fresh_run_id_eq: "\<exists>rid n. fresh_run_id given w = (Inr rid, w\<lparr>uuid_reads := n\<rparr>) \<and> rid \<noteq> []"
proof (cases "\<exists>rid. given = Some rid \<and> rid \<noteq> []")
  case True
  then obtain rid where "given = Some rid" "rid \<noteq> []" by blast
  then have "fresh_run_id given w = (Inr rid, w\<lparr>uuid_reads := uuid_reads w\<rparr>)"
    by (simp add: fresh_run_id_def)
  with \<open>rid \<noteq> []\<close> show ?thesis by blast
next
  case False
  then have "fresh_run_id given w =
      (Inr (''run_'' @ take 12 (uuids w (uuid_reads w))), w\<lparr>uuid_reads := Suc (uuid_reads w)\<rparr>)"
    by (auto simp: fresh_run_id_def mbind_apply split: option.splits)
  then show ?thesis by blast
qed

lemma insert_run_eq:
  assumes "runs_wf w" and "thread_id row = thread_of (run_id row)"
  shows "insert_run row w =
    (if lookup_run w (run_id row) \<noteq> None
     then (Inl (Exc IntegrityError ''UNIQUE constraint failed: runs.run_id''), w)
     else (Inr (), w\<lparr>runs_tbl := runs_tbl w @ [row]\<rparr>))"
  using assms by (auto simp: insert_run_def runs_wf_def lookup_run_def tfind_None_iff image_iff)

lemma lookup_run_snoc: "lookup_run (w\<lparr>runs_tbl := runs_tbl w @ [row]\<rparr>) rid =
    (case lookup_run w rid of Some r \<Rightarrow> Some r | None \<Rightarrow> if run_id row = rid then Some row else None)"
  by (simp add: lookup_run_def tfind_append tfind_Cons split: option.splits)

text \<open>
  Creating a run: a fresh id is appended as a pending run, an id already in use is refused by
  the primary key and nothing is written.
\<close>

lemma runs_create_cases:
  assumes wf: "runs_wf w"
  obtains (collision) rid n w' where "lookup_run w rid \<noteq> None"
      "w' = w\<lparr>uuid_reads := n, clock_reads := Suc (clock_reads w)\<rparr>"
      "runs_create emp given ms mc w = (Inl (Exc IntegrityError ''UNIQUE constraint failed: runs.run_id''), w')"
  | (created) rid n t where "lookup_run w rid = None" "rid \<noteq> []"
      "runs_create emp given ms mc w = (Inr (new_run rid emp ms mc t),
         w\<lparr>uuid_reads := n, clock_reads := Suc (clock_reads w),
           runs_tbl := runs_tbl w @ [new_run rid emp ms mc t]\<rparr>)"
proof -
  obtain rid n where f: "fresh_run_id given w = (Inr rid, w\<lparr>uuid_reads := n\<rparr>)" "rid \<noteq> []"
    using fresh_run_id_eq by blast
  let ?w = "w\<lparr>uuid_reads := n, clock_reads := Suc (clock_reads w)\<rparr>"
  let ?row = "new_run rid emp ms mc (clock w (clock_reads w))"
  have wf': "runs_wf ?w" using wf by (simp add: runs_wf_def)
  have ins: "insert_run ?row ?w = (if lookup_run w rid \<noteq> None
     then (Inl (Exc IntegrityError ''UNIQUE constraint failed: runs.run_id''), ?w)
     else (Inr (), ?w\<lparr>runs_tbl := runs_tbl ?w @ [?row]\<rparr>))"
    using insert_run_eq [OF wf', of ?row] by simp
  show ?thesis
  proof (cases "lookup_run w rid")
    case None
    then have "runs_create emp given ms mc w = (Inr ?row, ?w\<lparr>runs_tbl := runs_tbl ?w @ [?row]\<rparr>)"
      using f ins lookup_run_snoc [of ?w ?row rid] by (simp add: runs_create_def eff_apply)
    with None f(2) show ?thesis by (intro created) simp_all
  next
    case (Some r)
    then show ?thesis using f ins
      by (intro collision [of rid ?w n]) (simp_all add: runs_create_def eff_apply)
  qed
qed

section \<open>How a run may change\<close>

text \<open>
  \<open>run_evolves r r'\<close>: identity and limits are fixed, counters and the cancellation flag only
  grow, and the status has moved along the transition table.  \<open>runs_evolve\<close> lifts it to the
  table: no run disappears.
\<close>

definition run_moves :: "run_status \<Rightarrow> run_status \<Rightarrow> bool" where
  "run_moves s t \<longleftrightarrow> t \<in> ALLOWED_RUN_TRANSITIONS s"

definition run_evolves :: "run \<Rightarrow> run \<Rightarrow> bool" where
  "run_evolves r r' \<longleftrightarrow>
     run_id r' = run_id r \<and> thread_id r' = thread_id r \<and> employee_id r' = employee_id r
   \<and> max_steps r' = max_steps r \<and> max_tool_calls r' = max_tool_calls r
   \<and> step_count r \<le> step_count r' \<and> tool_call_count r \<le> tool_call_count r'
   \<and> (cancel_requested r \<longrightarrow> cancel_requested r')
   \<and> run_moves\<^sup>*\<^sup>* (status r) (status r')"

definition runs_evolve :: "world \<Rightarrow> world \<Rightarrow> bool" where
  "runs_evolve w w' \<longleftrightarrow>
     (\<forall>rid r. lookup_run w rid = Some r \<longrightarrow> (\<exists>r'. lookup_run w' rid = Some r' \<and> run_evolves r r'))"

lemma run_evolves_refl [simp]: "run_evolves r r"
  by (simp add: run_evolves_def)

lemma run_evolves_trans: "run_evolves r s \<Longrightarrow> run_evolves s t \<Longrightarrow> run_evolves r t"
  by (fastforce simp: run_evolves_def)

interpretation evolving: guarantee runs_evolve
proof unfold_locales
  show "runs_evolve w w" for w by (simp add: runs_evolve_def)
  show "runs_evolve w v" if "runs_evolve w u" "runs_evolve u v" for w u v
    using that unfolding runs_evolve_def by (meson run_evolves_trans)
qed

interpretation runs_only: guarantee only_runs
  by unfold_locales (auto simp: only_runs_def)

lemma runs_evolve_same: "runs_tbl w' = runs_tbl w \<Longrightarrow> runs_evolve w w'"
  by (simp add: runs_evolve_def lookup_run_def)

lemma run_moves_terminal: "run_moves\<^sup>*\<^sup>* s t \<Longrightarrow> is_terminal s \<Longrightarrow> t = s"
  by (induction rule: converse_rtranclp_induct) (auto simp: run_moves_def is_terminal_iff)

lemma run_evolves_terminal: "run_evolves r r' \<Longrightarrow> is_terminal (status r) \<Longrightarrow> status r' = status r"
  using run_moves_terminal by (auto simp: run_evolves_def)

lemma runs_evolve_update:
  assumes "lookup_run w rid = Some r" and "run_evolves r (f r)" and "\<And>x. run_id (f x) = run_id x"
    and "runs_tbl w' = tupdate run_id rid f (runs_tbl w)"
  shows "runs_evolve w w'"
proof -
  have "lookup_run w' = (lookup_run w)(rid \<mapsto> f r)"
    using assms by (auto simp: lookup_run_def fun_eq_iff tfind_tupdate)
  then show ?thesis using assms(1,2) by (simp add: runs_evolve_def)
qed

lemma runs_wf_update:
  "runs_wf w \<Longrightarrow> (\<And>x. run_id (f x) = run_id x) \<Longrightarrow> (\<And>x. thread_id (f x) = thread_id x) \<Longrightarrow>
   runs_wf (w'\<lparr>runs_tbl := tupdate run_id rid f (runs_tbl w)\<rparr>)"
  by (auto simp: runs_wf_def tupdate_keys dest!: set_tupdateD)

subsection \<open>Frames and guarantees of the operations\<close>

lemma runs_get_guar [guar_rules]: "guar only_runs (runs_get rid)" "guar runs_evolve (runs_get rid)"
  by (auto simp: guar_def runs_get_eq runs_only.rel_refl evolving.rel_refl split: option.splits)

lemma set_status_only_runs [guar_rules]: "guar only_runs (set_status rid t p f d)"
  by (auto simp: guar_def set_status_eq only_runs_def Let_def split: option.splits sum.splits)

lemma request_cancel_only_runs [guar_rules]: "guar only_runs (request_cancel rid)"
  by (auto simp: guar_def request_cancel_eq only_runs_def Let_def split: option.splits)

lemma bump_counters_only_runs [guar_rules]: "guar only_runs (bump_counters rid a b)"
  by (auto simp: guar_def bump_counters_eq only_runs_def Let_def split: option.splits)

lemma set_status_evolve [guar_rules]: "guar runs_evolve (set_status rid t p f d)"
proof (rule guarI)
  fix w
  show "runs_evolve w (snd (set_status rid t p f d w))"
  proof (cases "lookup_run w rid")
    case None
    then show ?thesis by (simp add: set_status_eq evolving.rel_refl)
  next
    case (Some r)
    show ?thesis
    proof (cases "transition_run (status r) t")
      case (Inl e)
      with Some show ?thesis by (simp add: set_status_eq evolving.rel_refl)
    next
      case (Inr u)
      then have move: "run_moves (status r) t" by (simp add: run_moves_def run_cycle.step_Inr_iff)
      show ?thesis
        by (rule runs_evolve_update [OF Some, where f = "write_status t p f d (clock w (clock_reads w))"])
          (use Some Inr move in \<open>auto simp: set_status_eq Let_def run_evolves_def\<close>)
    qed
  qed
qed

lemma request_cancel_evolve [guar_rules]: "guar runs_evolve (request_cancel rid)"
proof (rule guarI)
  fix w
  show "runs_evolve w (snd (request_cancel rid w))"
  proof (cases "lookup_run w rid")
    case None
    then show ?thesis by (simp add: request_cancel_eq evolving.rel_refl)
  next
    case (Some r)
    show ?thesis
      by (rule runs_evolve_update [OF Some,
            where f = "\<lambda>r. r\<lparr>cancel_requested := True, updated_at := clock w (clock_reads w)\<rparr>"])
        (use Some in \<open>auto simp: request_cancel_eq Let_def run_evolves_def\<close>)
  qed
qed

lemma bump_counters_evolve [guar_rules]:
  assumes "0 \<le> a" "0 \<le> b"
  shows "guar runs_evolve (bump_counters rid a b)"
proof (rule guarI)
  fix w
  show "runs_evolve w (snd (bump_counters rid a b w))"
  proof (cases "lookup_run w rid")
    case None
    then have "tupdate run_id rid (add_counts a b (clock w (clock_reads w))) (runs_tbl w) = runs_tbl w"
      by (simp add: lookup_run_def tupdate_absent)
    with None show ?thesis by (auto simp: bump_counters_eq Let_def intro: runs_evolve_same)
  next
    case (Some r)
    show ?thesis
      by (rule runs_evolve_update [OF Some, where f = "add_counts a b (clock w (clock_reads w))"])
        (use Some assms in \<open>auto simp: bump_counters_eq Let_def run_evolves_def\<close>)
  qed
qed

lemma set_status_wf [guar_rules]: "guar (\<lambda>w w'. runs_wf w \<longrightarrow> runs_wf w') (set_status rid t p f d)"
  by (auto simp: guar_def set_status_eq Let_def intro!: runs_wf_update split: option.splits sum.splits)

lemma request_cancel_wf [guar_rules]: "guar (\<lambda>w w'. runs_wf w \<longrightarrow> runs_wf w') (request_cancel rid)"
  by (auto simp: guar_def request_cancel_eq Let_def intro!: runs_wf_update split: option.splits)

lemma bump_counters_wf [guar_rules]: "guar (\<lambda>w w'. runs_wf w \<longrightarrow> runs_wf w') (bump_counters rid a b)"
  by (auto simp: guar_def bump_counters_eq Let_def intro!: runs_wf_update split: option.splits)

section \<open>Properties\<close>

text \<open>
  Setting a status: it succeeds exactly when the run exists and the table allows the
  move, it then changes that run and nothing else in the database (the pause reason is
  replaced, a failure reason already recorded is kept), and a refused move writes nothing.
\<close>

theorem set_status_spec:
  "case set_status rid target pr fr fd w of
     (Inl e, w') \<Rightarrow> w' = w \<and>
       (lookup_run w rid = None \<and> exc_class_of e = RunNotFound
        \<or> (\<exists>r. lookup_run w rid = Some r \<and> target \<notin> ALLOWED_RUN_TRANSITIONS (status r)
             \<and> exc_class_of e = InvalidStateTransition))
   | (Inr r', w') \<Rightarrow> \<exists>r. lookup_run w rid = Some r \<and> target \<in> ALLOWED_RUN_TRANSITIONS (status r)
       \<and> lookup_run w' = (lookup_run w)(rid \<mapsto> r') \<and> only_runs w w' \<and> run_evolves r r'
       \<and> status r' = target \<and> pause_reason r' = pr
       \<and> failure_reason r' = (if fr = None then failure_reason r else fr)
       \<and> failure_detail r' = (if fd = None then failure_detail r else fd)
       \<and> step_count r' = step_count r \<and> tool_call_count r' = tool_call_count r"
proof (cases "lookup_run w rid")
  case None
  then show ?thesis by (simp add: set_status_eq run_not_found_def)
next
  case (Some r)
  show ?thesis
  proof (cases "target \<in> ALLOWED_RUN_TRANSITIONS (status r)")
    case False
    with Some show ?thesis by (auto simp: set_status_eq transition_run_def)
  next
    case True
    have "run_moves\<^sup>*\<^sup>* (status r) target" using True by (auto simp: run_moves_def)
    with Some True show ?thesis
      by (auto simp: set_status_eq transition_run_def Let_def only_runs_def run_evolves_def fun_eq_iff
          lookup_run_def tfind_tupdate coalesce_def split: option.splits)
  qed
qed

section \<open>A state to evaluate on\<close>

text \<open>One running run in an otherwise empty database, for the concrete instances of properties.\<close>

definition sample_run :: run where
  "sample_run = (new_run ''r1'' ''emp-001'' 50 50 0)\<lparr>status := RRunning\<rparr>"

definition sample_world :: world where
  "sample_world = (empty_world (\<lambda>n. n) (\<lambda>n. ''0123456789abcdef''))\<lparr>runs_tbl := [sample_run]\<rparr>"

lemma sample_world_simps [simp]:
  "runs_tbl sample_world = [sample_run]" "trace_tbl sample_world = []" "trace_seq sample_world = 0"
  "effects_tbl sample_world = []" "provider_tbl sample_world = []" "iam sample_world = no_faults"
  "paperwork_failures sample_world = 0" "run_id sample_run = ''r1''" "status sample_run = RRunning"
  by (simp_all add: sample_world_def empty_world_def sample_run_def)

lemma sample_run_found [simp]: "lookup_run sample_world ''r1'' = Some sample_run"
  by (simp add: lookup_run_def tfind_Cons)

lemma sample_runs_wf [simp]: "runs_wf sample_world"
  by (simp add: runs_wf_def sample_run_def)

end
