(* ===== verification/Trace.thy ===== *)
theory Trace
  imports Runs
begin

text \<open>
  \<open>persistence/trace.py\<close>: the append-only trace.  Opening an attempt appends a row numbered
  after the latest attempt at the step; closing one rewrites that row's outcome columns.  The
  invariant \<open>trace_wf\<close> says what a reader of the trace may rely on, the relation
  \<open>trace_extends\<close> what "append-only" means here.
\<close>

section \<open>Operations\<close>

definition history :: "world \<Rightarrow> string \<Rightarrow> string \<Rightarrow> step_attempt list" where
  "history w rid sname = filter (\<lambda>r. att_run r = rid \<and> att_step r = sname) (trace_tbl w)"

text \<open>\<open>ORDER BY attempt DESC LIMIT 1\<close>.\<close>

fun latest_row :: "step_attempt list \<Rightarrow> step_attempt option" where
  "latest_row [] = None"
| "latest_row (r # rs) =
     (case latest_row rs of None \<Rightarrow> Some r | Some m \<Rightarrow> Some (if attempt r \<le> attempt m then m else r))"

definition latest_for_step :: "string \<Rightarrow> string \<Rightarrow> step_attempt option py" where
  "latest_for_step rid sname = gets (\<lambda>w. latest_row (history w rid sname))"

definition trace_get :: "nat \<Rightarrow> step_attempt py" where
  "trace_get aid = mbind (gets (\<lambda>w. tfind att_id aid (trace_tbl w)))
     (\<lambda>row. case row of
        None \<Rightarrow> raise (Exc KeyError (''no step attempt with id '' @ show_int (int aid)))
      | Some r \<Rightarrow> ret r)"

definition new_attempt :: "nat \<Rightarrow> string \<Rightarrow> string \<Rightarrow> nat \<Rightarrow> string option \<Rightarrow> ts \<Rightarrow> step_attempt" where
  "new_attempt aid rid sname n tool t = \<lparr>att_id = aid, att_run = rid, att_step = sname, attempt = n,
     att_status = SRunning, started_at = t, ended_at = None, tool_invoked = tool, att_pause = None,
     error_type = None, error_message = None, detail = PDict []\<rparr>"

text \<open>\<open>INSERT INTO step_trace\<close>: the id is the next one ever, the run must exist (foreign key).\<close>

definition insert_attempt :: "string \<Rightarrow> string \<Rightarrow> nat \<Rightarrow> string option \<Rightarrow> ts \<Rightarrow> nat py" where
  "insert_attempt rid sname n tool t = (\<lambda>w.
     if tfind run_id rid (runs_tbl w) = None
     then (Inl (Exc IntegrityError ''FOREIGN KEY constraint failed''), w)
     else (Inr (Suc (trace_seq w)),
           w\<lparr>trace_seq := Suc (trace_seq w),
             trace_tbl := trace_tbl w @ [new_attempt (Suc (trace_seq w)) rid sname n tool t]\<rparr>))"

definition start_attempt :: "string \<Rightarrow> string \<Rightarrow> string option \<Rightarrow> step_attempt py" where
  "start_attempt rid sname tool =
     mbind (immediate (
       mbind (gets (\<lambda>w. latest_row (history w rid sname))) (\<lambda>row.
       mbind (case row of
           None \<Rightarrow> ret 1
         | Some r \<Rightarrow> mseq (lift_sum (transition_step (att_status r) SRunning)) (ret (attempt r + 1))) (\<lambda>n.
       mbind now (\<lambda>t. insert_attempt rid sname n tool t)))))
     trace_get"

definition close_row ::
  "step_status \<Rightarrow> pause_reason option \<Rightarrow> string option \<Rightarrow> string option \<Rightarrow> pyval option \<Rightarrow>
   string option \<Rightarrow> ts \<Rightarrow> step_attempt \<Rightarrow> step_attempt" where
  "close_row target pr et em det tool t r = r\<lparr>att_status := target, att_pause := pr,
     error_type := et, error_message := em,
     detail := (case det of None \<Rightarrow> detail r | Some d \<Rightarrow> json_roundtrip d),
     tool_invoked := coalesce tool (tool_invoked r), ended_at := Some t\<rparr>"

definition close_attempt ::
  "nat \<Rightarrow> step_status \<Rightarrow> pause_reason option \<Rightarrow> string option \<Rightarrow> string option \<Rightarrow> pyval option \<Rightarrow>
   string option \<Rightarrow> step_attempt py" where
  "close_attempt aid target pr et em det tool =
     mseq (immediate (
       mbind (gets (\<lambda>w. tfind att_id aid (trace_tbl w))) (\<lambda>row. case row of
         None \<Rightarrow> raise (Exc KeyError (''no step attempt with id '' @ show_int (int aid)))
       | Some r \<Rightarrow>
           mseq (lift_sum (transition_step (att_status r) target))
           (mbind now (\<lambda>t. modify (\<lambda>w. w\<lparr>trace_tbl :=
              tupdate att_id aid (close_row target pr et em det tool t) (trace_tbl w)\<rparr>))))))
     (trace_get aid)"

definition complete_attempt :: "nat \<Rightarrow> pyval option \<Rightarrow> string option \<Rightarrow> step_attempt py" where
  "complete_attempt aid det tool = close_attempt aid SCompleted None None None det tool"

definition fail_attempt :: "nat \<Rightarrow> string \<Rightarrow> string \<Rightarrow> pyval option \<Rightarrow> step_attempt py" where
  "fail_attempt aid et em det = close_attempt aid SFailed None (Some et) (Some em) det None"

definition pause_attempt :: "nat \<Rightarrow> pause_reason \<Rightarrow> pyval option \<Rightarrow> step_attempt py" where
  "pause_attempt aid pr det = close_attempt aid SPaused (Some pr) None None det None"

definition trace_list_for_run :: "string \<Rightarrow> step_attempt list py" where
  "trace_list_for_run rid =
     gets (\<lambda>w. sort_key att_id (filter (\<lambda>r. att_run r = rid) (trace_tbl w)))"

section \<open>What the trace guarantees\<close>

text \<open>
  Ids grow along the table; the attempts at one step of one run are numbered \<open>1, 2, \<dots>\<close>
  without a gap; no row is \<open>pending\<close> or \<open>skipped\<close>.
\<close>

fun numbered :: "nat \<Rightarrow> step_attempt list \<Rightarrow> bool" where
  "numbered n [] = True"
| "numbered n (r # rs) = (attempt r = n \<and> numbered (Suc n) rs)"

definition trace_wf :: "world \<Rightarrow> bool" where
  "trace_wf w \<longleftrightarrow> sorted_wrt (<) (map att_id (trace_tbl w))
   \<and> (\<forall>r \<in> set (trace_tbl w). att_id r \<le> trace_seq w \<and> att_status r \<notin> {SPending, SSkipped})
   \<and> (\<forall>rid sname. numbered 1 (history w rid sname))"

text \<open>
  A row keeps its identity; a completed or failed row is final; an open one may be closed.
\<close>

definition row_evolves :: "step_attempt \<Rightarrow> step_attempt \<Rightarrow> bool" where
  "row_evolves r r' \<longleftrightarrow> att_id r' = att_id r \<and> att_run r' = att_run r \<and> att_step r' = att_step r
     \<and> attempt r' = attempt r \<and> started_at r' = started_at r
     \<and> (att_status r \<in> {SCompleted, SFailed} \<longrightarrow> r' = r)"

definition trace_extends :: "world \<Rightarrow> world \<Rightarrow> bool" where
  "trace_extends w w' \<longleftrightarrow> (\<exists>old new. trace_tbl w' = old @ new \<and> list_all2 row_evolves (trace_tbl w) old)"

definition only_trace :: "world \<Rightarrow> world \<Rightarrow> bool" where
  "only_trace w w' \<longleftrightarrow> runs_tbl w' = runs_tbl w \<and> effects_tbl w' = effects_tbl w
     \<and> provider_tbl w' = provider_tbl w \<and> iam w' = iam w \<and> paperwork_failures w' = paperwork_failures w
     \<and> clock w' = clock w \<and> uuids w' = uuids w"

lemma trace_extendsI:
  "trace_tbl w' = old @ new \<Longrightarrow> list_all2 row_evolves (trace_tbl w) old \<Longrightarrow> trace_extends w w'"
  by (auto simp: trace_extends_def)

lemma row_evolves_refl [simp]: "row_evolves r r"
  by (simp add: row_evolves_def)

lemma row_evolves_trans: "row_evolves r s \<Longrightarrow> row_evolves s t \<Longrightarrow> row_evolves r t"
  by (auto simp: row_evolves_def)

interpretation extending: guarantee trace_extends
proof unfold_locales
  show "trace_extends w w" for w
    unfolding trace_extends_def by (rule exI [of _ "trace_tbl w"]) (simp add: list_all2_refl)
  show "trace_extends u w" if uv: "trace_extends u v" and vw: "trace_extends v w" for u v w
  proof -
    from uv obtain a b where v: "trace_tbl v = a @ b" and a: "list_all2 row_evolves (trace_tbl u) a"
      by (auto simp: trace_extends_def)
    from vw v obtain c d where w: "trace_tbl w = c @ d" and c: "list_all2 row_evolves (a @ b) c"
      by (auto simp: trace_extends_def)
    from c obtain c1 c2 where "c = c1 @ c2" "list_all2 row_evolves a c1"
      by (auto simp: list_all2_append1)
    moreover have "list_all2 row_evolves (trace_tbl u) c1"
      using list_all2_trans [of row_evolves row_evolves row_evolves] row_evolves_trans a calculation(2)
      by blast
    ultimately show ?thesis using w unfolding trace_extends_def by auto
  qed
qed

interpretation trace_only: guarantee only_trace
  by unfold_locales (auto simp: only_trace_def)

text \<open>Well-formedness is kept and the table only extended: what every operation guarantees.\<close>

definition trace_safe :: "world \<Rightarrow> world \<Rightarrow> bool" where
  "trace_safe w w' \<longleftrightarrow> (trace_wf w \<longrightarrow> trace_wf w' \<and> trace_extends w w')"

interpretation trace_keeping: guarantee trace_safe
  by unfold_locales (auto simp: trace_safe_def intro: extending.rel_refl extending.rel_trans)

lemma trace_extends_same: "trace_tbl w' = trace_tbl w \<Longrightarrow> trace_extends w w'"
  using extending.rel_refl by (auto simp: trace_extends_def)

lemma history_cong: "trace_tbl w' = trace_tbl w \<Longrightarrow> history w' rid s = history w rid s"
  by (simp add: history_def)

lemma trace_wf_cong: "trace_tbl w' = trace_tbl w \<Longrightarrow> trace_seq w' = trace_seq w \<Longrightarrow> trace_wf w' = trace_wf w"
  by (simp add: trace_wf_def history_def)

lemma history_frame [simp]:
  "history (w\<lparr>runs_tbl := x0\<rparr>) r s = history w r s"
  "history (w\<lparr>trace_seq := x2\<rparr>) r s = history w r s"
  "history (w\<lparr>effects_tbl := x3\<rparr>) r s = history w r s"
  "history (w\<lparr>provider_tbl := x4\<rparr>) r s = history w r s"
  "history (w\<lparr>clock_reads := x5\<rparr>) r s = history w r s"
  "history (w\<lparr>uuid_reads := x6\<rparr>) r s = history w r s"
  "history (w\<lparr>iam := x7\<rparr>) r s = history w r s"
  "history (w\<lparr>paperwork_failures := x8\<rparr>) r s = history w r s"
  by (simp_all add: history_def)

lemma trace_wf_frame [simp]:
  "trace_wf (w\<lparr>runs_tbl := x0\<rparr>) = trace_wf w"
  "trace_wf (w\<lparr>effects_tbl := x3\<rparr>) = trace_wf w"
  "trace_wf (w\<lparr>provider_tbl := x4\<rparr>) = trace_wf w"
  "trace_wf (w\<lparr>clock_reads := x5\<rparr>) = trace_wf w"
  "trace_wf (w\<lparr>uuid_reads := x6\<rparr>) = trace_wf w"
  "trace_wf (w\<lparr>iam := x7\<rparr>) = trace_wf w"
  "trace_wf (w\<lparr>paperwork_failures := x8\<rparr>) = trace_wf w"
  by (simp_all add: trace_wf_def history_def)

lemma new_attempt_simps [simp]:
  "att_id (new_attempt i rid s n tool t) = i" "att_run (new_attempt i rid s n tool t) = rid"
  "att_step (new_attempt i rid s n tool t) = s" "attempt (new_attempt i rid s n tool t) = n"
  "att_status (new_attempt i rid s n tool t) = SRunning"
  "tool_invoked (new_attempt i rid s n tool t) = tool"
  "detail (new_attempt i rid s n tool t) = PDict []"
  by (simp_all add: new_attempt_def)

lemma close_row_simps [simp]:
  "att_id (close_row st p et em d tool t r) = att_id r"
  "att_run (close_row st p et em d tool t r) = att_run r"
  "att_step (close_row st p et em d tool t r) = att_step r"
  "attempt (close_row st p et em d tool t r) = attempt r"
  "started_at (close_row st p et em d tool t r) = started_at r"
  "att_status (close_row st p et em d tool t r) = st"
  "att_pause (close_row st p et em d tool t r) = p"
  "error_type (close_row st p et em d tool t r) = et"
  "error_message (close_row st p et em d tool t r) = em"
  "detail (close_row st p et em d tool t r) = (case d of None \<Rightarrow> detail r | Some d \<Rightarrow> json_roundtrip d)"
  "tool_invoked (close_row st p et em d tool t r) = coalesce tool (tool_invoked r)"
  by (simp_all add: close_row_def)

subsection \<open>The latest attempt\<close>

lemma numbered_append: "numbered n (xs @ ys) \<longleftrightarrow> numbered n xs \<and> numbered (n + length xs) ys"
  by (induction xs arbitrary: n) auto

lemma numbered_upt: "numbered n rs \<Longrightarrow> map attempt rs = [n..<n + length rs]"
  by (induction rs arbitrary: n) (auto simp: upt_conv_Cons simp del: upt_Suc)

lemma numbered_tupdate: "(\<And>r. attempt (f r) = attempt r) \<Longrightarrow>
    numbered n (tupdate key k f rs) \<longleftrightarrow> numbered n rs"
  by (induction rs arbitrary: n) (auto simp: tupdate_Cons)

lemma numbered_last: "numbered n rs \<Longrightarrow> rs \<noteq> [] \<Longrightarrow> attempt (last rs) = n + length rs - 1"
  by (induction rs arbitrary: n) auto

lemma latest_row_numbered:
  "numbered n rs \<Longrightarrow> latest_row rs = (if rs = [] then None else Some (last rs))"
proof (induction rs arbitrary: n)
  case (Cons r rs)
  then have nums: "numbered (Suc n) rs" and r: "attempt r = n" by auto
  show ?case using Cons.IH [OF nums] numbered_last [OF nums] r by auto
qed simp

lemma latest_row_wf:
  "trace_wf w \<Longrightarrow> latest_row (history w rid s) =
    (if history w rid s = [] then None else Some (last (history w rid s)))"
  by (rule latest_row_numbered [where n = 1]) (simp add: trace_wf_def)

lemma history_last_attempt:
  "trace_wf w \<Longrightarrow> history w rid s \<noteq> [] \<Longrightarrow> attempt (last (history w rid s)) = length (history w rid s)"
  using numbered_last [of 1 "history w rid s"] by (simp add: trace_wf_def)

lemma history_member: "r \<in> set (history w rid s) \<Longrightarrow> r \<in> set (trace_tbl w) \<and> att_run r = rid \<and> att_step r = s"
  by (auto simp: history_def)

lemma history_snoc: "history (w\<lparr>trace_tbl := trace_tbl w @ [r]\<rparr>) rid s =
    history w rid s @ (if att_run r = rid \<and> att_step r = s then [r] else [])"
  by (simp add: history_def)

lemma history_update:
  "(\<And>r. att_run (f r) = att_run r) \<Longrightarrow> (\<And>r. att_step (f r) = att_step r) \<Longrightarrow>
   history (w\<lparr>trace_tbl := tupdate att_id aid f (trace_tbl w)\<rparr>) rid s = tupdate att_id aid f (history w rid s)"
  by (simp add: history_def filter_tupdate)

lemma trace_get_eq: "trace_get aid w =
    (case tfind att_id aid (trace_tbl w) of
       None \<Rightarrow> (Inl (Exc KeyError (''no step attempt with id '' @ show_int (int aid))), w)
     | Some r \<Rightarrow> (Inr r, w))"
  by (simp add: trace_get_def mbind_apply split: option.splits)

lemma trace_find_new:
  "trace_wf w \<Longrightarrow> tfind att_id (Suc (trace_seq w)) (trace_tbl w) = None"
  by (fastforce simp: trace_wf_def tfind_None_iff)

subsection \<open>The operations in one equation\<close>

lemma history_last_status:
  assumes "trace_wf w" and "history w rid s \<noteq> []"
  shows "transition_step (att_status (last (history w rid s))) SRunning = Inr SRunning"
proof -
  have "last (history w rid s) \<in> set (trace_tbl w)"
    using assms(2) last_in_set history_member by blast
  then have "att_status (last (history w rid s)) \<noteq> SSkipped"
    using assms(1) by (auto simp: trace_wf_def)
  then show ?thesis by (rule transition_step_running)
qed

text \<open>
  Over a well-formed trace a new attempt at a step of a known run always opens, as number
  one more than the attempts so far; for an unknown run the foreign key refuses it.
\<close>

lemma start_attempt_eq:
  assumes wf: "trace_wf w"
  shows "start_attempt rid s tool w =
    (if lookup_run w rid = None
     then (Inl (Exc IntegrityError ''FOREIGN KEY constraint failed''), w\<lparr>clock_reads := Suc (clock_reads w)\<rparr>)
     else (let row = new_attempt (Suc (trace_seq w)) rid s (Suc (length (history w rid s))) tool
                       (clock w (clock_reads w))
           in (Inr row, w\<lparr>clock_reads := Suc (clock_reads w), trace_seq := Suc (trace_seq w),
                         trace_tbl := trace_tbl w @ [row]\<rparr>)))"
proof (cases "history w rid s = []")
  case True
  then show ?thesis using trace_find_new [OF wf]
    by (simp add: start_attempt_def eff_apply immediate_apply latest_row_wf [OF wf] insert_attempt_def
        lookup_run_def rollback_def trace_get_eq tfind_append tfind_Cons Let_def)
next
  case False
  then show ?thesis using trace_find_new [OF wf] history_last_status [OF wf False] history_last_attempt [OF wf False]
    by (simp add: start_attempt_def eff_apply immediate_apply latest_row_wf [OF wf] insert_attempt_def
        lookup_run_def rollback_def trace_get_eq tfind_append tfind_Cons Let_def)
qed

lemma close_attempt_eq: "close_attempt aid target pr et em det tool w =
    (case tfind att_id aid (trace_tbl w) of
       None \<Rightarrow> (Inl (Exc KeyError (''no step attempt with id '' @ show_int (int aid))), w)
     | Some r \<Rightarrow> (case transition_step (att_status r) target of
         Inl e \<Rightarrow> (Inl e, w)
       | Inr _ \<Rightarrow> (let t = clock w (clock_reads w) in
           (Inr (close_row target pr et em det tool t r),
            w\<lparr>clock_reads := Suc (clock_reads w),
              trace_tbl := tupdate att_id aid (close_row target pr et em det tool t) (trace_tbl w)\<rparr>))))"
  by (auto simp: close_attempt_def eff_apply immediate_apply trace_get_eq tfind_tupdate Let_def
      split: option.splits sum.splits)

lemmas close_defs = complete_attempt_def fail_attempt_def pause_attempt_def

subsection \<open>Frames and guarantees of the operations\<close>

lemma start_attempt_result:
  "\<exists>w'. snd (start_attempt rid s tool w) = w' \<and> only_trace w w' \<and>
     (trace_tbl w' = trace_tbl w \<and> trace_seq w' = trace_seq w
      \<or> (\<exists>n t. trace_seq w' = Suc (trace_seq w) \<and>
            trace_tbl w' = trace_tbl w @ [new_attempt (Suc (trace_seq w)) rid s n tool t]))"
  by (fastforce simp: start_attempt_def eff_apply immediate_apply insert_attempt_def rollback_def
      only_trace_def trace_get_eq split: option.splits sum.splits)

lemma start_attempt_only_trace [guar_rules]: "guar only_trace (start_attempt rid s tool)"
  using start_attempt_result by (fastforce simp: guar_def)

lemma start_attempt_wf:
  assumes wf: "trace_wf w"
  shows "trace_wf (snd (start_attempt rid s tool w))"
  proof (cases "lookup_run w rid = None")
    case True
    then show ?thesis using wf by (simp add: start_attempt_eq [OF wf] trace_wf_def history_def)
  next
    case False
    let ?row = "new_attempt (Suc (trace_seq w)) rid s (Suc (length (history w rid s))) tool (clock w (clock_reads w))"
    let ?w = "w\<lparr>clock_reads := Suc (clock_reads w), trace_seq := Suc (trace_seq w), trace_tbl := trace_tbl w @ [?row]\<rparr>"
    have hist: "history ?w r s' = history w r s' @ (if r = rid \<and> s' = s then [?row] else [])" for r s'
      by (auto simp: history_def)
    have "trace_wf ?w"
      using wf unfolding trace_wf_def hist
      by (auto simp: sorted_wrt_append numbered_append less_Suc_eq_le le_SucI)
    then show ?thesis using False by (auto simp: start_attempt_eq [OF wf] Let_def)
  qed

lemma close_attempt_only_trace [guar_rules]: "guar only_trace (close_attempt aid st p et em d tool)"
  by (auto simp: guar_def close_attempt_eq only_trace_def Let_def split: option.splits sum.splits)

lemma start_attempt_safe [guar_rules]: "guar trace_safe (start_attempt rid s tool)"
proof (rule guarI)
  fix w
  have "trace_extends w (snd (start_attempt rid s tool w))"
    using start_attempt_result [of rid s tool w] extending.rel_refl [of w]
    by (fastforce simp: trace_extends_def list_all2_same)
  then show "trace_safe w (snd (start_attempt rid s tool w))"
    by (simp add: trace_safe_def start_attempt_wf)
qed

lemma transition_step_closing:
  "transition_step s t = Inr u \<Longrightarrow> t \<noteq> SRunning \<Longrightarrow> s \<notin> {SCompleted, SFailed}"
  by (auto simp: step_cycle.step_Inr_iff)

lemma trace_wf_find: "trace_wf w \<Longrightarrow> r \<in> set (trace_tbl w) \<Longrightarrow> tfind att_id (att_id r) (trace_tbl w) = Some r"
  by (rule tfind_unique) (auto simp: trace_wf_def strict_sorted_iff)

lemma close_row_safe:
  assumes wf: "trace_wf w" and r: "tfind att_id aid (trace_tbl w) = Some r"
    and ok: "transition_step (att_status r) st = Inr u" and st: "st \<notin> {SRunning, SPending, SSkipped}"
  shows "trace_safe w (w\<lparr>clock_reads := n, trace_tbl :=
    tupdate att_id aid (close_row st p et em d tool t) (trace_tbl w)\<rparr>)" (is "trace_safe w ?w")
proof -
  have "row_evolves x (if att_id x = aid then close_row st p et em d tool t x else x)"
    if "x \<in> set (trace_tbl w)" for x
  proof -
    have "x = r" if "att_id x = aid" using trace_wf_find [OF wf \<open>x \<in> set (trace_tbl w)\<close>] r that by simp
    then show ?thesis using transition_step_closing [OF ok] st by (auto simp: row_evolves_def)
  qed
  then have "trace_extends w ?w"
    by (intro trace_extendsI [where new = "[]" and old = "trace_tbl ?w"])
      (simp_all add: tupdate_def list_all2_map2 list_all2_same)
  moreover have "trace_wf ?w"
    using wf st unfolding trace_wf_def history_def
    by (auto simp: tupdate_keys filter_tupdate numbered_tupdate dest!: set_tupdateD)
  ultimately show ?thesis by (simp add: trace_safe_def)
qed

lemma close_attempt_safe [guar_rules]:
  assumes "st \<notin> {SRunning, SPending, SSkipped}"
  shows "guar trace_safe (close_attempt aid st p et em d tool)"
proof (rule guarI)
  fix w
  show "trace_safe w (snd (close_attempt aid st p et em d tool w))"
  proof (cases "trace_wf w")
    case True
    then show ?thesis
      using close_row_safe [OF True _ _ assms] trace_keeping.rel_refl [of w]
      by (auto simp: close_attempt_eq Let_def split: option.splits sum.splits)
  qed (simp add: trace_safe_def)
qed

lemma closers_safe [guar_rules]:
  "guar trace_safe (complete_attempt aid d tool)" "guar trace_safe (fail_attempt aid et em d)"
  "guar trace_safe (pause_attempt aid pr d)"
  by (simp_all add: close_defs close_attempt_safe)

lemma closers_only_trace [guar_rules]:
  "guar only_trace (complete_attempt aid d tool)" "guar only_trace (fail_attempt aid et em d)"
  "guar only_trace (pause_attempt aid pr d)"
  by (simp_all add: close_defs close_attempt_only_trace)

section \<open>Properties\<close>

text \<open>
  Attempts at a step are numbered without a gap and nothing in the trace is overwritten:
  opening one attempt over a well-formed trace appends a single running row whose number is
  one more than the attempts so far at that step of that run, and keeps every row there was.
\<close>

theorem start_attempt_numbers:
  assumes wf: "trace_wf w" and run: "lookup_run w rid \<noteq> None"
  shows "\<exists>row w'. start_attempt rid s tool w = (Inr row, w')
    \<and> trace_tbl w' = trace_tbl w @ [row] \<and> att_status row = SRunning
    \<and> map attempt (history w' rid s) = [1..<length (history w rid s) + 2]
    \<and> attempt row = length (history w rid s) + 1 \<and> trace_wf w'"
proof -
  obtain row w' where run: "start_attempt rid s tool w = (Inr row, w')"
    and tbl: "trace_tbl w' = trace_tbl w @ [row]" and row: "att_run row = rid" "att_step row = s"
      "att_status row = SRunning" "attempt row = length (history w rid s) + 1"
    using run by (simp add: start_attempt_eq [OF wf] Let_def)
  have wf': "trace_wf w'" using start_attempt_wf [OF wf, of rid s tool] run by simp
  have "history w' rid s = history w rid s @ [row]" using tbl row by (simp add: history_def)
  moreover have "map attempt (history w' rid s) = [1..<1 + length (history w' rid s)]"
    using wf' by (intro numbered_upt) (simp add: trace_wf_def)
  ultimately show ?thesis using run tbl row wf' by auto
qed

lemma sample_trace_wf [simp]: "trace_wf sample_world"
  by (simp add: trace_wf_def history_def)

theorem start_attempt_numbers_witness:
  "\<exists>row w'. start_attempt ''r1'' ''finalize'' None sample_world = (Inr row, w')
    \<and> trace_tbl w' = [row] \<and> attempt row = 1 \<and> trace_wf w'"
  using start_attempt_numbers [of sample_world "''r1''" "''finalize''" None] by (auto simp: history_def)

text \<open>
  The trace is append-only: whatever the arguments, closing an attempt of a well-formed
  trace (completed, failed or paused) keeps it well-formed, keeps every row's identity, and
  never touches a row already completed or failed; the rest of the database is untouched.
\<close>

theorem closing_never_rewrites:
  assumes wf: "trace_wf w" and st: "st \<in> {SCompleted, SFailed, SPaused}"
  shows "case close_attempt aid st pr et em det tool w of (r, w') \<Rightarrow>
    trace_wf w' \<and> trace_extends w w' \<and> only_trace w w' \<and> length (trace_tbl w') = length (trace_tbl w)
    \<and> ((\<exists>e. r = Inl e) \<longrightarrow> w' = w)"
proof -
  have "guar trace_safe (close_attempt aid st pr et em det tool)"
    using st by (intro close_attempt_safe) auto
  then have "trace_safe w (snd (close_attempt aid st pr et em det tool w))" by (rule guarD)
  moreover have "only_trace w (snd (close_attempt aid st pr et em det tool w))"
    using close_attempt_only_trace by (rule guarD)
  moreover have "length (trace_tbl (snd (close_attempt aid st pr et em det tool w))) = length (trace_tbl w)"
    by (auto simp: close_attempt_eq Let_def split: option.splits sum.splits)
  moreover have "(\<exists>e. fst (close_attempt aid st pr et em det tool w) = Inl e) \<longrightarrow>
      snd (close_attempt aid st pr et em det tool w) = w"
    by (auto simp: close_attempt_eq Let_def split: option.splits sum.splits)
  ultimately show ?thesis using wf by (auto simp: trace_safe_def split: prod.splits)
qed

theorem closing_never_rewrites_witness:
  "case close_attempt 1 SCompleted None None None None None
      (snd (start_attempt ''r1'' ''finalize'' None sample_world)) of (r, w') \<Rightarrow>
    trace_wf w' \<and> length (trace_tbl w') = 1"
proof -
  let ?w = "snd (start_attempt ''r1'' ''finalize'' None sample_world)"
  have wf: "trace_wf ?w" by (simp add: start_attempt_wf)
  have "length (trace_tbl ?w) = 1" by (simp add: start_attempt_eq Let_def)
  then show ?thesis
    using closing_never_rewrites [OF wf, of SCompleted 1 None None None None None]
    by (auto split: prod.splits)
qed

section \<open>Opening and closing in a row\<close>

text \<open>What a caller that opens an attempt, works outside the trace and closes it leaves behind.\<close>

lemma start_attempt_opens:
  assumes wf: "trace_wf w" and run: "lookup_run w rid \<noteq> None"
  obtains row w' where "start_attempt rid s tool w = (Inr row, w')" "trace_tbl w' = trace_tbl w @ [row]"
    "att_run row = rid" "att_step row = s" "att_status row = SRunning" "tool_invoked row = tool"
    "attempt row = Suc (length (history w rid s))" "detail row = PDict []" "trace_wf w'" "only_trace w w'"
    "uuid_reads w' = uuid_reads w" "trace_seq w' = Suc (trace_seq w)"
proof -
  obtain row w' where eq: "start_attempt rid s tool w = (Inr row, w')" "trace_tbl w' = trace_tbl w @ [row]"
      "att_run row = rid" "att_step row = s" "att_status row = SRunning" "tool_invoked row = tool"
      "attempt row = Suc (length (history w rid s))" "detail row = PDict []" "uuid_reads w' = uuid_reads w"
      "trace_seq w' = Suc (trace_seq w)"
    using run by (simp add: start_attempt_eq [OF wf] Let_def)
  have "only_trace w w'" using guarD' [OF start_attempt_only_trace eq(1)] .
  moreover have "trace_wf w'" using start_attempt_wf [OF wf, of rid s tool] eq(1) by simp
  ultimately show ?thesis using eq by (intro that)
qed

lemma close_last_row_eq:
  assumes wf: "trace_wf w" and tbl: "trace_tbl w = rows @ [row]" and open_row: "att_status row = SRunning"
    and st: "st \<in> {SCompleted, SFailed, SPaused}"
  shows "close_attempt (att_id row) st p et em d tool w =
    (let row' = close_row st p et em d tool (clock w (clock_reads w)) row
     in (Inr row', w\<lparr>clock_reads := Suc (clock_reads w), trace_tbl := rows @ [row']\<rparr>))"
proof -
  have found: "tfind att_id (att_id row) (trace_tbl w) = Some row"
    using trace_wf_find [OF wf, of row] tbl by simp
  have "att_id row \<notin> att_id ` set rows"
    using wf tbl by (auto simp: trace_wf_def sorted_wrt_append)
  then have "tfind att_id (att_id row) rows = None" by (simp add: tfind_None_iff)
  then have upd: "tupdate att_id (att_id row) f (trace_tbl w) = rows @ [f row]" for f
    using tupdate_absent [of att_id "att_id row" rows f] by (simp add: tbl tupdate_def)
  have "transition_step (att_status row) st = Inr st"
    using st open_row by (auto simp: transition_step_def)
  then show ?thesis using found by (simp add: close_attempt_eq upd Let_def)
qed

lemma close_last_row:
  assumes wf: "trace_wf w" and tbl: "trace_tbl w = rows @ [row]" and open_row: "att_status row = SRunning"
    and st: "st \<in> {SCompleted, SFailed, SPaused}"
  obtains row' n where "close_attempt (att_id row) st p et em d tool w =
      (Inr row', w\<lparr>clock_reads := n, trace_tbl := rows @ [row']\<rparr>)"
    "\<exists>t. row' = close_row st p et em d tool t row"
    "trace_wf (w\<lparr>clock_reads := n, trace_tbl := rows @ [row']\<rparr>)"
proof -
  let ?row' = "close_row st p et em d tool (clock w (clock_reads w)) row"
  let ?w' = "w\<lparr>clock_reads := Suc (clock_reads w), trace_tbl := rows @ [?row']\<rparr>"
  have eq: "close_attempt (att_id row) st p et em d tool w = (Inr ?row', ?w')"
    using close_last_row_eq [OF wf tbl open_row st] by (simp add: Let_def)
  have "guar trace_safe (close_attempt (att_id row) st p et em d tool)"
    using st by (intro close_attempt_safe) auto
  from guarD' [OF this eq] have "trace_wf ?w'" using wf by (simp add: trace_safe_def)
  with eq show ?thesis by (intro that) auto
qed

end
