(* ===== verification/Side_Effects.thy ===== *)
theory Side_Effects
  imports Trace
begin

text \<open>
  \<open>persistence/side_effects.py\<close> and \<open>tools/providers.py\<close>: the storage of the idempotency
  ledger and the mocked providers' own storage.  Both are insert-once tables; the locale
  \<open>write_once\<close> is that contract, and the tools rely on it through \<open>provider_store\<close>.
\<close>

section \<open>The ledger's rows\<close>

fun effect_state_value :: "effect_state \<Rightarrow> string" where
  "effect_state_value RESERVED = ''reserved''"
| "effect_state_value IN_PROGRESS = ''in_progress''"
| "effect_state_value COMPLETED = ''completed''"
| "effect_state_value FAILED = ''failed''"

definition se_get :: "string \<Rightarrow> side_effect_record option py" where
  "se_get key = gets (\<lambda>w. tfind idempotency_key key (effects_tbl w))"

definition insert_effect :: "side_effect_record \<Rightarrow> unit py" where
  "insert_effect row = (\<lambda>w.
     if idempotency_key row \<in> idempotency_key ` set (effects_tbl w)
     then (Inl (Exc IntegrityError ''UNIQUE constraint failed: side_effects.idempotency_key''), w)
     else if tfind run_id (eff_run row) (runs_tbl w) = None
     then (Inl (Exc IntegrityError ''FOREIGN KEY constraint failed''), w)
     else (Inr (), w\<lparr>effects_tbl := effects_tbl w @ [row]\<rparr>))"

definition new_effect :: "string \<Rightarrow> string \<Rightarrow> string \<Rightarrow> string \<Rightarrow> ts \<Rightarrow> side_effect_record" where
  "new_effect key rid sname tname t = \<lparr>idempotency_key = key, eff_run = rid, eff_step = sname,
     eff_tool = tname, eff_state = RESERVED, eff_created = t, completed_at = None, eff_result = None\<rparr>"

definition try_reserve :: "string \<Rightarrow> string \<Rightarrow> string \<Rightarrow> string \<Rightarrow> side_effect_record option py" where
  "try_reserve key rid sname tname =
     mtry (mbind now (\<lambda>t. insert_effect (new_effect key rid sname tname t)))
       (\<lambda>e. if is_instance e IntegrityError then ret None else raise e)
       (\<lambda>_. se_get key)"

definition write_state :: "effect_state \<Rightarrow> pyval option \<Rightarrow> ts option \<Rightarrow> side_effect_record \<Rightarrow> side_effect_record" where
  "write_state st result t r = r\<lparr>eff_state := st,
     eff_result := coalesce (map_option json_roundtrip result) (eff_result r), completed_at := t\<rparr>"

definition set_state :: "string \<Rightarrow> effect_state \<Rightarrow> pyval option \<Rightarrow> side_effect_record py" where
  "set_state key st result =
     mbind (if st \<in> {COMPLETED, FAILED} then mbind now (\<lambda>t. ret (Some t)) else ret None) (\<lambda>t.
     mseq (modify (\<lambda>w. w\<lparr>effects_tbl := tupdate idempotency_key key (write_state st result t) (effects_tbl w)\<rparr>))
     (mbind (se_get key) (\<lambda>record. case record of
        None \<Rightarrow> raise (Exc AssertionError [])
      | Some r \<Rightarrow> ret r)))"

definition mark_in_progress :: "string \<Rightarrow> side_effect_record py" where
  "mark_in_progress key = set_state key IN_PROGRESS None"

definition mark_completed :: "string \<Rightarrow> pyval \<Rightarrow> side_effect_record py" where
  "mark_completed key result = set_state key COMPLETED (Some result)"

definition mark_failed :: "string \<Rightarrow> side_effect_record py" where
  "mark_failed key = set_state key FAILED None"

definition effects_list_for_run :: "string \<Rightarrow> side_effect_record list py" where
  "effects_list_for_run rid =
     gets (\<lambda>w. sort_key eff_created (filter (\<lambda>r. eff_run r = rid) (effects_tbl w)))"

definition lookup_effect :: "world \<Rightarrow> string \<Rightarrow> side_effect_record option" where
  "lookup_effect w key = tfind idempotency_key key (effects_tbl w)"

section \<open>The providers' rows\<close>

definition effect_id :: "provider_effect \<Rightarrow> string \<times> string" where
  "effect_id r = (provider r, provider_key r)"

definition lookup_provider :: "world \<Rightarrow> string \<Rightarrow> string \<Rightarrow> pyval option" where
  "lookup_provider w p key = map_option payload (tfind effect_id (p, key) (provider_tbl w))"

text \<open>\<open>INSERT OR IGNORE\<close>: a key already recorded keeps its payload.\<close>

definition provider_record :: "string \<Rightarrow> string \<Rightarrow> pyval \<Rightarrow> unit py" where
  "provider_record p key value = mbind now (\<lambda>t. modify (\<lambda>w.
     if (p, key) \<in> effect_id ` set (provider_tbl w) then w
     else w\<lparr>provider_tbl := provider_tbl w @
       [\<lparr>provider = p, provider_key = key, payload = json_roundtrip value, prov_created = t\<rparr>]\<rparr>))"

definition provider_lookup :: "string \<Rightarrow> string \<Rightarrow> pyval option py" where
  "provider_lookup p key = gets (\<lambda>w. lookup_provider w p key)"

definition provider_count :: "string \<Rightarrow> nat py" where
  "provider_count p = gets (\<lambda>w. length (filter (\<lambda>r. provider r = p) (provider_tbl w)))"

section \<open>The contract of an insert-once store\<close>

text \<open>
  \<open>put\<close> writes a value under a key that has none and is ignored otherwise; \<open>read_back v\<close>
  is what \<open>v\<close> reads back as.
\<close>

locale write_once =
  fixes look :: "'s \<Rightarrow> 'k \<Rightarrow> 'v option"
    and put :: "'k \<Rightarrow> 'v \<Rightarrow> 's \<Rightarrow> 's"
    and read_back :: "'v \<Rightarrow> 'v"
  assumes look_put: "look (put k v s) j = (if j = k \<and> look s k = None then Some (read_back v) else look s j)"
begin

lemma kept: "look s j = Some v \<Longrightarrow> look (put k u s) j = Some v"
  by (auto simp: look_put)

lemma recorded: "look (put k v s) k \<noteq> None"
  by (simp add: look_put)

lemma put_again: "look (put k u (put k v s)) = look (put k v s)"
  by (auto simp: look_put fun_eq_iff)

text \<open>However many writes follow, the first one under a key is what is read.\<close>

lemma first_write_wins:
  "look (fold (\<lambda>(k, v). put k v) ops s) j =
    (case look s j of Some v \<Rightarrow> Some v | None \<Rightarrow> map_option read_back (map_of ops j))"
  by (induction ops arbitrary: s) (auto simp: look_put split: option.splits)

end

lemma lookup_provider_frame [simp]:
  "lookup_provider (w\<lparr>runs_tbl := x0\<rparr>) p k = lookup_provider w p k"
  "lookup_provider (w\<lparr>trace_tbl := x1\<rparr>) p k = lookup_provider w p k"
  "lookup_provider (w\<lparr>trace_seq := x2\<rparr>) p k = lookup_provider w p k"
  "lookup_provider (w\<lparr>effects_tbl := x3\<rparr>) p k = lookup_provider w p k"
  "lookup_provider (w\<lparr>clock_reads := x5\<rparr>) p k = lookup_provider w p k"
  "lookup_provider (w\<lparr>uuid_reads := x6\<rparr>) p k = lookup_provider w p k"
  "lookup_provider (w\<lparr>iam := x7\<rparr>) p k = lookup_provider w p k"
  "lookup_provider (w\<lparr>paperwork_failures := x8\<rparr>) p k = lookup_provider w p k"
  by (simp_all add: lookup_provider_def)

lemma lookup_effect_frame [simp]:
  "lookup_effect (w\<lparr>runs_tbl := x0\<rparr>) k = lookup_effect w k"
  "lookup_effect (w\<lparr>trace_tbl := x1\<rparr>) k = lookup_effect w k"
  "lookup_effect (w\<lparr>trace_seq := x2\<rparr>) k = lookup_effect w k"
  "lookup_effect (w\<lparr>provider_tbl := x4\<rparr>) k = lookup_effect w k"
  "lookup_effect (w\<lparr>clock_reads := x5\<rparr>) k = lookup_effect w k"
  "lookup_effect (w\<lparr>uuid_reads := x6\<rparr>) k = lookup_effect w k"
  "lookup_effect (w\<lparr>iam := x7\<rparr>) k = lookup_effect w k"
  "lookup_effect (w\<lparr>paperwork_failures := x8\<rparr>) k = lookup_effect w k"
  by (simp_all add: lookup_effect_def)

lemma provider_recorded_iff: "(p, key) \<in> effect_id ` set (provider_tbl w) \<longleftrightarrow> lookup_provider w p key \<noteq> None"
  using tfind_None_iff [of effect_id "(p, key)" "provider_tbl w"] by (auto simp: lookup_provider_def)

lemma provider_record_eq: "provider_record p key v w =
    (Inr (), if lookup_provider w p key \<noteq> None then w\<lparr>clock_reads := Suc (clock_reads w)\<rparr>
       else w\<lparr>clock_reads := Suc (clock_reads w), provider_tbl := provider_tbl w @
         [\<lparr>provider = p, provider_key = key, payload = json_roundtrip v, prov_created = clock w (clock_reads w)\<rparr>]\<rparr>)"
  by (simp add: provider_record_def mbind_apply provider_recorded_iff)

lemma lookup_provider_record: "lookup_provider (snd (provider_record p key v w)) q j =
    (if q = p \<and> j = key \<and> lookup_provider w p key = None then Some (json_roundtrip v) else lookup_provider w q j)"
  by (auto simp: provider_record_eq lookup_provider_def tfind_append tfind_Cons effect_id_def
      split: option.splits)

interpretation provider_store: write_once
  "\<lambda>w (p, k). lookup_provider w p k" "\<lambda>(p, k) v w. snd (provider_record p k v w)" json_roundtrip
  by unfold_locales (auto simp: lookup_provider_record split: prod.splits)

section \<open>Equations and frames\<close>

definition only_effects :: "world \<Rightarrow> world \<Rightarrow> bool" where
  "only_effects w w' \<longleftrightarrow> runs_tbl w' = runs_tbl w \<and> trace_tbl w' = trace_tbl w \<and> trace_seq w' = trace_seq w
     \<and> provider_tbl w' = provider_tbl w \<and> iam w' = iam w \<and> paperwork_failures w' = paperwork_failures w
     \<and> clock w' = clock w \<and> uuids w' = uuids w"

definition only_provider :: "world \<Rightarrow> world \<Rightarrow> bool" where
  "only_provider w w' \<longleftrightarrow> runs_tbl w' = runs_tbl w \<and> trace_tbl w' = trace_tbl w \<and> trace_seq w' = trace_seq w
     \<and> effects_tbl w' = effects_tbl w \<and> clock w' = clock w \<and> uuids w' = uuids w"

interpretation effects_only: guarantee only_effects
  by unfold_locales (auto simp: only_effects_def)

interpretation provider_only: guarantee only_provider
  by unfold_locales (auto simp: only_provider_def)

text \<open>What the ledger's clients rely on: providers never forget, and never change their answer.\<close>

definition provider_keeps :: "world \<Rightarrow> world \<Rightarrow> bool" where
  "provider_keeps w w' \<longleftrightarrow> (\<forall>p k v. lookup_provider w p k = Some v \<longrightarrow> lookup_provider w' p k = Some v)"

interpretation provider_keeping: guarantee provider_keeps
  by unfold_locales (auto simp: provider_keeps_def)

lemma provider_record_keeps [guar_rules]: "guar provider_keeps (provider_record p key v)"
  by (simp add: guar_def provider_keeps_def lookup_provider_record)

lemma provider_record_only [guar_rules]: "guar only_provider (provider_record p key v)"
  by (simp add: guar_def provider_record_eq only_provider_def)

lemma provider_lookup_apply [simp]: "provider_lookup p key w = (Inr (lookup_provider w p key), w)"
  by (simp add: provider_lookup_def)

lemma provider_record_Inr: "\<exists>w'. provider_record p key v w = (Inr (), w')"
  by (simp add: provider_record_eq)

lemma se_get_apply [simp]: "se_get key w = (Inr (lookup_effect w key), w)"
  by (simp add: se_get_def lookup_effect_def)

lemma lookup_effect_key: "lookup_effect w key = Some r \<Longrightarrow> idempotency_key r = key"
  by (auto simp: lookup_effect_def dest: tfind_SomeD)

lemma lookup_effect_cong: "effects_tbl w' = effects_tbl w \<Longrightarrow> lookup_effect w' key = lookup_effect w key"
  by (simp add: lookup_effect_def)

lemma lookup_provider_cong: "provider_tbl w' = provider_tbl w \<Longrightarrow> lookup_provider w' p key = lookup_provider w p key"
  by (simp add: lookup_provider_def)

lemma new_effect_simps [simp]:
  "idempotency_key (new_effect k r s n t) = k" "eff_run (new_effect k r s n t) = r"
  "eff_state (new_effect k r s n t) = RESERVED" "eff_result (new_effect k r s n t) = None"
  by (simp_all add: new_effect_def)

lemma write_state_simps [simp]:
  "idempotency_key (write_state st res t r) = idempotency_key r"
  "eff_run (write_state st res t r) = eff_run r" "eff_step (write_state st res t r) = eff_step r"
  "eff_tool (write_state st res t r) = eff_tool r" "eff_created (write_state st res t r) = eff_created r"
  "eff_state (write_state st res t r) = st"
  "eff_result (write_state st res t r) = coalesce (map_option json_roundtrip res) (eff_result r)"
  by (simp_all add: write_state_def)

text \<open>
  Reserving: the row is inserted exactly when the key is free and the run exists; either
  constraint that fails makes the answer \<open>None\<close>.
\<close>

lemma try_reserve_eq: "try_reserve key rid sname tname w =
    (let t = clock w (clock_reads w); row = new_effect key rid sname tname t;
         w' = w\<lparr>clock_reads := Suc (clock_reads w)\<rparr> in
     if lookup_effect w key \<noteq> None \<or> lookup_run w rid = None then (Inr None, w')
     else (Inr (Some row), w'\<lparr>effects_tbl := effects_tbl w @ [row]\<rparr>))"
proof -
  have "idempotency_key (new_effect key rid sname tname t) \<in> idempotency_key ` set (effects_tbl w) \<longleftrightarrow>
      lookup_effect w key \<noteq> None" for t
    by (auto simp: lookup_effect_def tfind_None_iff)
  moreover have "tfind idempotency_key key (effects_tbl w @ [new_effect key rid sname tname t]) =
      Some (new_effect key rid sname tname t)" if "lookup_effect w key = None" for t
    using that by (simp add: lookup_effect_def tfind_append tfind_Cons)
  ultimately show ?thesis
    by (auto simp: try_reserve_def mtry_apply mbind_apply insert_effect_def Let_def lookup_run_def
        lookup_effect_def)
qed

lemma lookup_effect_snoc: "lookup_effect (w\<lparr>effects_tbl := effects_tbl w @ [row]\<rparr>) key =
    (case lookup_effect w key of Some r \<Rightarrow> Some r | None \<Rightarrow> if idempotency_key row = key then Some row else None)"
  by (simp add: lookup_effect_def tfind_append tfind_Cons split: option.splits)

text \<open>Writing a state: an existing row is rewritten, a missing one trips the assertion.\<close>

lemma set_state_cases:
  obtains (missing) n where "lookup_effect w key = None"
      "set_state key st res w = (Inl (Exc AssertionError []), w\<lparr>clock_reads := n\<rparr>)"
  | (written) r t n where "lookup_effect w key = Some r"
      "set_state key st res w = (Inr (write_state st res t r), w\<lparr>clock_reads := n,
         effects_tbl := tupdate idempotency_key key (write_state st res t) (effects_tbl w)\<rparr>)"
proof -
  define t where "t = (if st \<in> {COMPLETED, FAILED} then Some (clock w (clock_reads w)) else None)"
  define n where "n = (if st \<in> {COMPLETED, FAILED} then Suc (clock_reads w) else clock_reads w)"
  have stamp: "(if st \<in> {COMPLETED, FAILED} then mbind now (\<lambda>t. ret (Some t)) else ret None) w =
      (Inr t, w\<lparr>clock_reads := n\<rparr>)"
    by (simp add: t_def n_def mbind_apply)
  have eq: "set_state key st res w =
      (case lookup_effect w key of
         None \<Rightarrow> (Inl (Exc AssertionError []), w\<lparr>clock_reads := n\<rparr>)
       | Some r \<Rightarrow> (Inr (write_state st res t r), w\<lparr>clock_reads := n,
           effects_tbl := tupdate idempotency_key key (write_state st res t) (effects_tbl w)\<rparr>))"
    unfolding set_state_def mbind_apply [where m = "if st \<in> _ then _ else _"] stamp
    by (auto simp: mseq_apply mbind_apply lookup_effect_def tfind_tupdate tupdate_absent split: option.splits)
  show ?thesis
  proof (cases "lookup_effect w key")
    case None
    with eq show ?thesis by (intro missing [of n]) simp_all
  next
    case (Some r)
    with eq show ?thesis by (intro written [of r t n]) simp_all
  qed
qed

lemma lookup_effect_update: "lookup_effect (w\<lparr>clock_reads := n,
      effects_tbl := tupdate idempotency_key key (write_state st res t) (effects_tbl w)\<rparr>) =
    (lookup_effect w)(key := map_option (write_state st res t) (lookup_effect w key))"
  by (auto simp: lookup_effect_def fun_eq_iff tfind_tupdate)

lemma se_get_only [guar_rules]: "guar only_effects (se_get key)"
  by (simp add: guar_def effects_only.rel_refl)

lemma try_reserve_only [guar_rules]: "guar only_effects (try_reserve key rid sname tname)"
  by (simp add: guar_def try_reserve_eq only_effects_def Let_def)

lemma set_state_only [guar_rules]: "guar only_effects (set_state key st res)"
proof (rule guarI)
  fix w
  show "only_effects w (snd (set_state key st res w))"
    by (cases rule: set_state_cases [of w key st res]) (simp_all add: only_effects_def)
qed

lemma markers_only [guar_rules]:
  "guar only_effects (mark_in_progress key)" "guar only_effects (mark_completed key v)"
  "guar only_effects (mark_failed key)"
  by (simp_all add: mark_in_progress_def mark_completed_def mark_failed_def set_state_only)

lemmas mark_defs = mark_in_progress_def mark_completed_def mark_failed_def

section \<open>Keys and references\<close>

text \<open>
  The constraints of the schema that span rows and tables, beside those of the runs table: primary
  keys are unique, and every attempt and every ledger row belongs to a run that exists.
\<close>

definition refs_ok :: "world \<Rightarrow> bool" where
  "refs_ok w \<longleftrightarrow> distinct (map idempotency_key (effects_tbl w)) \<and> distinct (map effect_id (provider_tbl w))
     \<and> (\<forall>r \<in> set (effects_tbl w). lookup_run w (eff_run r) \<noteq> None)
     \<and> (\<forall>r \<in> set (trace_tbl w). lookup_run w (att_run r) \<noteq> None)"

definition refs_kept :: "world \<Rightarrow> world \<Rightarrow> bool" where
  "refs_kept w w' \<longleftrightarrow> (refs_ok w \<longrightarrow> refs_ok w')"

interpretation references: guarantee refs_kept
  by unfold_locales (auto simp: refs_kept_def)

lemma refs_ok_same:
  assumes "runs_tbl w' = runs_tbl w" "trace_tbl w' = trace_tbl w" "effects_tbl w' = effects_tbl w" "provider_tbl w' = provider_tbl w"
  shows "refs_ok w' = refs_ok w"
  using assms by (simp add: refs_ok_def lookup_run_def)

text \<open>The runs table only has to keep its rows.\<close>

lemma refs_kept_runs:
  assumes "only_runs w w'" and "\<And>rid. lookup_run w rid \<noteq> None \<Longrightarrow> lookup_run w' rid \<noteq> None"
  shows "refs_kept w w'"
  using assms by (simp add: refs_kept_def refs_ok_def only_runs_def)

lemma provider_refs [guar_rules]: "guar refs_kept (provider_record p key v)"
proof (rule guarI)
  fix w
  show "refs_kept w (snd (provider_record p key v w))"
    by (auto simp: refs_kept_def refs_ok_def provider_record_eq lookup_provider_def tfind_None_iff effect_id_def)
qed

lemma provider_lookup_refs [guar_rules]: "guar refs_kept (provider_lookup p key)"
  by (simp add: guar_def references.rel_refl)

lemma se_get_refs [guar_rules]: "guar refs_kept (se_get key)"
  by (simp add: guar_def references.rel_refl)

lemma try_reserve_refs [guar_rules]: "guar refs_kept (try_reserve key rid sname tname)"
  by (auto simp: guar_def refs_kept_def refs_ok_def try_reserve_eq Let_def lookup_effect_def tfind_None_iff)

lemma set_state_refs [guar_rules]: "guar refs_kept (set_state key st res)"
proof (rule guarI)
  fix w
  show "refs_kept w (snd (set_state key st res w))"
    by (cases rule: set_state_cases [of w key st res])
      (auto simp: refs_kept_def refs_ok_def tupdate_keys dest!: set_tupdateD)
qed

lemma markers_refs [guar_rules]:
  "guar refs_kept (mark_in_progress key)" "guar refs_kept (mark_completed key v)" "guar refs_kept (mark_failed key)"
  by (simp_all add: mark_defs set_state_refs)

lemma start_attempt_refs [guar_rules]: "guar refs_kept (start_attempt rid s tool)"
proof (rule guarI)
  fix w
  show "refs_kept w (snd (start_attempt rid s tool w))"
    by (auto simp: refs_kept_def refs_ok_def start_attempt_def eff_apply immediate_apply insert_attempt_def rollback_def
        trace_get_eq lookup_run_def new_attempt_def split: option.splits sum.splits)
qed

lemma close_attempt_refs: "guar refs_kept (close_attempt aid st p et em d tool)"
  by (auto simp: guar_def refs_kept_def refs_ok_def close_attempt_eq Let_def close_row_def
      split: option.splits sum.splits dest!: set_tupdateD)

end
