(* ===== verification/Tools.thy ===== *)
theory Tools
  imports Side_Effects
begin

text \<open>
  \<open>tools/base.py\<close>, \<open>tools/hr_directory.py\<close>, \<open>tools/iam.py\<close> and \<open>tools/documents.py\<close>: what a
  tool is, the registry that enforces the allowlist, and the four tools of the application
  with their fault injection.  The registry is a list of named tools, as the dict of the code
  keeps the order of registration.
\<close>

section \<open>Tools and the registry\<close>

record tool_spec =
  spec_name :: string
  spec_description :: string
  side_effecting :: bool
  requires_approval :: bool

type_synonym kwargs = "(string \<times> pyval) list"

text \<open>
  \<open>tool_lookup\<close> is \<open>None\<close> for a tool without a \<open>lookup\<close> method; \<open>isinstance(tool,
  SideEffectingTool)\<close> tests for the method.
\<close>

record tool =
  spec :: tool_spec
  tool_call :: "kwargs \<Rightarrow> pyval py"
  tool_lookup :: "(string \<Rightarrow> pyval option py) option"

definition is_side_effecting_tool :: "tool \<Rightarrow> bool" where
  "is_side_effecting_tool t \<longleftrightarrow> tool_lookup t \<noteq> None"

type_synonym registry = "(string \<times> tool) list"

definition register :: "tool \<Rightarrow> registry \<Rightarrow> exc + registry" where
  "register t reg =
     (let name = spec_name (spec t) in
      if map_of reg name \<noteq> None
      then Inl (Exc ValueError (''tool '' @ repr_str name @ '' is already registered''))
      else Inr (reg @ [(name, t)]))"

fun build_registry :: "tool list \<Rightarrow> registry \<Rightarrow> exc + registry" where
  "build_registry [] reg = Inr reg"
| "build_registry (t # ts) reg = sum_bind (register t reg) (build_registry ts)"

definition registry_names :: "registry \<Rightarrow> string list" where
  "registry_names reg = sort (map fst reg)"

definition registry_spec :: "registry \<Rightarrow> string \<Rightarrow> exc + tool_spec" where
  "registry_spec reg name = (case map_of reg name of
     None \<Rightarrow> Inl (Exc ToolNotAllowed (''tool '' @ repr_str name @ '' is not registered''))
   | Some t \<Rightarrow> Inr (spec t))"

definition resolve :: "registry \<Rightarrow> string \<Rightarrow> string set \<Rightarrow> exc + tool" where
  "resolve reg name allowlist =
     (if name \<notin> allowlist
      then Inl (Exc ToolNotAllowed (''tool '' @ repr_str name @ '' is not in this step's allowlist ('' @
        (if allowlist = {} then ''empty'' else repr_str_list (sorted_list_of_set allowlist)) @ '')''))
      else case map_of reg name of
        None \<Rightarrow> Inl (Exc ToolNotAllowed (''tool '' @ repr_str name @ '' is not registered''))
      | Some t \<Rightarrow> Inr t)"

lemma resolve_Inr_iff: "resolve reg name allow = Inr t \<longleftrightarrow> name \<in> allow \<and> map_of reg name = Some t"
  by (auto simp: resolve_def split: option.splits)

lemma resolve_InlD: "resolve reg name allow = Inl e \<Longrightarrow> exc_class_of e = ToolNotAllowed"
  by (auto simp: resolve_def split: option.splits if_splits)

section \<open>Arguments\<close>

text \<open>Binding keyword arguments to keyword-only parameters: the names must be exactly these.\<close>

definition check_kwargs :: "string list \<Rightarrow> kwargs \<Rightarrow> exc + unit" where
  "check_kwargs names kw =
     (if distinct (map fst kw) \<and> set (map fst kw) = set names then Inr ()
      else Inl (Exc TypeError ''unexpected or missing keyword argument''))"

definition arg :: "kwargs \<Rightarrow> string \<Rightarrow> pyval" where
  "arg kw name = (case map_of kw name of None \<Rightarrow> PNone | Some v \<Rightarrow> v)"

fun arg_str :: "pyval \<Rightarrow> string" where
  "arg_str (PStr s) = s"
| "arg_str _ = []"

fun py_list :: "pyval \<Rightarrow> exc + pyval list" where
  "py_list (PList xs) = Inr xs"
| "py_list (PTuple xs) = Inr xs"
| "py_list (PStr s) = Inr (map (\<lambda>c. PStr [c]) s)"
| "py_list (PDict d) = Inr (map (\<lambda>(k, v). PStr k) d)"
| "py_list _ = Inl (Exc TypeError ''object is not iterable'')"

fun py_len :: "pyval \<Rightarrow> exc + int" where
  "py_len (PList xs) = Inr (int (length xs))"
| "py_len (PTuple xs) = Inr (int (length xs))"
| "py_len (PStr s) = Inr (int (length s))"
| "py_len (PDict d) = Inr (int (length d))"
| "py_len _ = Inl (Exc TypeError ''object has no len()'')"

section \<open>The HR directory\<close>

definition EMPLOYEE_DIRECTORY :: "(string \<times> pyval) list" where
  "EMPLOYEE_DIRECTORY =
   [(''emp-001'', PDict [(''employee_id'', PStr ''emp-001''), (''name'', PStr ''Dana Okafor''),
      (''email'', PStr ''dana.okafor@example.com''), (''department'', PStr ''Engineering''),
      (''manager'', PStr ''Priya Raman''), (''last_day'', PStr ''2026-09-30''),
      (''systems'', PList [PStr ''github'', PStr ''aws'', PStr ''slack'', PStr ''jira'', PStr ''vpn'']),
      (''has_company_hardware'', PBool True)]),
    (''emp-002'', PDict [(''employee_id'', PStr ''emp-002''), (''name'', PStr ''Luis Moreno''),
      (''email'', PStr ''luis.moreno@example.com''), (''department'', PStr ''Finance''),
      (''manager'', PStr ''Aisha Bakr''), (''last_day'', PStr ''2026-10-15''),
      (''systems'', PList [PStr ''netsuite'', PStr ''slack'', PStr ''vpn'']),
      (''has_company_hardware'', PBool False)]),
    (''emp-003'', PDict [(''employee_id'', PStr ''emp-003''), (''name'', PStr ''Wei Zhang''),
      (''email'', PStr ''wei.zhang@example.com''), (''department'', PStr ''Sales''),
      (''manager'', PStr ''Tom Becker''), (''last_day'', PStr ''2026-09-22''),
      (''systems'', PList [PStr ''salesforce'', PStr ''slack'', PStr ''zoom'', PStr ''vpn'']),
      (''has_company_hardware'', PBool True)])]"

definition hr_call :: "kwargs \<Rightarrow> pyval py" where
  "hr_call kw =
     mseq (lift_sum (check_kwargs [''employee_id''] kw))
     (let emp = arg kw ''employee_id'' in
      case map_of EMPLOYEE_DIRECTORY (arg_str emp) of
        None \<Rightarrow> raise (Exc PermanentToolError (''no employee record for '' @ repr_val emp))
      | Some r \<Rightarrow> ret r)"

definition hr_tool :: tool where
  "hr_tool = \<lparr>spec = \<lparr>spec_name = ''hr_directory.get_employee'',
       spec_description = ''Fetch an employee record from the HR system of record.'',
       side_effecting = False, requires_approval = False\<rparr>,
     tool_call = hr_call, tool_lookup = None\<rparr>"

section \<open>The IAM tool\<close>

definition iam_receipt :: "pyval \<Rightarrow> pyval list \<Rightarrow> string \<Rightarrow> pyval" where
  "iam_receipt emp systems key = PDict [(''employee_id'', emp), (''revoked_systems'', PList systems),
     (''revocation_id'', PStr (''rev_'' @ last_chars 12 key))]"

definition iam_call :: "kwargs \<Rightarrow> pyval py" where
  "iam_call kw =
     mseq (lift_sum (check_kwargs [''employee_id'', ''systems'', ''idempotency_key''] kw))
     (let emp = arg kw ''employee_id''; key = arg_str (arg kw ''idempotency_key'') in
      mbind (provider_lookup ''iam'' key) (\<lambda>existing. case existing of
        Some r \<Rightarrow> ret r
      | None \<Rightarrow>
        mbind (gets iam) (\<lambda>f.
        if fail_permanently f
        then raise (Exc PermanentToolError (''iam rejected the revocation for '' @ repr_val emp @
               '': account is under legal hold''))
        else if remaining_failures f > 0
        then mseq (modify (\<lambda>w. w\<lparr>iam := f\<lparr>remaining_failures := remaining_failures f - 1\<rparr>\<rparr>))
               (raise (Exc TransientToolError ''iam gateway returned 503 (service unavailable)''))
        else mbind (lift_sum (py_list (arg kw ''systems''))) (\<lambda>systems.
             mseq (provider_record ''iam'' key (iam_receipt emp systems key))
             (if crash_after_apply f
              then raise (Exc SimulatedProcessDeath ''process died after IAM applied the revocation'')
              else ret (iam_receipt emp systems key))))))"

definition iam_tool :: tool where
  "iam_tool = \<lparr>spec = \<lparr>spec_name = ''iam.revoke_access'',
       spec_description = ''Revoke an employee's access across the listed systems.'',
       side_effecting = True, requires_approval = True\<rparr>,
     tool_call = iam_call, tool_lookup = Some (provider_lookup ''iam'')\<rparr>"

section \<open>The document tools\<close>

definition paperwork_receipt :: "pyval \<Rightarrow> pyval \<Rightarrow> int \<Rightarrow> string \<Rightarrow> pyval" where
  "paperwork_receipt emp email n key = PDict [(''document_id'', PStr (''doc_'' @ last_chars 12 key)),
     (''employee_id'', emp), (''sent_to'', email), (''item_count'', PInt n),
     (''status'', PStr ''awaiting_signature'')]"

definition send_paperwork_call :: "kwargs \<Rightarrow> pyval py" where
  "send_paperwork_call kw =
     mseq (lift_sum (check_kwargs [''employee_id'', ''email'', ''checklist'', ''idempotency_key''] kw))
     (let emp = arg kw ''employee_id''; email = arg kw ''email'';
          key = arg_str (arg kw ''idempotency_key'') in
      mbind (provider_lookup ''documents'' key) (\<lambda>existing. case existing of
        Some r \<Rightarrow> ret r
      | None \<Rightarrow>
        mbind (gets paperwork_failures) (\<lambda>n.
        if n > 0
        then mseq (modify (\<lambda>w. w\<lparr>paperwork_failures := n - 1\<rparr>))
               (raise (Exc TransientToolError ''document service timed out''))
        else mbind (lift_sum (py_len (arg kw ''checklist''))) (\<lambda>count.
             mseq (provider_record ''documents'' key (paperwork_receipt emp email count key))
             (ret (paperwork_receipt emp email count key))))))"

definition send_paperwork_tool :: tool where
  "send_paperwork_tool = \<lparr>spec = \<lparr>spec_name = ''documents.send_exit_paperwork'',
       spec_description = ''Send the exit paperwork packet to an employee for signing.'',
       side_effecting = True, requires_approval = False\<rparr>,
     tool_call = send_paperwork_call, tool_lookup = Some (provider_lookup ''documents'')\<rparr>"

definition archive_receipt :: "pyval \<Rightarrow> pyval \<Rightarrow> string \<Rightarrow> pyval" where
  "archive_receipt emp summary key = PDict [(''archive_id'', PStr (''arc_'' @ last_chars 12 key)),
     (''employee_id'', emp), (''summary'', summary)]"

definition archive_call :: "kwargs \<Rightarrow> pyval py" where
  "archive_call kw =
     mseq (lift_sum (check_kwargs [''employee_id'', ''summary'', ''idempotency_key''] kw))
     (let emp = arg kw ''employee_id''; summary = arg kw ''summary'';
          key = arg_str (arg kw ''idempotency_key'') in
      mbind (provider_lookup ''archive'' key) (\<lambda>existing. case existing of
        Some r \<Rightarrow> ret r
      | None \<Rightarrow>
        mseq (provider_record ''archive'' key (archive_receipt emp summary key))
        (ret (archive_receipt emp summary key))))"

definition archive_tool :: tool where
  "archive_tool = \<lparr>spec = \<lparr>spec_name = ''documents.archive_record'',
       spec_description = ''Archive the completed offboarding record.'',
       side_effecting = True, requires_approval = False\<rparr>,
     tool_call = archive_call, tool_lookup = Some (provider_lookup ''archive'')\<rparr>"

section \<open>The application's registry\<close>

definition APP_TOOLS :: "tool list" where
  "APP_TOOLS = [hr_tool, iam_tool, send_paperwork_tool, archive_tool]"

definition app_registry :: registry where
  "app_registry = map (\<lambda>t. (spec_name (spec t), t)) APP_TOOLS"

lemmas tool_defs = hr_tool_def iam_tool_def send_paperwork_tool_def archive_tool_def

lemma tool_specs [simp]:
  "spec_name (spec hr_tool) = ''hr_directory.get_employee''" "\<not> side_effecting (spec hr_tool)"
  "spec_name (spec iam_tool) = ''iam.revoke_access''" "side_effecting (spec iam_tool)"
  "spec_name (spec send_paperwork_tool) = ''documents.send_exit_paperwork''" "side_effecting (spec send_paperwork_tool)"
  "spec_name (spec archive_tool) = ''documents.archive_record''" "side_effecting (spec archive_tool)"
  by (simp_all add: tool_defs)

lemma tool_calls [simp]:
  "tool_call hr_tool = hr_call" "tool_call iam_tool = iam_call"
  "tool_call send_paperwork_tool = send_paperwork_call" "tool_call archive_tool = archive_call"
  by (simp_all add: tool_defs)

lemma tool_lookups [simp]:
  "tool_lookup hr_tool = None" "tool_lookup iam_tool = Some (provider_lookup ''iam'')"
  "tool_lookup send_paperwork_tool = Some (provider_lookup ''documents'')"
  "tool_lookup archive_tool = Some (provider_lookup ''archive'')"
  by (simp_all add: tool_defs)

lemma app_registry_built: "build_registry APP_TOOLS [] = Inr app_registry"
  by (simp add: APP_TOOLS_def app_registry_def register_def Let_def)

lemma app_registry_tools: "map_of app_registry name = Some t \<Longrightarrow> t \<in> set APP_TOOLS"
  by (auto simp: app_registry_def dest!: map_of_SomeD)

section \<open>What the tools guarantee\<close>

lemma provider_lookup_guar [guar_rules]: "guar provider_keeps (provider_lookup p key)"
  "guar only_provider (provider_lookup p key)"
  by (simp_all add: guar_def provider_keeping.rel_refl provider_only.rel_refl)

lemma fault_writes_guar [guar_rules]:
  "guar provider_keeps (modify (\<lambda>w. w\<lparr>iam := f\<rparr>))" "guar only_provider (modify (\<lambda>w. w\<lparr>iam := f\<rparr>))"
  "guar provider_keeps (modify (\<lambda>w. w\<lparr>paperwork_failures := n\<rparr>))"
  "guar only_provider (modify (\<lambda>w. w\<lparr>paperwork_failures := n\<rparr>))"
  by (simp_all add: guar_def provider_keeps_def only_provider_def)

lemma fault_writes_refs [guar_rules]:
  "guar refs_kept (modify (\<lambda>w. w\<lparr>iam := f\<rparr>))" "guar refs_kept (modify (\<lambda>w. w\<lparr>paperwork_failures := n\<rparr>))"
  by (simp_all add: guar_def refs_kept_def refs_ok_def)

text \<open>
  No tool touches the orchestrator's tables, and no tool makes a provider forget or revise an
  effect it has recorded.
\<close>

lemma app_tools_guar:
  assumes "t \<in> set APP_TOOLS"
  shows "guar only_provider (tool_call t kw)" and "guar provider_keeps (tool_call t kw)"
  using assms unfolding APP_TOOLS_def
  by (auto simp: hr_call_def iam_call_def send_paperwork_call_def archive_call_def Let_def
      intro!: provider_only.guar_intros provider_keeping.guar_intros guar_rules split: option.splits)

lemma app_tools_refs: "t \<in> set APP_TOOLS \<Longrightarrow> guar refs_kept (tool_call t kw)"
  unfolding APP_TOOLS_def
  by (auto simp: hr_call_def iam_call_def send_paperwork_call_def archive_call_def Let_def
      intro!: references.guar_intros guar_rules split: option.splits)

end
