(* ===== verification/Ledger.thy ===== *)
theory Ledger
  imports Tools
begin

text \<open>
  \<open>tools/ledger.py\<close>: the idempotency ledger.  \<open>run_once\<close> is the whole method, write-ahead
  row, call, reconciliation and the recovery of an existing row included.  Its only recursion
  is the re-entry after a lost race for the reservation; the depth argument is the call stack
  Python gives it, and running out of it is Python's \<open>RecursionError\<close>.

  What the ledger relies on at the provider is the locale \<open>accounted_tool\<close>: the provider's
  \<open>lookup\<close> tells the truth about how often the effect has been applied.  Under it, the
  ledger applies an effect at most once whatever the provider does with repeated calls.
\<close>

section \<open>Definitions\<close>

definition build_key :: "string \<Rightarrow> string \<Rightarrow> string \<Rightarrow> string" where
  "build_key rid sname operation = rid @ '':'' @ sname @ '':'' @ operation"

record ledger_outcome =
  result :: pyval
  replayed :: bool
  reconciled :: bool

definition performed :: "ledger_outcome \<Rightarrow> bool" where
  "performed outcome \<longleftrightarrow> \<not> replayed outcome"

definition ask_provider :: "tool \<Rightarrow> string \<Rightarrow> pyval option py" where
  "ask_provider t key = (case tool_lookup t of
     None \<Rightarrow> ret None
   | Some look \<Rightarrow> mtry (look key) (\<lambda>e. if is_instance e PyException then ret None else raise e) ret)"

text \<open>\<open>existing.result or {}\<close>.\<close>

definition cached_result :: "side_effect_record \<Rightarrow> pyval" where
  "cached_result r = (case eff_result r of Some v \<Rightarrow> if truthy v then v else PDict [] | None \<Rightarrow> PDict [])"

definition cannot_reconcile :: "string \<Rightarrow> tool \<Rightarrow> exc" where
  "cannot_reconcile key t = Exc SideEffectReconciliationRequired
     (''side effect '' @ repr_str key @ '' was in flight when the process stopped and '' @
      repr_str (spec_name (spec t)) @ '' cannot be queried; refusing to retry a possibly-applied effect'')"

definition resume_existing :: "side_effect_record \<Rightarrow> string \<Rightarrow> tool \<Rightarrow> ledger_outcome option py" where
  "resume_existing existing key t =
     (if eff_state existing = COMPLETED
      then ret (Some \<lparr>result = cached_result existing, replayed = True, reconciled = False\<rparr>)
      else if eff_state existing = IN_PROGRESS
      then mbind (ask_provider t key) (\<lambda>landed. case landed of
             Some v \<Rightarrow> mseq (mark_completed key v)
                        (ret (Some \<lparr>result = v, replayed = True, reconciled = True\<rparr>))
           | None \<Rightarrow> if \<not> is_side_effecting_tool t then raise (cannot_reconcile key t) else ret None)
      else ret None)"

text \<open>The part of \<open>run_once\<close> from the write-ahead mark to its end.\<close>

definition perform :: "string \<Rightarrow> tool \<Rightarrow> kwargs \<Rightarrow> ledger_outcome py" where
  "perform key t kw =
     mseq (mark_in_progress key)
     (mtry (tool_call t (kw @ [(''idempotency_key'', PStr key)]))
        (\<lambda>exc. if \<not> is_instance exc PyException then raise exc else
           mbind (ask_provider t key) (\<lambda>landed. case landed of
             Some v \<Rightarrow> mseq (mark_completed key v)
                        (ret \<lparr>result = v, replayed = False, reconciled = True\<rparr>)
           | None \<Rightarrow> if is_instance exc PermanentToolError
                      then mseq (mark_failed key) (raise exc)
                      else raise exc))
        (\<lambda>res. mseq (mark_completed key res)
                 (ret \<lparr>result = res, replayed = False, reconciled = False\<rparr>)))"

fun run_once :: "nat \<Rightarrow> string \<Rightarrow> string \<Rightarrow> string \<Rightarrow> tool \<Rightarrow> kwargs \<Rightarrow> ledger_outcome py" where
  "run_once 0 key rid sname t kw = raise (Exc RecursionError ''maximum recursion depth exceeded'')"
| "run_once (Suc depth) key rid sname t kw =
     mbind (se_get key) (\<lambda>existing.
     mbind (case existing of
         Some row \<Rightarrow> resume_existing row key t
       | None \<Rightarrow> mbind (try_reserve key rid sname (spec_name (spec t))) (\<lambda>reserved. case reserved of
           None \<Rightarrow> mbind (run_once depth key rid sname t kw) (\<lambda>outcome. ret (Some outcome))
         | Some _ \<Rightarrow> ret None))
     (\<lambda>outcome. case outcome of Some oc \<Rightarrow> ret oc | None \<Rightarrow> perform key t kw))"

declare run_once.simps(2) [simp del]

text \<open>Python's default recursion limit bounds the re-entries.\<close>

definition RECURSION_LIMIT :: nat where
  "RECURSION_LIMIT = 1000"

section \<open>Keys\<close>

lemma split_at_last:
  assumes "xs @ c # ys = xs' @ c # ys'" and "c \<notin> set ys" and "c \<notin> set ys'"
  shows "xs = xs' \<and> ys = ys'"
  using assms(1)
proof (induction xs arbitrary: xs')
  case Nil
  then show ?case using assms(2,3) by (cases xs') auto
next
  case (Cons x xs)
  then show ?case using assms(2,3) by (cases xs') auto
qed

text \<open>
  Distinct logical effects get distinct keys: whatever the run ids are, two keys are equal
  only for the same run, step and operation, as long as no step or operation name contains a
  colon (none of the seven step names does).
\<close>

theorem build_key_injective:
  assumes "CHR '':'' \<notin> set op" and "CHR '':'' \<notin> set op'"
  shows "build_key rid (step_value s) op = build_key rid' (step_value s') op' \<longleftrightarrow>
    rid = rid' \<and> s = s' \<and> op = op'"
proof
  assume eq: "build_key rid (step_value s) op = build_key rid' (step_value s') op'"
  have step: "CHR '':'' \<notin> set (step_value s)" for s by (cases s) simp_all
  have "(rid @ '':'' @ step_value s) @ CHR '':'' # op = (rid' @ '':'' @ step_value s') @ CHR '':'' # op'"
    using eq by (simp add: build_key_def)
  from split_at_last [OF this assms]
  have "rid @ CHR '':'' # step_value s = rid' @ CHR '':'' # step_value s'" and op: "op = op'"
    by simp_all
  from split_at_last [OF this(1) step step] op show "rid = rid' \<and> s = s' \<and> op = op'"
    by simp
qed simp

theorem build_key_injective_witness:
  "build_key ''r:1'' (step_value REVOKE_ACCESS) ''revoke_all_systems''
     \<noteq> build_key ''r:1'' (step_value FINALIZE) ''archive''"
  using build_key_injective [of "''revoke_all_systems''" "''archive''" "''r:1''" REVOKE_ACCESS "''r:1''" FINALIZE]
  by simp

section \<open>What an existing row means\<close>

lemma run_once_completed:
  "lookup_effect w key = Some r \<Longrightarrow> eff_state r = COMPLETED \<Longrightarrow>
   run_once (Suc d) key rid sname t kw w =
     (Inr \<lparr>result = cached_result r, replayed = True, reconciled = False\<rparr>, w)"
  by (simp add: run_once.simps(2) mbind_apply resume_existing_def)

lemma run_once_resumable:
  "lookup_effect w key = Some r \<Longrightarrow> eff_state r \<in> {RESERVED, FAILED} \<Longrightarrow>
   run_once (Suc d) key rid sname t kw w = perform key t kw w"
  by (auto simp: run_once.simps(2) mbind_apply resume_existing_def)

lemma run_once_in_progress:
  "lookup_effect w key = Some r \<Longrightarrow> eff_state r = IN_PROGRESS \<Longrightarrow>
   run_once (Suc d) key rid sname t kw w =
     mbind (mbind (ask_provider t key) (\<lambda>landed. case landed of
             Some v \<Rightarrow> mseq (mark_completed key v)
                        (ret (Some \<lparr>result = v, replayed = True, reconciled = True\<rparr>))
           | None \<Rightarrow> if \<not> is_side_effecting_tool t then raise (cannot_reconcile key t) else ret None))
       (\<lambda>outcome. case outcome of Some oc \<Rightarrow> ret oc | None \<Rightarrow> perform key t kw) w"
  by (simp add: run_once.simps(2) mbind_apply [where m = "se_get key"] resume_existing_def)

lemma run_once_fresh:
  "lookup_effect w key = None \<Longrightarrow> lookup_run w rid \<noteq> None \<Longrightarrow>
   run_once (Suc d) key rid sname t kw w = perform key t kw
     (w\<lparr>clock_reads := Suc (clock_reads w), effects_tbl := effects_tbl w @
        [new_effect key rid sname (spec_name (spec t)) (clock w (clock_reads w))]\<rparr>)"
  by (auto simp: run_once.simps(2) mbind_apply try_reserve_eq Let_def)

lemma run_once_missing_run:
  "lookup_effect w key = None \<Longrightarrow> lookup_run w rid = None \<Longrightarrow>
   run_once (Suc d) key rid sname t kw w =
     (case run_once d key rid sname t kw (w\<lparr>clock_reads := Suc (clock_reads w)\<rparr>) of
        (Inl e, w') \<Rightarrow> (Inl e, w') | (Inr oc, w') \<Rightarrow> (Inr oc, w'))"
  by (simp add: run_once.simps(2) mbind_apply try_reserve_eq Let_def split: prod.splits sum.splits)

section \<open>What \<open>run_once\<close> does with an existing row\<close>

text \<open>The sample state with one row of the ledger, for the concrete instances.\<close>

definition sample_effect :: "effect_state \<Rightarrow> world" where
  "sample_effect st = sample_world\<lparr>effects_tbl :=
     [(new_effect ''k1'' ''r1'' ''finalize'' ''archive'' 0)\<lparr>eff_state := st, eff_result := Some (PStr ''ok'')\<rparr>]\<rparr>"

lemma sample_effect_row [simp]: "lookup_effect (sample_effect st) ''k1'' =
    Some ((new_effect ''k1'' ''r1'' ''finalize'' ''archive'' 0)\<lparr>eff_state := st, eff_result := Some (PStr ''ok'')\<rparr>)"
  by (simp add: sample_effect_def lookup_effect_def tfind_Cons)

text \<open>A tool without \<open>lookup\<close>, and one whose \<open>lookup\<close> always raises.\<close>

definition blind_tool :: tool where
  "blind_tool = hr_tool"

definition broken_tool :: tool where
  "broken_tool = iam_tool\<lparr>tool_lookup := Some (\<lambda>key. raise (Exc TransientToolError ''down''))\<rparr>"

text \<open>
  A completed effect is replayed: whatever the tool, its provider and the arguments, the
  cached result comes back, nothing in the world changes and so the tool is not called.
\<close>

theorem completed_effect_is_replayed:
  assumes "lookup_effect w key = Some r" and "eff_state r = COMPLETED"
  shows "run_once (Suc d) key rid sname t kw w =
    (Inr \<lparr>result = cached_result r, replayed = True, reconciled = False\<rparr>, w)"
  using assms by (rule run_once_completed)

theorem completed_effect_is_replayed_witness:
  "run_once 1 ''k1'' ''r1'' ''finalize'' broken_tool [] (sample_effect COMPLETED) =
    (Inr \<lparr>result = PStr ''ok'', replayed = True, reconciled = False\<rparr>, sample_effect COMPLETED)"
  using completed_effect_is_replayed [OF sample_effect_row [of COMPLETED], of 0] by (simp add: cached_result_def)

text \<open>
  Fail closed: an effect left in flight whose tool has no \<open>lookup\<close> is refused with
  \<open>SideEffectReconciliationRequired\<close>, and the world is left as it was: neither the tool is
  called nor the row touched.
\<close>

theorem in_flight_without_lookup_is_refused:
  assumes "lookup_effect w key = Some r" and "eff_state r = IN_PROGRESS" and "tool_lookup t = None"
  shows "run_once (Suc d) key rid sname t kw w = (Inl (cannot_reconcile key t), w)
    \<and> exc_class_of (cannot_reconcile key t) = SideEffectReconciliationRequired"
  using assms
  by (simp add: run_once_in_progress mbind_apply ask_provider_def is_side_effecting_tool_def cannot_reconcile_def)

theorem in_flight_without_lookup_is_refused_witness:
  "run_once 1 ''k1'' ''r1'' ''finalize'' blind_tool [] (sample_effect IN_PROGRESS) =
    (Inl (cannot_reconcile ''k1'' blind_tool), sample_effect IN_PROGRESS)"
  using in_flight_without_lookup_is_refused [OF sample_effect_row [of IN_PROGRESS], of blind_tool 0]
  by (simp add: blind_tool_def)

text \<open>
  C32. A provider that raises while being queried is not treated as unable to answer: with a
  row in flight and a \<open>lookup\<close> that raises an ordinary exception, \<open>run_once\<close> goes on exactly
  as from a row known to have failed, and calls the tool again.
\<close>

theorem failing_lookup_does_not_fail_closed:
  assumes "lookup_effect w key = Some r" and "eff_state r = IN_PROGRESS"
    and "tool_lookup t = Some look" and "look key w = (Inl e, w)" and "is_instance e PyException"
  shows "run_once (Suc d) key rid sname t kw w = perform key t kw w"
  using assms
  by (simp add: run_once_in_progress mbind_apply mtry_apply ask_provider_def is_side_effecting_tool_def)

theorem failing_lookup_does_not_fail_closed_witness:
  "run_once 1 ''k1'' ''r1'' ''finalize'' broken_tool [] (sample_effect IN_PROGRESS) =
    perform ''k1'' broken_tool [] (sample_effect IN_PROGRESS)"
  using failing_lookup_does_not_fail_closed [OF sample_effect_row [of IN_PROGRESS], of broken_tool
      "\<lambda>key. raise (Exc TransientToolError ''down'')" "Exc TransientToolError ''down''" 0]
  by (simp add: broken_tool_def)

text \<open>
  C33. Reserving for a run that does not exist never ends: the foreign key refuses the row,
  \<open>try_reserve\<close> reports that as a lost race, and \<open>run_once\<close> re-enters until the call stack
  is exhausted, for every depth of the stack.
\<close>

theorem missing_run_exhausts_the_stack:
  assumes "lookup_effect w key = None" and "lookup_run w rid = None"
  shows "fst (run_once depth key rid sname t kw w) = Inl (Exc RecursionError ''maximum recursion depth exceeded'')"
  using assms
proof (induction depth arbitrary: w)
  case (Suc depth)
  have "fst (run_once depth key rid sname t kw (w\<lparr>clock_reads := Suc (clock_reads w)\<rparr>)) =
      Inl (Exc RecursionError ''maximum recursion depth exceeded'')"
    using Suc.prems by (intro Suc.IH) simp_all
  then show ?case
    by (auto simp: run_once_missing_run [OF Suc.prems] split: prod.splits sum.splits)
qed simp

theorem missing_run_exhausts_the_stack_witness:
  "fst (run_once RECURSION_LIMIT ''k1'' ''no such run'' ''finalize'' archive_tool [] sample_world) =
    Inl (Exc RecursionError ''maximum recursion depth exceeded'')"
  using missing_run_exhausts_the_stack [of sample_world "''k1''" "''no such run''"]
  by (simp add: lookup_effect_def lookup_run_def tfind_Cons)

text \<open>
  The receipt ids do not identify anything: the twelve characters they take from the end of
  the idempotency key are the end of the step and operation names, so every run of every employee
  gets the revocation id \<open>rev__all_systems\<close>, the document id \<open>doc_:send_packet\<close> and the archive
  id \<open>arc_lize:archive\<close>.
\<close>

theorem receipt_ids_do_not_identify:
  "iam_receipt emp systems (build_key rid (step_value REVOKE_ACCESS) ''revoke_all_systems'') =
     PDict [(''employee_id'', emp), (''revoked_systems'', PList systems), (''revocation_id'', PStr ''rev__all_systems'')]
   \<and> paperwork_receipt emp email n (build_key rid (step_value SEND_EXIT_PAPERWORK) ''send_packet'') =
     PDict [(''document_id'', PStr ''doc_:send_packet''), (''employee_id'', emp), (''sent_to'', email),
       (''item_count'', PInt n), (''status'', PStr ''awaiting_signature'')]
   \<and> archive_receipt emp summary (build_key rid (step_value FINALIZE) ''archive'') =
     PDict [(''archive_id'', PStr ''arc_lize:archive''), (''employee_id'', emp), (''summary'', summary)]"
proof -
  have "last_chars 12 (build_key rid (step_value REVOKE_ACCESS) ''revoke_all_systems'') = ''_all_systems''"
    "last_chars 12 (build_key rid (step_value SEND_EXIT_PAPERWORK) ''send_packet'') = '':send_packet''"
    "last_chars 12 (build_key rid (step_value FINALIZE) ''archive'') = ''lize:archive''"
    by (simp_all add: build_key_def last_chars_def)
  then show ?thesis by (simp add: iam_receipt_def paperwork_receipt_def archive_receipt_def)
qed

lemma run_once_depth:
  "lookup_run w rid \<noteq> None \<Longrightarrow> run_once (Suc d) key rid sname t kw w = run_once (Suc 0) key rid sname t kw w"
  by (auto simp: run_once.simps(2) mbind_apply try_reserve_eq Let_def split: option.splits)

end
