(* ===== verification/At_Most_Once.thy ===== *)
theory At_Most_Once
  imports Ledger
begin

text \<open>
  What the ledger promises over any number of attempts at one effect: it is applied at most
  once.  The locale \<open>accounted_tool\<close> is the interface the ledger needs of a provider, a
  history is any interleaving of \<open>run_once\<close> calls (returning, raising or dying) with changes
  elsewhere, and the three side-effecting tools of the application are interpretations.
\<close>

section \<open>The interface and the invariant\<close>

text \<open>
  \<open>applied w\<close> counts how often the effect has been applied at the provider.  The provider is
  free to apply it again on every call; it must only answer \<open>lookup\<close> truthfully, and return
  normally only when the effect is there.
\<close>

locale accounted_tool =
  fixes t :: tool
    and kw :: kwargs
    and key :: string
    and applied :: "world \<Rightarrow> nat"
    and look :: "string \<Rightarrow> pyval option py"
  assumes has_lookup: "tool_lookup t = Some look"
    and lookup_truth: "\<exists>v. look key w = (Inr (if applied w = 0 then None else Some v), w)"
    and call_counts: "tool_call t (kw @ [(''idempotency_key'', PStr key)]) w = (r, w') \<Longrightarrow>
      applied w' \<in> {applied w, Suc (applied w)} \<and> ((\<exists>v. r = Inr v) \<longrightarrow> applied w' \<noteq> 0)"
    and call_frame: "tool_call t (kw @ [(''idempotency_key'', PStr key)]) w = (r, w') \<Longrightarrow>
      effects_tbl w' = effects_tbl w"
    and applied_frame: "only_effects w w' \<Longrightarrow> applied w' = applied w"

definition row_state :: "world \<Rightarrow> string \<Rightarrow> effect_state option" where
  "row_state w key = map_option eff_state (lookup_effect w key)"

definition accounted :: "(world \<Rightarrow> nat) \<Rightarrow> string \<Rightarrow> world \<Rightarrow> bool" where
  "accounted applied key w \<longleftrightarrow> applied w \<le> 1
     \<and> (applied w = 1 \<longrightarrow> row_state w key \<in> {Some IN_PROGRESS, Some COMPLETED})
     \<and> (row_state w key = Some COMPLETED \<longrightarrow> applied w = 1)"

inductive ledger_history ::
  "tool \<Rightarrow> kwargs \<Rightarrow> string \<Rightarrow> (world \<Rightarrow> nat) \<Rightarrow> world \<Rightarrow> world \<Rightarrow> bool"
  for t kw key applied where
  start: "ledger_history t kw key applied w w"
| attempt: "ledger_history t kw key applied w u \<Longrightarrow> run_once d key rid sname t kw u = (r, v) \<Longrightarrow>
    ledger_history t kw key applied w v"
| elsewhere: "ledger_history t kw key applied w u \<Longrightarrow> lookup_effect v key = lookup_effect u key \<Longrightarrow>
    applied v = applied u \<Longrightarrow> ledger_history t kw key applied w v"

lemma set_state_row:
  assumes "row_state w key \<noteq> None"
  obtains r w' where "set_state key st res w = (Inr r, w')" and "row_state w' key = Some st"
    and "only_effects w w'" and "lookup_effect w' key = Some r"
    and "res = Some v \<Longrightarrow> eff_result r = Some (json_roundtrip v)"
    and "\<And>k. k \<noteq> key \<Longrightarrow> lookup_effect w' k = lookup_effect w k"
proof (cases rule: set_state_cases [of w key st res])
  case (missing n)
  with assms show ?thesis by (simp add: row_state_def)
next
  case (written r t n)
  show ?thesis
  proof (rule that)
    show "set_state key st res w = (Inr (write_state st res t r), w\<lparr>clock_reads := n,
         effects_tbl := tupdate idempotency_key key (write_state st res t) (effects_tbl w)\<rparr>)"
      by (rule written(2))
  qed (use written(1) in \<open>auto simp: row_state_def lookup_effect_update only_effects_def\<close>)
qed

section \<open>The proof, once for every such tool\<close>

context accounted_tool
begin

lemma ask_truth: "\<exists>v. ask_provider t key w = (Inr (if applied w = 0 then None else Some v), w)"
  using lookup_truth [of w] by (auto simp: ask_provider_def has_lookup mtry_apply)

text \<open>From a row that exists and nothing applied, one pass through the call.\<close>

lemma perform_accounted:
  assumes row: "row_state w key \<noteq> None" and zero: "applied w = 0"
    and run: "perform key t kw w = (r, w')"
  shows "accounted applied key w' \<and> ((\<exists>oc. r = Inr oc) \<longrightarrow> row_state w' key = Some COMPLETED)"
proof -
  obtain r1 w1 where mark: "mark_in_progress key w = (Inr r1, w1)" "row_state w1 key = Some IN_PROGRESS"
      "only_effects w w1"
    using set_state_row [OF row, of IN_PROGRESS None] unfolding mark_in_progress_def by metis
  have zero1: "applied w1 = 0" using applied_frame [OF mark(3)] zero by simp
  obtain rc w2 where call: "tool_call t (kw @ [(''idempotency_key'', PStr key)]) w1 = (rc, w2)"
    by (meson surj_pair)
  have w2: "applied w2 \<le> 1" "(\<exists>v. rc = Inr v) \<longrightarrow> applied w2 = 1"
    using call_counts [OF call] zero1 by auto
  have row2: "row_state w2 key = Some IN_PROGRESS"
    using call_frame [OF call] mark(2) by (simp add: row_state_def lookup_effect_def)
  have closing: "\<exists>r3 w3. set_state key st res w2 = (Inr r3, w3) \<and> row_state w3 key = Some st
      \<and> applied w3 = applied w2" for st res
    using set_state_row [of w2 key st res] row2 applied_frame by (metis option.discI)
  obtain v where ask: "ask_provider t key w2 = (Inr (if applied w2 = 0 then None else Some v), w2)"
    using ask_truth by blast
  show ?thesis
  proof (cases rc)
    case (Inr res)
    with w2 have "applied w2 = 1" by blast
    with closing [of COMPLETED "Some res"] show ?thesis
      using run mark(1) call Inr
      by (auto simp: perform_def eff_apply mark_completed_def accounted_def)
  next
    case (Inl e)
    show ?thesis
    proof (cases "is_instance e PyException")
      case False
      with run mark(1) call Inl have "w' = w2" "r = Inl e" by (auto simp: perform_def eff_apply)
      then show ?thesis using w2 row2 by (auto simp: accounted_def)
    next
      case True
      consider "applied w2 = 0" | "applied w2 = 1" using w2(1) by linarith
      then show ?thesis
      proof cases
        case 1
        show ?thesis
        proof (cases "is_instance e PermanentToolError")
          case True
          with closing [of FAILED None] 1 show ?thesis
            using run mark(1) call Inl \<open>is_instance e PyException\<close> ask
            by (auto simp: perform_def eff_apply mark_failed_def accounted_def)
        next
          case False
          with 1 have "w' = w2" "r = Inl e"
            using run mark(1) call Inl \<open>is_instance e PyException\<close> ask by (auto simp: perform_def eff_apply)
          then show ?thesis using w2 row2 1 by (auto simp: accounted_def)
        qed
      next
        case 2
        with closing [of COMPLETED "Some v"] show ?thesis
          using run mark(1) call Inl True ask
          by (auto simp: perform_def eff_apply mark_completed_def accounted_def)
      qed
    qed
  qed
qed

lemma run_once_accounted:
  "accounted applied key w \<Longrightarrow> run_once d key rid sname t kw w = (r, w') \<Longrightarrow>
   accounted applied key w' \<and> ((\<exists>oc. r = Inr oc) \<longrightarrow> row_state w' key = Some COMPLETED)"
proof (induction d arbitrary: w r)
  case (Suc d)
  note acc = Suc.prems(1) and run = Suc.prems(2)
  show ?case
  proof (cases "lookup_effect w key")
    case None
    then have zero: "applied w = 0" using acc by (auto simp: accounted_def row_state_def le_Suc_eq)
    show ?thesis
    proof (cases "lookup_run w rid")
      case (Some rn)
      let ?w = "w\<lparr>clock_reads := Suc (clock_reads w), effects_tbl := effects_tbl w @
        [new_effect key rid sname (spec_name (spec t)) (clock w (clock_reads w))]\<rparr>"
      have "applied ?w = 0" using applied_frame [of w ?w] zero by (simp add: only_effects_def)
      moreover have "row_state ?w key \<noteq> None"
        using None by (simp add: row_state_def lookup_effect_def tfind_append tfind_Cons)
      ultimately show ?thesis
        using perform_accounted run run_once_fresh [OF None, of rid d sname t kw] Some by simp
    next
      case None': None
      let ?w = "w\<lparr>clock_reads := Suc (clock_reads w)\<rparr>"
      have "accounted applied key ?w"
        using acc applied_frame [of w ?w] by (simp add: accounted_def row_state_def only_effects_def)
      moreover have "run_once d key rid sname t kw ?w = (r, w')"
        using run by (simp add: run_once_missing_run [OF None None'] split: prod.splits sum.splits)
      ultimately show ?thesis by (rule Suc.IH)
    qed
  next
    case (Some row)
    then have st: "row_state w key = Some (eff_state row)" by (simp add: row_state_def)
    show ?thesis
    proof (cases "eff_state row")
      case COMPLETED
      then show ?thesis using run acc st by (auto simp: run_once_completed [OF Some COMPLETED])
    next
      case IN_PROGRESS
      obtain v where ask: "ask_provider t key w = (Inr (if applied w = 0 then None else Some v), w)"
        using ask_truth by blast
      show ?thesis
      proof (cases "applied w = 0")
        case True
        then have "run_once (Suc d) key rid sname t kw w = perform key t kw w"
          using ask by (simp add: run_once_in_progress [OF Some IN_PROGRESS] eff_apply
              is_side_effecting_tool_def has_lookup)
        then have "perform key t kw w = (r, w')" using run by simp
        then show ?thesis using perform_accounted [OF _ True] st by simp
      next
        case False
        then have one: "applied w = 1" using acc by (simp add: accounted_def)
        obtain r3 w3 where mark: "mark_completed key v w = (Inr r3, w3)" "row_state w3 key = Some COMPLETED"
            "only_effects w w3"
          using set_state_row [of w key COMPLETED "Some v"] st unfolding mark_completed_def
          by (metis option.discI)
        have "applied w3 = 1" using applied_frame [OF mark(3)] one by simp
        moreover have "w' = w3"
          using run ask False mark(1) by (auto simp: run_once_in_progress [OF Some IN_PROGRESS] eff_apply)
        ultimately show ?thesis using mark(2) by (simp add: accounted_def)
      qed
    next
      case RESERVED
      then have zero: "applied w = 0" using acc st by (auto simp: accounted_def le_Suc_eq)
      show ?thesis
        using perform_accounted [OF _ zero] run st run_once_resumable [OF Some, of d rid sname t kw] RESERVED
        by simp
    next
      case FAILED
      then have zero: "applied w = 0" using acc st by (auto simp: accounted_def le_Suc_eq)
      show ?thesis
        using perform_accounted [OF _ zero] run st run_once_resumable [OF Some, of d rid sname t kw] FAILED
        by simp
    qed
  qed
qed simp

lemma history_accounted:
  "ledger_history t kw key applied w v \<Longrightarrow> accounted applied key w \<Longrightarrow> accounted applied key v"
proof (induction rule: ledger_history.induct)
  case (attempt w u d rid sname r v)
  then show ?case using run_once_accounted by blast
next
  case (elsewhere w u v)
  then show ?case by (simp add: accounted_def row_state_def)
qed

end

section \<open>The application's tools are accounted\<close>

definition applied_at :: "string \<Rightarrow> string \<Rightarrow> world \<Rightarrow> nat" where
  "applied_at p key w = length (filter (\<lambda>r. effect_id r = (p, key)) (provider_tbl w))"

lemma applied_at_zero: "applied_at p key w = 0 \<longleftrightarrow> lookup_provider w p key = None"
proof -
  have "applied_at p key w = 0 \<longleftrightarrow> (p, key) \<notin> effect_id ` set (provider_tbl w)"
    by (force simp: applied_at_def filter_empty_conv)
  then show ?thesis by (simp add: provider_recorded_iff)
qed

lemma applied_at_frame: "provider_tbl w' = provider_tbl w \<Longrightarrow> applied_at p key w' = applied_at p key w"
  by (simp add: applied_at_def)

lemma applied_at_record: "applied_at p key (snd (provider_record p key v w)) =
    (if applied_at p key w = 0 then 1 else applied_at p key w)"
proof (cases "lookup_provider w p key")
  case None
  then have "applied_at p key w = 0" by (simp add: applied_at_zero)
  moreover have "applied_at p key (snd (provider_record p key v w)) = applied_at p key w + 1"
    using None by (simp add: provider_record_eq applied_at_def effect_id_def)
  ultimately show ?thesis by simp
next
  case (Some v)
  then have "applied_at p key w \<noteq> 0" by (simp add: applied_at_zero)
  with Some show ?thesis by (simp add: provider_record_eq applied_at_def)
qed

text \<open>
  What one call of the mocked tools does to its provider: raise with nothing recorded, answer
  from the record, or record the effect (and then return or die).
\<close>

definition provider_step :: "string \<Rightarrow> string \<Rightarrow> world \<Rightarrow> (exc + pyval) \<times> world \<Rightarrow> bool" where
  "provider_step p key w res \<longleftrightarrow> (case res of (r, w') \<Rightarrow>
     (\<exists>e. r = Inl e) \<and> provider_tbl w' = provider_tbl w
     \<or> lookup_provider w p key \<noteq> None \<and> provider_tbl w' = provider_tbl w
     \<or> (\<exists>v u. provider_tbl u = provider_tbl w \<and> provider_tbl w' = provider_tbl (snd (provider_record p key v u))))"

lemma provider_step_counts:
  assumes "provider_step p key w (r, w')"
  shows "applied_at p key w' \<in> {applied_at p key w, Suc (applied_at p key w)}
    \<and> ((\<exists>v. r = Inr v) \<longrightarrow> applied_at p key w' \<noteq> 0)"
  using assms unfolding provider_step_def prod.case
proof (elim disjE)
  assume "(\<exists>e. r = Inl e) \<and> provider_tbl w' = provider_tbl w"
  then show ?thesis using applied_at_frame [of w' w] by auto
next
  assume "lookup_provider w p key \<noteq> None \<and> provider_tbl w' = provider_tbl w"
  then show ?thesis using applied_at_frame [of w' w] applied_at_zero [of p key w] by auto
next
  assume "\<exists>v u. provider_tbl u = provider_tbl w \<and> provider_tbl w' = provider_tbl (snd (provider_record p key v u))"
  then obtain v u where u: "provider_tbl u = provider_tbl w"
      "provider_tbl w' = provider_tbl (snd (provider_record p key v u))" by blast
  have "applied_at p key w' = applied_at p key (snd (provider_record p key v u))"
    by (rule applied_at_frame) (rule u(2))
  then show ?thesis using applied_at_record [of p key v u] applied_at_frame [OF u(1)] by auto
qed

lemma provider_call_effects: "t \<in> set APP_TOOLS \<Longrightarrow> tool_call t kw w = (r, w') \<Longrightarrow> effects_tbl w' = effects_tbl w"
  using app_tools_guar(1) [of t kw] guarD' [of only_provider "tool_call t kw" w r w']
  by (auto simp: only_provider_def)

lemma arg_key:
  assumes "check_kwargs names (kw @ [(''idempotency_key'', PStr key)]) = Inr ()"
  shows "arg_str (arg (kw @ [(''idempotency_key'', PStr key)]) ''idempotency_key'') = key"
proof -
  have "''idempotency_key'' \<notin> fst ` set kw" using assms by (auto simp: check_kwargs_def split: if_splits)
  then have "map_of kw ''idempotency_key'' = None" by (simp add: map_of_eq_None_iff)
  then show ?thesis by (simp add: arg_def map_add_def)
qed

lemma recorded_step:
  assumes "provider_record p key v u = (r, w')" and "provider_tbl u = provider_tbl w"
  shows "provider_step p key w (r', w')"
proof -
  have "w' = snd (provider_record p key v u)" using assms(1) by simp
  then show ?thesis using assms(2) unfolding provider_step_def by blast
qed

lemma provider_step_raise: "provider_tbl w' = provider_tbl w \<Longrightarrow> provider_step p key w (Inl e, w')"
  and provider_step_known: "lookup_provider w p key \<noteq> None \<Longrightarrow> provider_step p key w (r, w)"
  by (auto simp: provider_step_def)

lemmas provider_steps = recorded_step provider_step_raise provider_step_known

lemma iam_step: "provider_step ''iam'' key w (iam_call (kw @ [(''idempotency_key'', PStr key)]) w)"
proof (cases "check_kwargs [''employee_id'', ''systems'', ''idempotency_key''] (kw @ [(''idempotency_key'', PStr key)])")
  case (Inl e)
  then show ?thesis by (simp add: iam_call_def mseq_apply provider_step_raise)
next
  case (Inr u)
  note key = arg_key [OF Inr [simplified]]
  show ?thesis using Inr key
    by (auto simp: iam_call_def eff_apply Let_def intro: provider_steps
        split: option.splits sum.splits prod.splits)
qed

lemma send_paperwork_step:
  "provider_step ''documents'' key w (send_paperwork_call (kw @ [(''idempotency_key'', PStr key)]) w)"
proof (cases "check_kwargs [''employee_id'', ''email'', ''checklist'', ''idempotency_key'']
    (kw @ [(''idempotency_key'', PStr key)])")
  case (Inl e)
  then show ?thesis by (simp add: send_paperwork_call_def mseq_apply provider_step_raise)
next
  case (Inr u)
  note key = arg_key [OF Inr [simplified]]
  show ?thesis using Inr key
    by (auto simp: send_paperwork_call_def eff_apply Let_def intro: provider_steps
        split: option.splits sum.splits prod.splits)
qed

lemma archive_step: "provider_step ''archive'' key w (archive_call (kw @ [(''idempotency_key'', PStr key)]) w)"
proof (cases "check_kwargs [''employee_id'', ''summary'', ''idempotency_key''] (kw @ [(''idempotency_key'', PStr key)])")
  case (Inl e)
  then show ?thesis by (simp add: archive_call_def mseq_apply provider_step_raise)
next
  case (Inr u)
  note key = arg_key [OF Inr [simplified]]
  show ?thesis using Inr key
    by (auto simp: archive_call_def eff_apply Let_def intro: provider_steps
        split: option.splits sum.splits prod.splits)
qed

lemma mocked_tool_accounted:
  assumes "t \<in> set APP_TOOLS" and "tool_lookup t = Some (provider_lookup p)"
    and "\<And>w. provider_step p key w (tool_call t (kw @ [(''idempotency_key'', PStr key)]) w)"
  shows "accounted_tool t kw key (applied_at p key) (\<lambda>k. provider_lookup p k)"
proof
  show "tool_lookup t = Some (provider_lookup p)" by fact
  show "\<exists>v. provider_lookup p key w = (Inr (if applied_at p key w = 0 then None else Some v), w)" for w
    by (auto simp: applied_at_zero)
  show "applied_at p key w' = applied_at p key w" if "only_effects w w'" for w w'
    using that by (intro applied_at_frame) (simp add: only_effects_def)
next
  fix w r w'
  assume call: "tool_call t (kw @ [(''idempotency_key'', PStr key)]) w = (r, w')"
  show "applied_at p key w' \<in> {applied_at p key w, Suc (applied_at p key w)}
      \<and> ((\<exists>v. r = Inr v) \<longrightarrow> applied_at p key w' \<noteq> 0)"
    using assms(3) [of w] call by (intro provider_step_counts) simp
  show "effects_tbl w' = effects_tbl w" by (rule provider_call_effects [OF assms(1) call])
qed

interpretation iam_ledger: accounted_tool iam_tool kw key "applied_at ''iam'' key" "provider_lookup ''iam''" for kw key
  by (rule mocked_tool_accounted) (simp_all add: APP_TOOLS_def iam_step)

interpretation paperwork_ledger: accounted_tool send_paperwork_tool kw key "applied_at ''documents'' key"
    "provider_lookup ''documents''" for kw key
  by (rule mocked_tool_accounted) (simp_all add: APP_TOOLS_def send_paperwork_step)

interpretation archive_ledger: accounted_tool archive_tool kw key "applied_at ''archive'' key"
    "provider_lookup ''archive''" for kw key
  by (rule mocked_tool_accounted) (simp_all add: APP_TOOLS_def archive_step)

section \<open>At most once\<close>

lemma fresh_accounted: "lookup_effect w key = None \<Longrightarrow> applied w = 0 \<Longrightarrow> accounted applied key w"
  by (simp add: accounted_def row_state_def)

text \<open>
  C3. At most once: for every tool whose provider answers \<open>lookup\<close> truthfully, and starting
  from a key neither the ledger nor the provider knows, any sequence of \<open>run_once\<close> calls for
  the key, each of which may return, raise or die with the process, interleaved with anything
  that touches neither the key's row nor the provider, leaves the effect applied at most once;
  when the ledger says COMPLETED it was applied exactly once.
\<close>

theorem effect_applied_at_most_once:
  assumes "accounted_tool t kw key applied look" and "ledger_history t kw key applied w v"
    and "lookup_effect w key = None" and "applied w = 0"
  shows "applied v \<le> 1 \<and> (row_state v key = Some COMPLETED \<longrightarrow> applied v = 1)"
  using accounted_tool.history_accounted [OF assms(1,2)] fresh_accounted [of w key applied] assms(3,4)
  by (simp add: accounted_def)

text \<open>The IAM tool in a process that dies after the first call has been applied.\<close>

definition dying :: iam_faults where
  "dying = \<lparr>remaining_failures = 0, fail_permanently = False, crash_after_apply = True\<rparr>"

theorem effect_applied_at_most_once_witness:
  "applied_at ''iam'' ''k1'' (snd (run_once 1 ''k1'' ''r1'' ''revoke_access'' iam_tool [] (sample_world\<lparr>iam := dying\<rparr>))) \<le> 1"
proof -
  let ?w = "sample_world\<lparr>iam := dying\<rparr>"
  let ?v = "snd (run_once 1 ''k1'' ''r1'' ''revoke_access'' iam_tool [] ?w)"
  have "ledger_history iam_tool [] ''k1'' (applied_at ''iam'' ''k1'') ?w ?v"
    by (rule ledger_history.attempt [OF ledger_history.start, where r = "fst (run_once 1 ''k1'' ''r1'' ''revoke_access'' iam_tool [] ?w)"])
      (rule prod.collapse [symmetric])
  from effect_applied_at_most_once [OF iam_ledger.accounted_tool_axioms this]
  show ?thesis by (simp add: lookup_effect_def applied_at_def)
qed

lemma set_state_here:
  assumes "row_state w key \<noteq> None"
  shows "\<exists>r w'. set_state key st res w = (Inr r, w') \<and> row_state w' key = Some st \<and> only_effects w w'
    \<and> lookup_effect w' key = Some r"
  using set_state_row [OF assms, of st res] by metis

text \<open>What a call of the IAM tool that applies the revocation and dies leaves behind.\<close>

lemma iam_call_dies:
  assumes "lookup_provider w ''iam'' key = None"
    and "iam w = \<lparr>remaining_failures = 0, fail_permanently = False, crash_after_apply = True\<rparr>"
  shows "iam_call [(''employee_id'', emp), (''systems'', PList systems), (''idempotency_key'', PStr key)] w =
    (Inl (Exc SimulatedProcessDeath ''process died after IAM applied the revocation''),
     snd (provider_record ''iam'' key (iam_receipt emp systems key) w))"
proof -
  have "check_kwargs [''employee_id'', ''systems'', ''idempotency_key'']
      [(''employee_id'', emp), (''systems'', PList systems), (''idempotency_key'', PStr key)] = Inr ()"
    by (auto simp: check_kwargs_def)
  with assms show ?thesis
    by (simp add: iam_call_def eff_apply arg_def provider_record_eq)
qed

lemma run_once_reconciles:
  assumes "row_state w key = Some IN_PROGRESS" and "tool_lookup t = Some (provider_lookup p)"
    and "lookup_provider w p key = Some v"
  shows "\<exists>w'. run_once (Suc d) key rid sname t kw w = (Inr \<lparr>result = v, replayed = True, reconciled = True\<rparr>, w')
    \<and> row_state w' key = Some COMPLETED \<and> only_effects w w'"
proof -
  obtain r where row: "lookup_effect w key = Some r" "eff_state r = IN_PROGRESS"
    using assms(1) by (auto simp: row_state_def)
  obtain r' w' where "set_state key COMPLETED (Some v) w = (Inr r', w')" "row_state w' key = Some COMPLETED"
      "only_effects w w'"
    using set_state_here [of w key COMPLETED "Some v"] assms(1) by auto
  then show ?thesis using assms(2,3)
    by (simp add: run_once_in_progress [OF row] eff_apply ask_provider_def mark_completed_def)
qed

text \<open>
  C4. The worst crash is recovered from: when the process dies after the IAM provider applied
  the revocation and before the ledger could say so, the row is left IN_PROGRESS; a second
  attempt in a new process, whatever faults that one has, finds the effect at the provider,
  returns its receipt as a replay, completes the row, and applies nothing again.
\<close>

theorem crash_after_apply_is_reconciled:
  assumes "lookup_effect w key = None" and "lookup_provider w ''iam'' key = None"
    and "lookup_run w rid \<noteq> None"
    and "iam w = \<lparr>remaining_failures = 0, fail_permanently = False, crash_after_apply = True\<rparr>"
    and kw: "kw = [(''employee_id'', emp), (''systems'', PList systems)]"
    and died: "run_once (Suc d) key rid sname iam_tool kw w = (r1, w1)"
    and again: "run_once (Suc d') key rid sname iam_tool kw (w1\<lparr>iam := faults\<rparr>) = (r2, w2)"
  shows "(\<exists>m. r1 = Inl (Exc SimulatedProcessDeath m)) \<and> row_state w1 key = Some IN_PROGRESS
    \<and> r2 = Inr \<lparr>result = json_roundtrip (iam_receipt emp systems key), replayed = True, reconciled = True\<rparr>
    \<and> row_state w2 key = Some COMPLETED
    \<and> provider_tbl w2 = provider_tbl w1 \<and> applied_at ''iam'' key w2 = 1"
proof -
  let ?wa = "w\<lparr>clock_reads := Suc (clock_reads w), effects_tbl := effects_tbl w @
    [new_effect key rid sname (spec_name (spec iam_tool)) (clock w (clock_reads w))]\<rparr>"
  let ?receipt = "iam_receipt emp systems key"
  have "row_state ?wa key \<noteq> None"
    using assms(1) by (simp add: row_state_def lookup_effect_def tfind_append tfind_Cons)
  then obtain r wb where wb: "set_state key IN_PROGRESS None ?wa = (Inr r, wb)"
      "row_state wb key = Some IN_PROGRESS" "only_effects ?wa wb"
    using set_state_here by blast
  have none: "lookup_provider wb ''iam'' key = None" and faults: "iam wb = iam w"
    using wb(3) assms(2) by (simp_all add: only_effects_def lookup_provider_def)
  let ?wc = "snd (provider_record ''iam'' key ?receipt wb)"
  have r1: "r1 = Inl (Exc SimulatedProcessDeath ''process died after IAM applied the revocation'')"
    and w1: "w1 = ?wc"
    using died iam_call_dies [OF none, of emp systems] faults assms(4)
    by (auto simp: run_once_fresh [OF assms(1,3)] perform_def eff_apply mark_in_progress_def wb(1) [simplified] kw)
  have row1: "row_state w1 key = Some IN_PROGRESS" and found: "lookup_provider w1 ''iam'' key = Some (json_roundtrip ?receipt)"
    and once: "applied_at ''iam'' key w1 = 1"
    using wb(2) none applied_at_zero [of "''iam''" key wb]
    by (simp_all add: w1 row_state_def lookup_effect_def lookup_provider_record applied_at_record)
       (simp_all add: provider_record_eq)
  obtain w' where "run_once (Suc d') key rid sname iam_tool kw (w1\<lparr>iam := faults\<rparr>) =
        (Inr \<lparr>result = json_roundtrip ?receipt, replayed = True, reconciled = True\<rparr>, w')"
      "row_state w' key = Some COMPLETED" "only_effects (w1\<lparr>iam := faults\<rparr>) w'"
    using run_once_reconciles [of "w1\<lparr>iam := faults\<rparr>" key iam_tool "''iam''"] row1 found
    by (fastforce simp: row_state_def)
  then show ?thesis
    using again r1 row1 once applied_at_frame [of w2 w1] by (simp add: only_effects_def)
qed

theorem crash_after_apply_is_reconciled_witness:
  "\<exists>w1 w2 v. snd (run_once 1 ''k1'' ''r1'' ''revoke_access'' iam_tool
        [(''employee_id'', PStr ''emp-001''), (''systems'', PList [PStr ''vpn''])] (sample_world\<lparr>iam := dying\<rparr>)) = w1
    \<and> run_once 1 ''k1'' ''r1'' ''revoke_access'' iam_tool
        [(''employee_id'', PStr ''emp-001''), (''systems'', PList [PStr ''vpn''])] (w1\<lparr>iam := dying\<rparr>) = (Inr v, w2)
    \<and> replayed v \<and> applied_at ''iam'' ''k1'' w2 = 1"
proof -
  let ?kw = "[(''employee_id'', PStr ''emp-001''), (''systems'', PList [PStr ''vpn''])]"
  obtain r1 w1 where one: "run_once 1 ''k1'' ''r1'' ''revoke_access'' iam_tool ?kw (sample_world\<lparr>iam := dying\<rparr>) = (r1, w1)"
    by (meson surj_pair)
  obtain r2 w2 where two: "run_once 1 ''k1'' ''r1'' ''revoke_access'' iam_tool ?kw (w1\<lparr>iam := dying\<rparr>) = (r2, w2)"
    by (meson surj_pair)
  have "lookup_effect (sample_world\<lparr>iam := dying\<rparr>) ''k1'' = None"
      "lookup_provider (sample_world\<lparr>iam := dying\<rparr>) ''iam'' ''k1'' = None"
      "lookup_run (sample_world\<lparr>iam := dying\<rparr>) ''r1'' \<noteq> None"
      "iam (sample_world\<lparr>iam := dying\<rparr>) = \<lparr>remaining_failures = 0, fail_permanently = False, crash_after_apply = True\<rparr>"
    by (simp_all add: lookup_effect_def lookup_provider_def dying_def)
  from crash_after_apply_is_reconciled [OF this refl one [unfolded One_nat_def] two [unfolded One_nat_def]]
  show ?thesis using one two by auto
qed

section \<open>A call that works, and one that fails transiently\<close>

definition only_store :: "world \<Rightarrow> world \<Rightarrow> bool" where
  "only_store w w' \<longleftrightarrow> runs_tbl w' = runs_tbl w \<and> trace_tbl w' = trace_tbl w \<and> trace_seq w' = trace_seq w
     \<and> clock w' = clock w \<and> uuids w' = uuids w"

interpretation store_only: guarantee only_store
  by unfold_locales (auto simp: only_store_def)

lemma only_storeI: "only_effects w w' \<Longrightarrow> only_store w w'" "only_provider w w' \<Longrightarrow> only_store w w'"
  by (simp_all add: only_effects_def only_provider_def only_store_def)

text \<open>
  \<open>run_once\<close> reaches the call when the key is new, or in flight with a provider that does not
  know it.
\<close>

lemma run_once_reaches_perform:
  assumes look: "tool_lookup t = Some (provider_lookup p)" and none: "lookup_provider w p key = None"
    and row: "row_state w key = None \<and> lookup_run w rid \<noteq> None \<or> row_state w key = Some IN_PROGRESS"
  obtains w' where "run_once (Suc d) key rid sname t kw w = perform key t kw w'"
    "only_effects w w'" "row_state w' key \<noteq> None" "\<And>k. k \<noteq> key \<Longrightarrow> lookup_effect w' k = lookup_effect w k"
proof (cases "lookup_effect w key")
  case None
  with row have "lookup_run w rid \<noteq> None" by (simp add: row_state_def)
  let ?wa = "w\<lparr>clock_reads := Suc (clock_reads w), effects_tbl := effects_tbl w @
    [new_effect key rid sname (spec_name (spec t)) (clock w (clock_reads w))]\<rparr>"
  have "only_effects w ?wa" by (simp add: only_effects_def)
  moreover have "row_state ?wa key \<noteq> None" "\<And>k. k \<noteq> key \<Longrightarrow> lookup_effect ?wa k = lookup_effect w k"
    using None by (simp_all add: row_state_def lookup_effect_def tfind_append tfind_Cons split: option.splits)
  ultimately show ?thesis
    using run_once_fresh [OF None \<open>lookup_run w rid \<noteq> None\<close>, of d sname t kw] by (rule that [rotated])
next
  case (Some r)
  with row have r: "eff_state r = IN_PROGRESS" by (auto simp: row_state_def)
  have "run_once (Suc d) key rid sname t kw w = perform key t kw w"
    using look none
    by (simp add: run_once_in_progress [OF Some r] eff_apply ask_provider_def is_side_effecting_tool_def)
  then show ?thesis using Some by (intro that [of w]) (simp_all add: effects_only.rel_refl row_state_def)
qed

lemma perform_returns:
  assumes row: "row_state w key \<noteq> None"
    and call: "\<And>w1. only_effects w w1 \<Longrightarrow> \<exists>w2. tool_call t (kw @ [(''idempotency_key'', PStr key)]) w1 = (Inr v, w2)
      \<and> only_provider w1 w2 \<and> lookup_provider w2 p key = Some u \<and> applied_at p key w2 = 1"
  shows "\<exists>w'. perform key t kw w = (Inr \<lparr>result = v, replayed = False, reconciled = False\<rparr>, w')
    \<and> only_store w w' \<and> row_state w' key = Some COMPLETED \<and> lookup_provider w' p key = Some u
    \<and> applied_at p key w' = 1"
proof -
  obtain r1 w1 where one: "set_state key IN_PROGRESS None w = (Inr r1, w1)" "row_state w1 key = Some IN_PROGRESS"
      "only_effects w w1"
    using set_state_here [OF row] by blast
  obtain w2 where two: "tool_call t (kw @ [(''idempotency_key'', PStr key)]) w1 = (Inr v, w2)" "only_provider w1 w2"
      "lookup_provider w2 p key = Some u" "applied_at p key w2 = 1"
    using call [OF one(3)] by blast
  have "row_state w2 key \<noteq> None"
    using one(2) two(2) by (auto simp: row_state_def lookup_effect_def only_provider_def)
  then obtain r3 w3 where three: "set_state key COMPLETED (Some v) w2 = (Inr r3, w3)"
      "row_state w3 key = Some COMPLETED" "only_effects w2 w3"
    using set_state_here by blast
  have "perform key t kw w = (Inr \<lparr>result = v, replayed = False, reconciled = False\<rparr>, w3)"
    by (simp add: perform_def eff_apply mark_in_progress_def mark_completed_def one(1) two(1) three(1))
  moreover have "only_store w w3"
    using only_storeI(1) [OF one(3)] only_storeI(2) [OF two(2)] only_storeI(1) [OF three(3)]
    by (blast intro: store_only.rel_trans)
  ultimately show ?thesis
    using three(2,3) two(3,4) applied_at_frame [of w3 w2] by (auto simp: only_effects_def lookup_provider_def)
qed

lemma perform_fails_transiently:
  assumes row: "row_state w key \<noteq> None" and look: "tool_lookup t = Some (provider_lookup p)"
    and call: "\<And>w1. only_effects w w1 \<Longrightarrow> \<exists>m. tool_call t (kw @ [(''idempotency_key'', PStr key)]) w1 =
        (Inl (Exc TransientToolError m), f w1)"
    and f: "\<And>w1. only_effects w w1 \<Longrightarrow> only_provider w1 (f w1) \<and> lookup_provider (f w1) p key = None"
  shows "\<exists>m w1. perform key t kw w = (Inl (Exc TransientToolError m), f w1) \<and> only_effects w w1
    \<and> row_state (f w1) key = Some IN_PROGRESS"
proof -
  obtain r1 w1 where one: "set_state key IN_PROGRESS None w = (Inr r1, w1)" "row_state w1 key = Some IN_PROGRESS"
      "only_effects w w1"
    using set_state_here [OF row] by blast
  obtain m where "tool_call t (kw @ [(''idempotency_key'', PStr key)]) w1 = (Inl (Exc TransientToolError m), f w1)"
    using call [OF one(3)] by blast
  moreover have "row_state (f w1) key = Some IN_PROGRESS" "lookup_provider (f w1) p key = None"
    using one(2) f [OF one(3)] by (simp_all add: row_state_def lookup_effect_def only_provider_def)
  ultimately show ?thesis using one(1,3) look
    by (auto simp: perform_def eff_apply mark_in_progress_def ask_provider_def)
qed

subsection \<open>The IAM tool\<close>

lemma iam_kwargs [simp]: "check_kwargs [''employee_id'', ''systems'', ''idempotency_key'']
    [(''employee_id'', emp), (''systems'', s), (''idempotency_key'', PStr key)] = Inr ()"
  by (auto simp: check_kwargs_def)

lemma iam_call_works:
  assumes "lookup_provider w ''iam'' key = None" and "\<not> fail_permanently (iam w)"
    and "remaining_failures (iam w) \<le> 0" and "\<not> crash_after_apply (iam w)"
  shows "iam_call [(''employee_id'', emp), (''systems'', PList systems), (''idempotency_key'', PStr key)] w =
    (Inr (iam_receipt emp systems key), snd (provider_record ''iam'' key (iam_receipt emp systems key) w))"
  using assms by (simp add: iam_call_def eff_apply arg_def provider_record_eq)

lemma iam_call_flaky:
  assumes "lookup_provider w ''iam'' key = None" and "\<not> fail_permanently (iam w)" and "remaining_failures (iam w) > 0"
  shows "iam_call [(''employee_id'', emp), (''systems'', PList systems), (''idempotency_key'', PStr key)] w =
    (Inl (Exc TransientToolError ''iam gateway returned 503 (service unavailable)''),
     w\<lparr>iam := (iam w)\<lparr>remaining_failures := remaining_failures (iam w) - 1\<rparr>\<rparr>)"
  using assms by (simp add: iam_call_def eff_apply arg_def)

lemma provider_record_fresh:
  assumes "lookup_provider w p key = None"
  shows "lookup_provider (snd (provider_record p key v w)) p key = Some (json_roundtrip v)"
    and "applied_at p key (snd (provider_record p key v w)) = 1"
    and "only_provider w (snd (provider_record p key v w))"
  using assms applied_at_zero [of p key w] guarD [OF provider_record_only]
  by (simp_all add: lookup_provider_record applied_at_record)

lemma iam_once_works:
  assumes "lookup_provider w ''iam'' key = None" and "\<not> fail_permanently (iam w)"
    and "remaining_failures (iam w) \<le> 0" and "\<not> crash_after_apply (iam w)"
    and "row_state w key = None \<and> lookup_run w rid \<noteq> None \<or> row_state w key = Some IN_PROGRESS"
  shows "\<exists>w'. run_once (Suc d) key rid sname iam_tool [(''employee_id'', emp), (''systems'', PList systems)] w =
      (Inr \<lparr>result = iam_receipt emp systems key, replayed = False, reconciled = False\<rparr>, w')
    \<and> only_store w w' \<and> row_state w' key = Some COMPLETED
    \<and> lookup_provider w' ''iam'' key = Some (json_roundtrip (iam_receipt emp systems key))
    \<and> applied_at ''iam'' key w' = 1"
proof -
  obtain wa where wa: "run_once (Suc d) key rid sname iam_tool [(''employee_id'', emp), (''systems'', PList systems)] w =
      perform key iam_tool [(''employee_id'', emp), (''systems'', PList systems)] wa"
      "only_effects w wa" "row_state wa key \<noteq> None"
    by (rule run_once_reaches_perform [OF tool_lookups(2) assms(1,5)])
  have "\<exists>w2. tool_call iam_tool ([(''employee_id'', emp), (''systems'', PList systems)] @ [(''idempotency_key'', PStr key)]) w1 =
        (Inr (iam_receipt emp systems key), w2) \<and> only_provider w1 w2
      \<and> lookup_provider w2 ''iam'' key = Some (json_roundtrip (iam_receipt emp systems key))
      \<and> applied_at ''iam'' key w2 = 1" if "only_effects wa w1" for w1
  proof -
    have "only_effects w w1" using wa(2) that by (rule effects_only.rel_trans)
    then have none: "lookup_provider w1 ''iam'' key = None" and faults: "iam w1 = iam w"
      using assms(1) by (simp_all add: only_effects_def lookup_provider_def)
    show ?thesis
      using iam_call_works [OF none, unfolded faults, OF assms(2-4), of emp systems] provider_record_fresh [OF none]
      by simp
  qed
  from perform_returns [OF wa(3) this] obtain w' where
    "perform key iam_tool [(''employee_id'', emp), (''systems'', PList systems)] wa =
        (Inr \<lparr>result = iam_receipt emp systems key, replayed = False, reconciled = False\<rparr>, w')"
    "only_store wa w'" "row_state w' key = Some COMPLETED"
    "lookup_provider w' ''iam'' key = Some (json_roundtrip (iam_receipt emp systems key))" "applied_at ''iam'' key w' = 1"
    by blast
  then show ?thesis using wa(1) store_only.rel_trans [OF only_storeI(1) [OF wa(2)]] by auto
qed

lemma iam_once_flaky:
  assumes "lookup_provider w ''iam'' key = None" and "\<not> fail_permanently (iam w)" and "remaining_failures (iam w) > 0"
    and "row_state w key = None \<and> lookup_run w rid \<noteq> None \<or> row_state w key = Some IN_PROGRESS"
  shows "\<exists>m w'. run_once (Suc d) key rid sname iam_tool [(''employee_id'', emp), (''systems'', PList systems)] w =
      (Inl (Exc TransientToolError m), w')
    \<and> only_store w w' \<and> row_state w' key = Some IN_PROGRESS \<and> provider_tbl w' = provider_tbl w
    \<and> iam w' = (iam w)\<lparr>remaining_failures := remaining_failures (iam w) - 1\<rparr>"
proof -
  let ?f = "\<lambda>w. w\<lparr>iam := (iam w)\<lparr>remaining_failures := remaining_failures (iam w) - 1\<rparr>\<rparr>"
  obtain wa where wa: "run_once (Suc d) key rid sname iam_tool [(''employee_id'', emp), (''systems'', PList systems)] w =
      perform key iam_tool [(''employee_id'', emp), (''systems'', PList systems)] wa"
      "only_effects w wa" "row_state wa key \<noteq> None"
    by (rule run_once_reaches_perform [OF tool_lookups(2) assms(1,4)])
  have here: "lookup_provider w1 ''iam'' key = None \<and> iam w1 = iam w" if "only_effects wa w1" for w1
    using effects_only.rel_trans [OF wa(2) that] assms(1) by (simp add: only_effects_def lookup_provider_def)
  have "\<exists>m w1. perform key iam_tool [(''employee_id'', emp), (''systems'', PList systems)] wa =
      (Inl (Exc TransientToolError m), ?f w1) \<and> only_effects wa w1 \<and> row_state (?f w1) key = Some IN_PROGRESS"
  proof (rule perform_fails_transiently [OF wa(3) tool_lookups(2)])
    show "\<exists>m. tool_call iam_tool ([(''employee_id'', emp), (''systems'', PList systems)] @ [(''idempotency_key'', PStr key)]) w1 =
        (Inl (Exc TransientToolError m), ?f w1)" if "only_effects wa w1" for w1
      using iam_call_flaky [of w1 key emp systems] here [OF that] assms(2,3) by simp
    show "only_provider w1 (?f w1) \<and> lookup_provider (?f w1) ''iam'' key = None" if "only_effects wa w1" for w1
      using here [OF that] by (simp add: only_provider_def)
  qed
  then obtain m w1 where p: "perform key iam_tool [(''employee_id'', emp), (''systems'', PList systems)] wa =
      (Inl (Exc TransientToolError m), ?f w1)" "only_effects wa w1" "row_state (?f w1) key = Some IN_PROGRESS"
    by blast
  have "only_effects w w1" using wa(2) p(2) by (rule effects_only.rel_trans)
  then show ?thesis using wa(1) p by (auto simp: only_store_def only_effects_def)
qed

end
