(* ===== verification/Invariants.thy ===== *)
theory Invariants
  imports At_Most_Once
begin

text \<open>
  The invariant of the database and the one relation every operation above the repositories is
  shown to respect.  \<open>db_inv\<close> collects what a reader of the tables may rely on; \<open>safe_step\<close>
  says in addition how the tables may change: runs only evolve along the transition table, the
  trace is only extended, providers forget nothing.  It is a \<open>guarantee\<close>, so the executor, the
  nodes and the run service inherit it from their parts.
\<close>

section \<open>The invariant\<close>

text \<open>
  A run has a pause reason exactly while paused and a failure reason exactly when failed, and
  it has never taken more steps or tool calls than it was allowed, nor fewer than none.
\<close>

definition run_ok :: "run \<Rightarrow> bool" where
  "run_ok r \<longleftrightarrow> (pause_reason r \<noteq> None \<longleftrightarrow> status r = RPaused)
     \<and> (failure_reason r \<noteq> None \<longleftrightarrow> status r = RFailed)
     \<and> 0 \<le> step_count r \<and> step_count r \<le> max 0 (max_steps r)
     \<and> 0 \<le> tool_call_count r \<and> tool_call_count r \<le> max 0 (max_tool_calls r)"

text \<open>Nothing redaction would still change is stored with an attempt, pauses apart.\<close>

definition trace_redacted :: "world \<Rightarrow> bool" where
  "trace_redacted w \<longleftrightarrow> (\<forall>r \<in> set (trace_tbl w). att_status r \<noteq> SPaused \<longrightarrow> redact (detail r) = detail r)"

definition db_inv :: "world \<Rightarrow> bool" where
  "db_inv w \<longleftrightarrow> runs_wf w \<and> (\<forall>r \<in> set (runs_tbl w). run_ok r) \<and> trace_wf w \<and> trace_redacted w \<and> refs_ok w"

definition safe_step :: "world \<Rightarrow> world \<Rightarrow> bool" where
  "safe_step w w' \<longleftrightarrow> runs_evolve w w' \<and> trace_safe w w' \<and> provider_keeps w w' \<and> (db_inv w \<longrightarrow> db_inv w')"

interpretation safety: guarantee safe_step
  by unfold_locales (auto simp: safe_step_def intro: evolving.rel_refl evolving.rel_trans
      trace_keeping.rel_refl trace_keeping.rel_trans provider_keeping.rel_refl provider_keeping.rel_trans)

lemma safe_stepD:
  assumes "safe_step w w'"
  shows "runs_evolve w w'" "trace_wf w \<Longrightarrow> trace_wf w'" "trace_wf w \<Longrightarrow> trace_extends w w'"
    "provider_keeps w w'" "db_inv w \<Longrightarrow> db_inv w'"
  using assms by (auto simp: safe_step_def trace_safe_def)

lemma db_inv_run: "db_inv w \<Longrightarrow> lookup_run w rid = Some r \<Longrightarrow> run_ok r"
  by (auto simp: db_inv_def lookup_run_def dest: tfind_SomeD)

lemma empty_world_db_inv [simp]: "db_inv (empty_world c i)" and empty_world_trace_wf [simp]: "trace_wf (empty_world c i)"
  by (simp_all add: db_inv_def runs_wf_def trace_redacted_def trace_wf_def history_def refs_ok_def)

section \<open>From frames\<close>

lemma tables_same_safe:
  assumes "runs_tbl w' = runs_tbl w" "trace_tbl w' = trace_tbl w" "trace_seq w' = trace_seq w" "provider_keeps w w'" "refs_kept w w'"
  shows "safe_step w w'"
  using assms trace_wf_cong [of w' w] runs_evolve_same trace_extends_same
  by (simp add: safe_step_def trace_safe_def db_inv_def runs_wf_def trace_redacted_def refs_kept_def)

lemma only_effects_safe: "only_effects w w' \<Longrightarrow> refs_kept w w' \<Longrightarrow> safe_step w w'"
  by (rule tables_same_safe) (simp_all add: only_effects_def provider_keeps_def lookup_provider_def)

lemma only_provider_safe: "only_provider w w' \<Longrightarrow> provider_keeps w w' \<Longrightarrow> refs_kept w w' \<Longrightarrow> safe_step w w'"
  by (rule tables_same_safe) (simp_all add: only_provider_def)

lemma only_trace_safe:
  assumes "only_trace w w'" "trace_safe w w'" "db_inv w \<Longrightarrow> trace_redacted w'" "refs_kept w w'"
  shows "safe_step w w'"
  using assms runs_evolve_same [of w' w]
  by (auto simp: safe_step_def trace_safe_def only_trace_def provider_keeps_def lookup_provider_def db_inv_def runs_wf_def
      refs_kept_def)

lemma runs_evolve_refs: "only_runs w w' \<Longrightarrow> runs_evolve w w' \<Longrightarrow> refs_kept w w'"
  by (rule refs_kept_runs) (auto simp: runs_evolve_def)

lemma only_runs_safe:
  assumes "only_runs w w'" "runs_evolve w w'" "runs_wf w \<longrightarrow> runs_wf w'"
    "db_inv w \<Longrightarrow> \<forall>r \<in> set (runs_tbl w'). run_ok r"
  shows "safe_step w w'"
  using assms trace_wf_cong [of w' w] trace_extends_same [of w' w] runs_evolve_refs [OF assms(1,2)]
  by (auto simp: safe_step_def trace_safe_def only_runs_def provider_keeps_def lookup_provider_def db_inv_def
      trace_redacted_def refs_kept_def)

lemma safe_from_effects: "guar only_effects m \<Longrightarrow> guar refs_kept m \<Longrightarrow> guar safe_step m"
  by (simp add: guar_def only_effects_safe)

lemmas safe_ledger [guar_rules] =
  safe_from_effects [OF se_get_only se_get_refs]
  safe_from_effects [OF try_reserve_only try_reserve_refs]
  safe_from_effects [OF markers_only(1) markers_refs(1)]
  safe_from_effects [OF markers_only(2) markers_refs(2)]
  safe_from_effects [OF markers_only(3) markers_refs(3)]

section \<open>The trace\<close>

lemma start_attempt_safe_step [guar_rules]: "guar safe_step (start_attempt rid s tool)"
proof (rule guarI)
  fix w
  let ?w' = "snd (start_attempt rid s tool w)"
  show "safe_step w ?w'"
  proof (rule only_trace_safe)
    show "only_trace w ?w'" by (rule guarD [OF start_attempt_only_trace])
    show "trace_safe w ?w'" by (rule guarD [OF start_attempt_safe])
    show "trace_redacted ?w'" if "db_inv w"
      using start_attempt_result [of rid s tool w] that by (auto simp: db_inv_def trace_redacted_def)
    show "refs_kept w ?w'" by (rule guarD [OF start_attempt_refs])
  qed
qed

text \<open>Closing an attempt with a detail that is already redacted, or pausing with any.\<close>

lemma close_attempt_safe_step:
  assumes "st \<notin> {SRunning, SPending, SSkipped}" and "st = SPaused \<or> redact d = d"
  shows "guar safe_step (close_attempt aid st p et em (Some d) tool)"
proof (rule guarI)
  fix w
  let ?w' = "snd (close_attempt aid st p et em (Some d) tool w)"
  have json: "json_roundtrip d = d" if "redact d = d"
    using that json_roundtrip_redact [of d] by simp
  show "safe_step w ?w'"
  proof (rule only_trace_safe)
    show "only_trace w ?w'" by (rule guarD [OF close_attempt_only_trace])
    show "trace_safe w ?w'" using assms(1) by (intro guarD [OF close_attempt_safe])
    show "refs_kept w ?w'" by (rule guarD [OF close_attempt_refs])
    show "trace_redacted ?w'" if "db_inv w"
      using assms that json
      by (auto simp: close_attempt_eq trace_redacted_def db_inv_def Let_def dest!: set_tupdateD
          split: option.splits sum.splits)
  qed
qed

lemma closers_safe_step [guar_rules]:
  "redact d = d \<Longrightarrow> guar safe_step (complete_attempt aid (Some d) tool)"
  "redact d = d \<Longrightarrow> guar safe_step (fail_attempt aid et em (Some d))"
  "guar safe_step (pause_attempt aid pr (Some d))"
  by (simp_all add: close_defs close_attempt_safe_step)

text \<open>Closing without a detail keeps the one the row has, which an open row has redacted.\<close>

lemma close_attempt_None_safe:
  assumes st: "st \<notin> {SRunning, SPending, SSkipped, SPaused}"
    and open_row: "trace_wf w \<Longrightarrow> \<exists>r. tfind att_id aid (trace_tbl w) = Some r \<and> att_status r \<noteq> SPaused"
  shows "safe_step w (snd (close_attempt aid st p et em None tool w))" (is "safe_step w ?w'")
proof (rule only_trace_safe)
  show "only_trace w ?w'" by (rule guarD [OF close_attempt_only_trace])
  show "trace_safe w ?w'" using st by (intro guarD [OF close_attempt_safe]) auto
  show "refs_kept w ?w'" by (rule guarD [OF close_attempt_refs])
  show "trace_redacted ?w'" if inv: "db_inv w"
  proof -
    have wf: "trace_wf w" using inv by (simp add: db_inv_def)
    obtain r where r: "tfind att_id aid (trace_tbl w) = Some r" "att_status r \<noteq> SPaused"
      using open_row [OF wf] by blast
    have only: "x = r" if "x \<in> set (trace_tbl w)" "att_id x = aid" for x
      using trace_wf_find [OF wf that(1)] that(2) r(1) by simp
    have "redact (detail r) = detail r"
      using inv r tfind_SomeD [OF r(1)] by (auto simp: db_inv_def trace_redacted_def)
    then show ?thesis using inv only r(1)
      by (auto simp: close_attempt_eq trace_redacted_def db_inv_def Let_def dest!: set_tupdateD split: sum.splits)
  qed
qed

section \<open>Runs\<close>

lemma set_status_safe_step [guar_rules]:
  assumes "p \<noteq> None \<longleftrightarrow> t = RPaused" and "f \<noteq> None \<longleftrightarrow> t = RFailed"
  shows "guar safe_step (set_status rid t p f d)"
proof (rule guarI)
  fix w
  let ?w' = "snd (set_status rid t p f d w)"
  show "safe_step w ?w'"
  proof (rule only_runs_safe)
    show "only_runs w ?w'" by (rule guarD [OF set_status_only_runs])
    show "runs_evolve w ?w'" by (rule guarD [OF set_status_evolve])
    show "runs_wf w \<longrightarrow> runs_wf ?w'" using set_status_wf by (rule guarD)
    show "\<forall>r \<in> set (runs_tbl ?w'). run_ok r" if inv: "db_inv w"
    proof
      fix r assume r: "r \<in> set (runs_tbl ?w')"
      show "run_ok r"
      proof (cases "lookup_run w rid")
        case None
        then show ?thesis using r inv by (simp add: set_status_eq db_inv_def)
      next
        case (Some r0)
        show ?thesis
        proof (cases "transition_run (status r0) t")
          case (Inl e)
          then show ?thesis using r inv Some by (simp add: set_status_eq db_inv_def)
        next
          case (Inr u)
          have only: "x = r0" if "x \<in> set (runs_tbl w)" "run_id x = rid" for x
            using tfind_unique [of run_id "runs_tbl w" x] that Some inv
            by (simp add: db_inv_def runs_wf_def lookup_run_def)
          have "status r0 \<noteq> RFailed" using transition_run_target [OF Inr] by (auto simp: is_terminal_iff)
          then have "failure_reason r0 = None" using db_inv_run [OF inv Some] by (simp add: run_ok_def)
          then show ?thesis
            using r inv only Some Inr assms
            by (auto simp: set_status_eq Let_def db_inv_def run_ok_def coalesce_def dest!: set_tupdateD
                split: option.splits)
        qed
      qed
    qed
  qed
qed

lemma request_cancel_safe_step [guar_rules]: "guar safe_step (request_cancel rid)"
proof (rule guarI)
  fix w
  let ?w' = "snd (request_cancel rid w)"
  show "safe_step w ?w'"
  proof (rule only_runs_safe)
    show "only_runs w ?w'" by (rule guarD [OF request_cancel_only_runs])
    show "runs_evolve w ?w'" by (rule guarD [OF request_cancel_evolve])
    show "runs_wf w \<longrightarrow> runs_wf ?w'" using request_cancel_wf by (rule guarD)
    show "\<forall>r \<in> set (runs_tbl ?w'). run_ok r" if inv: "db_inv w"
      using inv by (auto simp: request_cancel_eq db_inv_def run_ok_def Let_def dest!: set_tupdateD
          split: option.splits)
  qed
qed

lemma runs_get_safe_step [guar_rules]: "guar safe_step (runs_get rid)"
  by (auto simp: guar_def runs_get_eq safety.rel_refl split: option.splits)

text \<open>Counting a step or a call that the run's allowance covers.\<close>

lemma bump_counters_safe:
  assumes "lookup_run w rid = Some r" and "0 \<le> a" "0 \<le> b"
    and "a = 0 \<or> step_count r + a \<le> max_steps r" "b = 0 \<or> tool_call_count r + b \<le> max_tool_calls r"
  shows "safe_step w (snd (bump_counters rid a b w))" (is "safe_step w ?w'")
proof (rule only_runs_safe)
  show "only_runs w ?w'" by (rule guarD [OF bump_counters_only_runs])
  show "runs_evolve w ?w'" using assms(2,3) by (intro guarD [OF bump_counters_evolve])
  show "runs_wf w \<longrightarrow> runs_wf ?w'" using bump_counters_wf by (rule guarD)
  show "\<forall>r \<in> set (runs_tbl ?w'). run_ok r" if inv: "db_inv w"
  proof -
    have "x = r" if "x \<in> set (runs_tbl w)" "run_id x = rid" for x
      using tfind_unique [of run_id "runs_tbl w" x] that assms(1) inv
      by (simp add: db_inv_def runs_wf_def lookup_run_def)
    then show ?thesis using inv assms
      by (auto simp: bump_counters_eq Let_def db_inv_def run_ok_def dest!: set_tupdateD)
  qed
qed

section \<open>Tools and the ledger\<close>

text \<open>What the executor relies on from a registry: its tools leave the orchestrator's tables alone.\<close>

definition tools_safe :: "registry \<Rightarrow> bool" where
  "tools_safe reg \<longleftrightarrow> (\<forall>name t. map_of reg name = Some t \<longrightarrow>
     (\<forall>kw. guar only_provider (tool_call t kw) \<and> guar provider_keeps (tool_call t kw) \<and> guar refs_kept (tool_call t kw))
     \<and> (\<forall>look key. tool_lookup t = Some look \<longrightarrow>
          guar only_provider (look key) \<and> guar provider_keeps (look key) \<and> guar refs_kept (look key)))"

lemma app_lookups: "t \<in> set APP_TOOLS \<Longrightarrow> tool_lookup t = Some look \<Longrightarrow> \<exists>p. look = provider_lookup p"
  by (auto simp: APP_TOOLS_def)

lemma app_tools_safe: "tools_safe app_registry"
proof -
  have "guar only_provider (tool_call t kw)" "guar provider_keeps (tool_call t kw)" "guar refs_kept (tool_call t kw)"
      "tool_lookup t = Some look \<Longrightarrow> guar only_provider (look key) \<and> guar provider_keeps (look key) \<and> guar refs_kept (look key)"
    if "map_of app_registry name = Some t" for name t kw look key
    using app_tools_guar [OF app_registry_tools [OF that]] app_tools_refs [OF app_registry_tools [OF that]] app_lookups [OF app_registry_tools [OF that], of look]
    by (auto intro: guar_rules)
  then show ?thesis unfolding tools_safe_def by blast
qed

lemma tools_safeD:
  assumes "tools_safe reg" "map_of reg name = Some t"
  shows "guar safe_step (tool_call t kw)" "tool_lookup t = Some look \<Longrightarrow> guar safe_step (look key)"
  using assms unfolding tools_safe_def guar_def by (blast intro: only_provider_safe)+

lemma ledger_safe_step:
  assumes call: "\<And>kw. guar safe_step (tool_call t kw)"
    and look: "\<And>look k. tool_lookup t = Some look \<Longrightarrow> guar safe_step (look k)"
  shows "guar safe_step (perform key t kw)" and "guar safe_step (run_once depth key rid sname t kw)"
proof -
  have ask: "guar safe_step (ask_provider t key)" for key
    using look by (auto simp: ask_provider_def intro!: safety.guar_intros split: option.splits)
  note rules = safety.guar_intros guar_rules ask call
  show perf: "guar safe_step (perform key t kw)" for key kw
    unfolding perform_def by (auto intro!: rules split: option.splits)
  show "guar safe_step (run_once depth key rid sname t kw)"
  proof (induction depth)
    case 0
    show ?case by (simp add: guar_def safety.rel_refl)
  next
    case (Suc depth)
    then show ?case
      by (auto simp: run_once.simps(2) resume_existing_def intro!: rules perf split: option.splits)
  qed
qed

end
