(* ===== verification/Executor.thy ===== *)
theory Executor
  imports Invariants Complex_Main
begin

text \<open>
  \<open>tools/executor.py\<close>: the one place that invokes a tool, under allowlist, budget, ledger,
  retry and trace.  The retry loop is driven by the \<open>tenacity\<close> library, which is a parameter:
  \<open>after_failure p n e\<close> is what the library does when attempt number \<open>n\<close> raised \<open>e\<close> under the
  settings \<open>p\<close>, \<open>None\<close> for another attempt, \<open>Some e'\<close> for leaving the loop with \<open>e'\<close>.  What the
  executor relies on is \<open>retries_as_documented\<close>.  The sleep between attempts has no effect on
  the state and is not modelled.
\<close>

section \<open>Definitions\<close>

record retry_policy =
  max_attempts :: int
  initial_backoff :: rat
  multiplier :: rat
  max_backoff :: rat

definition default_policy :: retry_policy where
  "default_policy = \<lparr>max_attempts = 3, initial_backoff = 1/5, multiplier = 2, max_backoff = 5\<rparr>"

text \<open>The settings of a \<open>tenacity.Retrying\<close>.\<close>

record retrying =
  stop_after :: int
  wait_multiplier :: rat
  wait_base :: rat
  wait_max :: rat
  retry_on :: exc_class
  reraise :: bool

definition build :: "retry_policy \<Rightarrow> retrying" where
  "build p = \<lparr>stop_after = max_attempts p, wait_multiplier = initial_backoff p,
     wait_base = multiplier p, wait_max = max_backoff p, retry_on = TransientToolError, reraise = True\<rparr>"

type_synonym tenacity = "retrying \<Rightarrow> nat \<Rightarrow> exc \<Rightarrow> exc option"

text \<open>
  The documented behaviour of \<open>Retrying(stop=stop_after_attempt(m), retry=
  retry_if_exception_type(c), reraise=True)\<close>: an exception of class \<open>c\<close> is retried until \<open>m\<close>
  attempts were made, and the exception that ends the loop is raised as it is.
\<close>

definition retries_as_documented :: "tenacity \<Rightarrow> bool" where
  "retries_as_documented after_failure \<longleftrightarrow> (\<forall>p n e. reraise p \<longrightarrow>
     after_failure p n e = (if is_instance e (retry_on p) \<and> int n < stop_after p then None else Some e))"

record executor =
  ex_registry :: registry
  ex_policy :: retry_policy
  ex_tenacity :: tenacity

record execution_result =
  exec_result :: pyval
  exec_attempts :: nat
  exec_replayed :: bool
  exec_reconciled :: bool

definition trace_refusal :: "string \<Rightarrow> string \<Rightarrow> string \<Rightarrow> exc \<Rightarrow> unit py" where
  "trace_refusal rid sname tname e =
     mbind (start_attempt rid sname (Some tname)) (\<lambda>row.
     mseq (fail_attempt (att_id row) (type_name e) (exc_message e)
             (Some (PDict [(''retryable'', PBool False), (''guardrail'', PBool True)])))
     (ret ()))"

definition budget_exceeded :: "run \<Rightarrow> exc" where
  "budget_exceeded r = Exc BudgetExceeded
     (''run '' @ run_id r @ '' has used its '' @ show_int (max_tool_calls r) @ '' tool calls'')"

definition check_budget :: "string \<Rightarrow> string \<Rightarrow> string \<Rightarrow> unit py" where
  "check_budget rid sname tname =
     mbind (runs_get rid) (\<lambda>r.
       if tool_call_count r \<ge> max_tool_calls r
       then mseq (trace_refusal rid sname tname (budget_exceeded r)) (raise (budget_exceeded r))
       else ret ())"

text \<open>The call itself, through the ledger when the tool has a side effect.\<close>

definition invoke_tool ::
  "string \<Rightarrow> string \<Rightarrow> tool \<Rightarrow> kwargs \<Rightarrow> string option \<Rightarrow> (pyval \<times> bool \<times> bool) py" where
  "invoke_tool rid sname t kw operation =
     (if side_effecting (spec t)
      then mbind (run_once RECURSION_LIMIT
                    (build_key rid sname (case operation of None \<Rightarrow> [] | Some s \<Rightarrow> s)) rid sname t kw)
             (\<lambda>outcome. ret (result outcome, replayed outcome, reconciled outcome))
      else mbind (tool_call t kw) (\<lambda>v. ret (v, False, False)))"

definition transient_detail :: "nat \<Rightarrow> int \<Rightarrow> pyval" where
  "transient_detail n m = PDict [(''retryable'', PBool True), (''attempt'', PInt (int n)), (''max_attempts'', PInt m)]"

definition permanent_detail :: "nat \<Rightarrow> pyval" where
  "permanent_detail n = PDict [(''retryable'', PBool False), (''attempt'', PInt (int n))]"

definition success_detail :: "nat \<Rightarrow> bool \<Rightarrow> bool \<Rightarrow> pyval \<Rightarrow> pyval" where
  "success_detail n repl reco v = PDict [(''attempt'', PInt (int n)), (''replayed'', PBool repl),
     (''reconciled'', PBool reco), (''result'', v)]"

text \<open>One attempt: the body of the \<open>with attempt:\<close> block after the budget check.\<close>

definition call_and_close ::
  "executor \<Rightarrow> string \<Rightarrow> string \<Rightarrow> tool \<Rightarrow> kwargs \<Rightarrow> string option \<Rightarrow> nat \<Rightarrow> nat \<Rightarrow> execution_result py" where
  "call_and_close ex rid sname t kw operation n aid =
     mtry (invoke_tool rid sname t kw operation)
       (\<lambda>e. if is_instance e TransientToolError
            then mseq (fail_attempt aid (type_name e) (exc_message e)
                         (Some (transient_detail n (max_attempts (ex_policy ex))))) (raise e)
            else if is_instance e PermanentToolError \<or> is_instance e SideEffectReconciliationRequired
            then mseq (fail_attempt aid (type_name e) (exc_message e) (Some (permanent_detail n))) (raise e)
            else raise e)
       (\<lambda>(v, repl, reco).
            mseq (complete_attempt aid (Some (redact (success_detail n repl reco v))) None)
            (ret \<lparr>exec_result = v, exec_attempts = n, exec_replayed = repl, exec_reconciled = reco\<rparr>))"

definition run_attempt ::
  "executor \<Rightarrow> string \<Rightarrow> string \<Rightarrow> string \<Rightarrow> tool \<Rightarrow> kwargs \<Rightarrow> string option \<Rightarrow> nat \<Rightarrow> execution_result py" where
  "run_attempt ex rid sname tname t kw operation n =
     mseq (check_budget rid sname tname)
     (mbind (start_attempt rid sname (Some tname)) (\<lambda>row.
      mseq (bump_counters rid 0 1)
      (call_and_close ex rid sname t kw operation n (att_id row))))"

text \<open>
  The \<open>for attempt in retrying\<close> loop; the first argument bounds the attempts still made, and
  running out of it is the \<open>AssertionError\<close> behind the loop.
\<close>

fun attempt_loop :: "nat \<Rightarrow> tenacity \<Rightarrow> retrying \<Rightarrow> (nat \<Rightarrow> 'a py) \<Rightarrow> nat \<Rightarrow> 'a py" where
  "attempt_loop 0 after_failure p body n = raise (Exc AssertionError ''retry loop exited without result'')"
| "attempt_loop (Suc fuel) after_failure p body n =
     mtry (body n)
       (\<lambda>e. case after_failure p n e of
          None \<Rightarrow> attempt_loop fuel after_failure p body (Suc n)
        | Some e' \<Rightarrow> raise e')
       ret"

definition needs_operation :: "string \<Rightarrow> exc" where
  "needs_operation tname = Exc ValueError
     (''tool '' @ repr_str tname @ '' is side-effecting and requires an operation name for its idempotency key'')"

definition loop_bound :: "retry_policy \<Rightarrow> nat" where
  "loop_bound p = nat (max 1 (max_attempts p))"

definition execute ::
  "executor \<Rightarrow> string \<Rightarrow> string \<Rightarrow> string \<Rightarrow> string set \<Rightarrow> kwargs \<Rightarrow> string option \<Rightarrow> execution_result py" where
  "execute ex rid sname tname allowlist kw operation =
     (case resolve (ex_registry ex) tname allowlist of
        Inl e \<Rightarrow> if is_instance e ToolNotAllowed
                 then mseq (trace_refusal rid sname tname e) (raise e) else raise e
      | Inr t \<Rightarrow>
          if side_effecting (spec t) \<and> operation = None then raise (needs_operation tname)
          else attempt_loop (loop_bound (ex_policy ex)) (ex_tenacity ex) (build (ex_policy ex))
                 (run_attempt ex rid sname tname t kw operation) 1)"

section \<open>The loop ends\<close>

lemma build_simps [simp]: "stop_after (build p) = max_attempts p" "retry_on (build p) = TransientToolError"
  "reraise (build p)"
  by (simp_all add: build_def)

lemma after_failure_build:
  "retries_as_documented af \<Longrightarrow> af (build p) n e =
    (if is_instance e TransientToolError \<and> int n < max_attempts p then None else Some e)"
  by (simp add: retries_as_documented_def)

text \<open>\<open>max_attempts\<close> attempts are enough: with at least as much fuel the loop does not depend on it.\<close>

lemma attempt_loop_fuel:
  assumes doc: "retries_as_documented af"
  shows "n \<ge> 1 \<Longrightarrow> max_attempts p \<le> int (n + fuel) \<Longrightarrow>
    attempt_loop (Suc fuel + extra) af (build p) body n = attempt_loop (Suc fuel) af (build p) body n"
proof (induction fuel arbitrary: n)
  case 0
  then have "af (build p) n e = Some e" for e by (simp add: after_failure_build [OF doc])
  then show ?case by simp
next
  case (Suc fuel)
  have "attempt_loop (Suc fuel + extra) af (build p) body (Suc n) = attempt_loop (Suc fuel) af (build p) body (Suc n)"
    using Suc.prems by (intro Suc.IH) auto
  then show ?case
    by (simp add: after_failure_build [OF doc] del: attempt_loop.simps add: attempt_loop.simps(2) [of "Suc fuel"]
        attempt_loop.simps(2) [of "Suc (fuel + extra)"] cong: option.case_cong)
qed

section \<open>Every execution is safe\<close>

lemma refusal_safe [guar_rules]: "guar safe_step (trace_refusal rid sname tname e)"
proof -
  have "redact (PDict [(''retryable'', PBool False), (''guardrail'', PBool True)]) =
      PDict [(''retryable'', PBool False), (''guardrail'', PBool True)]"
    by code_simp
  then show ?thesis unfolding trace_refusal_def by (intro safety.guar_intros guar_rules)
qed

lemma check_budget_safe [guar_rules]: "guar safe_step (check_budget rid sname tname)"
  unfolding check_budget_def by (auto intro!: safety.guar_intros guar_rules)

lemma key_sensitive:
  "\<not> is_sensitive ''retryable''" "\<not> is_sensitive ''attempt''" "\<not> is_sensitive ''max_attempts''"
  "\<not> is_sensitive ''replayed''" "\<not> is_sensitive ''reconciled''" "\<not> is_sensitive ''result''"
  by code_simp+

lemma details_redacted [simp]: "redact (transient_detail n m) = transient_detail n m"
  "redact (permanent_detail n) = permanent_detail n"
  by (simp_all add: transient_detail_def permanent_detail_def key_sensitive)

lemma redact_redact [simp]: "redact (redact v) = redact v"
  using redact_fixed_iff [of "redact v"] masked_redact no_tuple_redact by blast

lemma invoke_tool_safe:
  assumes "tools_safe reg" "map_of reg name = Some t"
  shows "guar safe_step (invoke_tool rid sname t kw operation)"
proof -
  note tool = tools_safeD [OF assms]
  have "guar safe_step (run_once depth key rid sname t kw)" for depth key
    by (rule ledger_safe_step(2)) (rule tool, erule tool)
  then show ?thesis unfolding invoke_tool_def by (auto intro!: safety.guar_intros tool)
qed

lemma call_and_close_safe:
  assumes "tools_safe reg" "map_of reg name = Some t"
  shows "guar safe_step (call_and_close ex rid sname t kw operation n aid)"
  unfolding call_and_close_def
  by (auto intro!: safety.guar_intros guar_rules invoke_tool_safe [OF assms])

lemma check_budget_Inr: "check_budget rid sname tname w = (Inr u, w') \<longleftrightarrow>
    w' = w \<and> (\<exists>r. lookup_run w rid = Some r \<and> tool_call_count r < max_tool_calls r)"
  by (auto simp: check_budget_def eff_apply runs_get_eq split: option.splits sum.splits prod.splits if_splits)

lemma start_attempt_same_runs: "lookup_run (snd (start_attempt rid s tool w)) = lookup_run w"
  using guarD [OF start_attempt_only_trace, of w rid s tool] by (auto simp: only_trace_def lookup_run_def fun_eq_iff)

lemma run_attempt_safe:
  assumes "tools_safe reg" "map_of reg name = Some t"
  shows "guar safe_step (run_attempt ex rid sname tname t kw operation n)"
proof (rule guarI)
  fix w
  note close = call_and_close_safe [OF assms, of ex rid sname kw operation n, THEN guarD]
  obtain rb wb where b: "check_budget rid sname tname w = (rb, wb)" by (meson surj_pair)
  have wb: "safe_step w wb" using guarD' [OF check_budget_safe b] .
  show "safe_step w (snd (run_attempt ex rid sname tname t kw operation n w))"
  proof (cases rb)
    case (Inl e)
    then show ?thesis using b wb by (simp add: run_attempt_def mseq_apply)
  next
    case (Inr u)
    with b obtain r where r: "wb = w" "lookup_run w rid = Some r" "tool_call_count r < max_tool_calls r"
      using check_budget_Inr by metis
    obtain rs ws where s: "start_attempt rid sname (Some tname) w = (rs, ws)" by (meson surj_pair)
    have ws: "safe_step w ws" using guarD' [OF start_attempt_safe_step s] .
    show ?thesis
    proof (cases rs)
      case (Inl e)
      then show ?thesis using b s r ws Inr by (simp add: run_attempt_def eff_apply)
    next
      case (Inr row)
      obtain rc wc where c: "bump_counters rid 0 1 ws = (rc, wc)" by (meson surj_pair)
      have found: "lookup_run ws rid = Some r"
        using start_attempt_same_runs [of rid sname "Some tname" w] s r(2) by simp
      have "safe_step ws wc"
        using bump_counters_safe [OF found, of 0 1] r(3) c by simp
      moreover have "safe_step wc (snd (call_and_close ex rid sname t kw operation n (att_id row) wc))"
        by (rule close)
      moreover obtain r' where "rc = Inr r'" using c found by (auto simp: bump_counters_eq Let_def)
      ultimately show ?thesis
        using b s r ws Inr \<open>rb = Inr u\<close> c
        by (auto simp: run_attempt_def eff_apply intro: safety.rel_trans)
    qed
  qed
qed

lemma attempt_loop_safe: "(\<And>n. guar safe_step (body n)) \<Longrightarrow> guar safe_step (attempt_loop fuel af p body n)"
proof (induction fuel arbitrary: n)
  case 0
  then show ?case by (simp add: guar_def safety.rel_refl)
next
  case (Suc fuel)
  then show ?case by (auto intro!: safety.guar_intros split: option.splits)
qed

lemma execute_safe [guar_rules]:
  assumes "tools_safe (ex_registry ex)"
  shows "guar safe_step (execute ex rid sname tname allow kw operation)"
proof (cases "resolve (ex_registry ex) tname allow")
  case (Inl e)
  then show ?thesis by (auto simp: execute_def intro!: safety.guar_intros guar_rules)
next
  case (Inr t)
  then have "map_of (ex_registry ex) tname = Some t" by (simp add: resolve_Inr_iff)
  with Inr show ?thesis
    by (auto simp: execute_def intro!: safety.guar_intros attempt_loop_safe run_attempt_safe [OF assms])
qed

section \<open>Refusals\<close>

lemma trace_refusal_run:
  assumes wf: "trace_wf w" and run: "lookup_run w rid \<noteq> None"
  obtains row w' where "trace_refusal rid sname tname e w = (Inr (), w')" "trace_tbl w' = trace_tbl w @ [row]"
    "att_step row = sname" "att_status row = SFailed" "error_type row = Some (type_name e)"
    "tool_invoked row = Some tname" "only_trace w w'" "trace_wf w'"
proof -
  obtain row w1 where start: "start_attempt rid sname (Some tname) w = (Inr row, w1)"
    "trace_tbl w1 = trace_tbl w @ [row]" "att_step row = sname" "att_status row = SRunning"
    "tool_invoked row = Some tname" "trace_wf w1" "only_trace w w1"
    by (rule start_attempt_opens [OF wf run])
  let ?d = "PDict [(''retryable'', PBool False), (''guardrail'', PBool True)]"
  have "SFailed \<in> {SCompleted, SFailed, SPaused}" by simp
  from close_last_row [OF start(6,2,4) this] obtain row' n where close:
    "close_attempt (att_id row) SFailed None (Some (type_name e)) (Some (exc_message e)) (Some ?d) None w1 =
      (Inr row', w1\<lparr>clock_reads := n, trace_tbl := trace_tbl w @ [row']\<rparr>)"
    "\<exists>t. row' = close_row SFailed None (Some (type_name e)) (Some (exc_message e)) (Some ?d) None t row"
    "trace_wf (w1\<lparr>clock_reads := n, trace_tbl := trace_tbl w @ [row']\<rparr>)"
    by blast
  let ?w' = "w1\<lparr>clock_reads := n, trace_tbl := trace_tbl w @ [row']\<rparr>"
  have "trace_refusal rid sname tname e w = (Inr (), ?w')"
    using start(1) close(1) by (simp add: trace_refusal_def eff_apply fail_attempt_def)
  moreover have "att_step row' = sname" "att_status row' = SFailed" "error_type row' = Some (type_name e)"
      "tool_invoked row' = Some tname"
    using close(2) start(3,5) by auto
  moreover have "only_trace w ?w'" using start(7) by (simp add: only_trace_def)
  ultimately show ?thesis using close(3) by (intro that [of ?w' row']) simp_all
qed

text \<open>
  C18. The allowlist holds: a step that names a tool outside its allowlist, or one no registry
  entry has, gets \<open>ToolNotAllowed\<close>; no tool is called and no budget spent (runs, ledger,
  providers and faults are as before), and the refusal is one failed attempt in the trace.
\<close>

theorem tool_outside_allowlist_is_refused:
  assumes "tname \<notin> allow \<or> map_of (ex_registry ex) tname = None"
    and "trace_wf w" and "lookup_run w rid \<noteq> None"
  shows "\<exists>e w' row. execute ex rid sname tname allow kw operation w = (Inl e, w')
    \<and> exc_class_of e = ToolNotAllowed \<and> only_trace w w' \<and> trace_tbl w' = trace_tbl w @ [row]
    \<and> att_step row = sname \<and> att_status row = SFailed \<and> error_type row = Some ''ToolNotAllowed''
    \<and> tool_invoked row = Some tname"
proof -
  have "\<not> resolve (ex_registry ex) tname allow = Inr t" for t
    using assms(1) by (auto simp: resolve_Inr_iff)
  then obtain e where e: "resolve (ex_registry ex) tname allow = Inl e"
    by (cases "resolve (ex_registry ex) tname allow") auto
  then have cls: "exc_class_of e = ToolNotAllowed" by (rule resolve_InlD)
  obtain row w' where "trace_refusal rid sname tname e w = (Inr (), w')" "trace_tbl w' = trace_tbl w @ [row]"
    "att_step row = sname" "att_status row = SFailed" "error_type row = Some (type_name e)"
    "tool_invoked row = Some tname" "only_trace w w'"
    by (rule trace_refusal_run [OF assms(2,3)])
  then show ?thesis
    using e cls by (simp add: execute_def mseq_apply is_instance_def type_name_def)
qed

lemma check_budget_spent:
  assumes "lookup_run w rid = Some r" and "max_tool_calls r \<le> tool_call_count r" and "trace_wf w"
  obtains row w' where "check_budget rid sname tname w = (Inl (budget_exceeded r), w')"
    "trace_tbl w' = trace_tbl w @ [row]" "att_status row = SFailed" "error_type row = Some ''BudgetExceeded''"
    "only_trace w w'" "trace_wf w'"
proof -
  have "lookup_run w rid \<noteq> None" using assms(1) by simp
  from assms(3) this obtain row w' where ref: "trace_refusal rid sname tname (budget_exceeded r) w = (Inr (), w')"
    "trace_tbl w' = trace_tbl w @ [row]" "att_status row = SFailed"
    "error_type row = Some (type_name (budget_exceeded r))" "only_trace w w'" "trace_wf w'"
    by (rule trace_refusal_run)
  have "check_budget rid sname tname w = (Inl (budget_exceeded r), w')"
    using assms(1,2) ref(1) by (simp add: check_budget_def eff_apply runs_get_eq)
  with ref(2-6) show ?thesis by (intro that) (simp_all add: type_name_def budget_exceeded_def)
qed

text \<open>
  C21. The tool-call allowance holds: once a run has made as many calls as it may, a call is
  refused with \<open>BudgetExceeded\<close> before anything is called or counted, at once and without a
  retry, and the refusal is one failed attempt in the trace.
\<close>

theorem spent_budget_refuses_the_call:
  assumes "lookup_run w rid = Some r" and "max_tool_calls r \<le> tool_call_count r" and "trace_wf w"
    and "resolve (ex_registry ex) tname allow = Inr t" and "side_effecting (spec t) \<longrightarrow> operation \<noteq> None"
    and "retries_as_documented (ex_tenacity ex)"
  shows "\<exists>w' row. execute ex rid sname tname allow kw operation w = (Inl (budget_exceeded r), w')
    \<and> exc_class_of (budget_exceeded r) = BudgetExceeded
    \<and> only_trace w w' \<and> trace_tbl w' = trace_tbl w @ [row] \<and> att_status row = SFailed
    \<and> error_type row = Some ''BudgetExceeded''"
proof -
  obtain row w' where c: "check_budget rid sname tname w = (Inl (budget_exceeded r), w')"
    "trace_tbl w' = trace_tbl w @ [row]" "att_status row = SFailed" "error_type row = Some ''BudgetExceeded''"
    "only_trace w w'"
    by (rule check_budget_spent [OF assms(1-3)])
  have cls: "exc_class_of (budget_exceeded r) = BudgetExceeded" by (simp add: budget_exceeded_def)
  obtain b where b: "loop_bound (ex_policy ex) = Suc b" by (cases "loop_bound (ex_policy ex)") (simp_all add: loop_bound_def)
  have "ex_tenacity ex (build (ex_policy ex)) 1 (budget_exceeded r) = Some (budget_exceeded r)"
    using cls by (simp add: after_failure_build [OF assms(6)] is_instance_def)
  then have "execute ex rid sname tname allow kw operation w = (Inl (budget_exceeded r), w')"
    using assms(4,5) c(1) by (auto simp: execute_def b run_attempt_def eff_apply)
  with c cls show ?thesis by auto
qed

section \<open>Retries\<close>

text \<open>The outcome of the loop is the outcome of one of its attempts.\<close>

lemma attempt_loop_outcome:
  assumes doc: "retries_as_documented af"
  shows "max_attempts p \<le> int (n + fuel) \<Longrightarrow> n \<ge> 1 \<Longrightarrow>
    \<exists>k u. n \<le> k \<and> (k = n \<or> int k \<le> max_attempts p) \<and> attempt_loop (Suc fuel) af (build p) body n w = body k u"
proof (induction fuel arbitrary: n w)
  case 0
  then show ?case
    by (intro exI [of _ n] exI [of _ w])
      (auto simp: eff_apply after_failure_build [OF doc] split: prod.splits sum.splits)
next
  case (Suc fuel)
  obtain r w' where body: "body n w = (r, w')" by (meson surj_pair)
  consider (again) e where "r = Inl e" "is_instance e TransientToolError" "int n < max_attempts p"
    | (stop) "attempt_loop (Suc (Suc fuel)) af (build p) body n w = body n w"
  proof (cases "\<exists>e. r = Inl e \<and> is_instance e TransientToolError \<and> int n < max_attempts p")
    case True
    then show ?thesis using again by blast
  next
    case False
    then have "attempt_loop (Suc (Suc fuel)) af (build p) body n w = body n w"
      using body
      by (cases r) (auto simp: attempt_loop.simps(2) [of "Suc fuel"] eff_apply after_failure_build [OF doc]
        simp del: attempt_loop.simps)
    then show ?thesis by (rule stop)
  qed
  then show ?case
  proof cases
    case again
    have "max_attempts p \<le> int (Suc n + fuel)" "Suc n \<ge> 1" using Suc.prems by auto
    from Suc.IH [OF this, of w'] obtain k u where k: "Suc n \<le> k" "k = Suc n \<or> int k \<le> max_attempts p"
        "attempt_loop (Suc fuel) af (build p) body (Suc n) w' = body k u"
      by blast
    have "attempt_loop (Suc (Suc fuel)) af (build p) body n w = body k u"
      using body again k(3) by (simp add: attempt_loop.simps(2) [of "Suc fuel"] eff_apply after_failure_build [OF doc]
        del: attempt_loop.simps)
    with k again(3) show ?thesis by (intro exI [of _ k] exI [of _ u]) auto
  next
    case stop
    then show ?thesis by (intro exI [of _ n] exI [of _ w]) simp
  qed
qed

text \<open>
  C22. The retry loop ends within the policy: for every setting of \<open>max_attempts\<close> and whatever
  the attempts do, the loop returns or raises what one of its attempts numbered from 1 to
  \<open>max 1 max_attempts\<close> returned or raised, and allowing it more rounds changes nothing: the
  \<open>AssertionError\<close> behind the loop is unreachable.
\<close>

theorem retry_loop_ends:
  assumes "retries_as_documented af"
  shows "attempt_loop (loop_bound p + extra) af (build p) body 1 w = attempt_loop (loop_bound p) af (build p) body 1 w
    \<and> (\<exists>k u. 1 \<le> k \<and> k \<le> loop_bound p \<and> attempt_loop (loop_bound p) af (build p) body 1 w = body k u)"
proof -
  obtain b where b: "loop_bound p = Suc b" by (cases "loop_bound p") (simp_all add: loop_bound_def)
  then have bound: "max_attempts p \<le> int (1 + b)" by (simp add: loop_bound_def)
  have "attempt_loop (Suc b + extra) af (build p) body 1 = attempt_loop (Suc b) af (build p) body 1"
    by (rule attempt_loop_fuel [OF assms _ bound]) simp
  moreover obtain k u where "1 \<le> k" "k = 1 \<or> int k \<le> max_attempts p"
      "attempt_loop (Suc b) af (build p) body 1 w = body k u"
    using attempt_loop_outcome [OF assms bound, of body w] by auto
  moreover have "k \<le> loop_bound p" using calculation(3) by (auto simp: loop_bound_def)
  ultimately show ?thesis using b by auto
qed

section \<open>One attempt\<close>

text \<open>An attempt the budget allows opens a row and counts the call before the tool is reached.\<close>

lemma run_attempt_opens:
  assumes wf: "trace_wf w" and run: "lookup_run w rid = Some r" and budget: "tool_call_count r < max_tool_calls r"
  obtains row w' r' where
    "run_attempt ex rid sname tname t kw operation n w = call_and_close ex rid sname t kw operation n (att_id row) w'"
    "trace_tbl w' = trace_tbl w @ [row]" "att_status row = SRunning" "att_run row = rid" "att_step row = sname"
    "tool_invoked row = Some tname" "trace_wf w'" "lookup_run w' rid = Some r'"
    "tool_call_count r' = tool_call_count r + 1" "max_tool_calls r' = max_tool_calls r"
    "step_count r' = step_count r" "max_steps r' = max_steps r" "cancel_requested r' = cancel_requested r"
    "status r' = status r" "provider_tbl w' = provider_tbl w" "effects_tbl w' = effects_tbl w" "iam w' = iam w"
    "paperwork_failures w' = paperwork_failures w"
proof -
  have "lookup_run w rid \<noteq> None" using run by simp
  from wf this obtain row w1 where start: "start_attempt rid sname (Some tname) w = (Inr row, w1)"
    "trace_tbl w1 = trace_tbl w @ [row]" "att_status row = SRunning" "att_run row = rid" "att_step row = sname"
    "tool_invoked row = Some tname" "trace_wf w1" "only_trace w w1"
    by (rule start_attempt_opens)
  have found: "lookup_run w1 rid = Some r" using start(8) run by (simp add: only_trace_def lookup_run_def)
  let ?t = "clock w1 (clock_reads w1)"
  let ?w' = "w1\<lparr>clock_reads := Suc (clock_reads w1), runs_tbl := tupdate run_id rid (add_counts 0 1 ?t) (runs_tbl w1)\<rparr>"
  have bump: "bump_counters rid 0 1 w1 = (Inr (add_counts 0 1 ?t r), ?w')"
    using found by (simp add: bump_counters_eq Let_def)
  have "run_attempt ex rid sname tname t kw operation n w =
      call_and_close ex rid sname t kw operation n (att_id row) ?w'"
    using start(1) bump budget run
    by (simp add: run_attempt_def mseq_apply mbind_apply check_budget_def runs_get_eq)
  moreover have "lookup_run ?w' rid = Some (add_counts 0 1 ?t r)"
    using found by (simp add: lookup_run_def tfind_tupdate)
  ultimately show ?thesis
    using start(2-8) by (intro that [of row ?w' "add_counts 0 1 ?t r"]) (simp_all add: only_trace_def)
qed

text \<open>Closing the attempt after the call returned, or failed with a transient error.\<close>

lemma call_and_close_returns:
  assumes inv: "invoke_tool rid sname t kw operation w = (Inr (v, repl, reco), w1)" and same: "only_store w w1"
    and wf: "trace_wf w" and tbl: "trace_tbl w = rows @ [row]" and open_row: "att_status row = SRunning"
  obtains row' n' where "call_and_close ex rid sname t kw operation n (att_id row) w =
      (Inr \<lparr>exec_result = v, exec_attempts = n, exec_replayed = repl, exec_reconciled = reco\<rparr>,
       w1\<lparr>clock_reads := n', trace_tbl := rows @ [row']\<rparr>)"
    "att_status row' = SCompleted" "detail row' = redact (success_detail n repl reco v)"
    "att_run row' = att_run row" "att_step row' = att_step row"
    "trace_wf (w1\<lparr>clock_reads := n', trace_tbl := rows @ [row']\<rparr>)"
proof -
  have wf1: "trace_wf w1" using wf same trace_wf_cong [of w1 w] by (simp add: only_store_def)
  have tbl1: "trace_tbl w1 = rows @ [row]" using tbl same by (simp add: only_store_def)
  have "SCompleted \<in> {SCompleted, SFailed, SPaused}" by simp
  from close_last_row [OF wf1 tbl1 open_row this] obtain row' n' where close:
    "close_attempt (att_id row) SCompleted None None None (Some (redact (success_detail n repl reco v))) None w1 =
      (Inr row', w1\<lparr>clock_reads := n', trace_tbl := rows @ [row']\<rparr>)"
    "\<exists>t. row' = close_row SCompleted None None None (Some (redact (success_detail n repl reco v))) None t row"
    "trace_wf (w1\<lparr>clock_reads := n', trace_tbl := rows @ [row']\<rparr>)"
    by blast
  have "call_and_close ex rid sname t kw operation n (att_id row) w =
      (Inr \<lparr>exec_result = v, exec_attempts = n, exec_replayed = repl, exec_reconciled = reco\<rparr>,
       w1\<lparr>clock_reads := n', trace_tbl := rows @ [row']\<rparr>)"
    using inv close(1) by (simp add: call_and_close_def eff_apply complete_attempt_def)
  with close(2,3) show ?thesis by (intro that) auto
qed

lemma call_and_close_transient:
  assumes inv: "invoke_tool rid sname t kw operation w = (Inl (Exc TransientToolError m), w1)" and same: "only_store w w1"
    and wf: "trace_wf w" and tbl: "trace_tbl w = rows @ [row]" and open_row: "att_status row = SRunning"
  obtains row' n' where "call_and_close ex rid sname t kw operation n (att_id row) w =
      (Inl (Exc TransientToolError m), w1\<lparr>clock_reads := n', trace_tbl := rows @ [row']\<rparr>)"
    "att_status row' = SFailed" "error_type row' = Some ''TransientToolError''"
    "att_run row' = att_run row" "att_step row' = att_step row"
    "trace_wf (w1\<lparr>clock_reads := n', trace_tbl := rows @ [row']\<rparr>)"
proof -
  let ?d = "transient_detail n (max_attempts (ex_policy ex))"
  have wf1: "trace_wf w1" using wf same trace_wf_cong [of w1 w] by (simp add: only_store_def)
  have tbl1: "trace_tbl w1 = rows @ [row]" using tbl same by (simp add: only_store_def)
  have "SFailed \<in> {SCompleted, SFailed, SPaused}" by simp
  from close_last_row [OF wf1 tbl1 open_row this] obtain row' n' where close:
    "close_attempt (att_id row) SFailed None (Some ''TransientToolError'') (Some m) (Some ?d) None w1 =
      (Inr row', w1\<lparr>clock_reads := n', trace_tbl := rows @ [row']\<rparr>)"
    "\<exists>t. row' = close_row SFailed None (Some ''TransientToolError'') (Some m) (Some ?d) None t row"
    "trace_wf (w1\<lparr>clock_reads := n', trace_tbl := rows @ [row']\<rparr>)"
    by blast
  have "call_and_close ex rid sname t kw operation n (att_id row) w =
      (Inl (Exc TransientToolError m), w1\<lparr>clock_reads := n', trace_tbl := rows @ [row']\<rparr>)"
    using inv close(1) by (simp add: call_and_close_def eff_apply fail_attempt_def type_name_def)
  with close(2,3) show ?thesis by (intro that) auto
qed

section \<open>A flaky provider\<close>

abbreviation iam_kw :: "pyval \<Rightarrow> pyval list \<Rightarrow> kwargs" where
  "iam_kw emp systems \<equiv> [(''employee_id'', emp), (''systems'', PList systems)]"

lemma recursion_limit: "RECURSION_LIMIT = Suc 999"
  by (simp add: RECURSION_LIMIT_def)

lemma invoke_iam:
  assumes none: "lookup_provider w ''iam'' (build_key rid sname op) = None"
    and row: "row_state w (build_key rid sname op) = None \<and> lookup_run w rid \<noteq> None
      \<or> row_state w (build_key rid sname op) = Some IN_PROGRESS"
    and iam: "iam w = \<lparr>remaining_failures = n, fail_permanently = False, crash_after_apply = False\<rparr>"
  shows "n \<le> 0 \<Longrightarrow> \<exists>w'. invoke_tool rid sname iam_tool (iam_kw emp systems) (Some op) w =
        (Inr (iam_receipt emp systems (build_key rid sname op), False, False), w') \<and> only_store w w'
      \<and> row_state w' (build_key rid sname op) = Some COMPLETED \<and> applied_at ''iam'' (build_key rid sname op) w' = 1"
    and "n > 0 \<Longrightarrow> \<exists>m w'. invoke_tool rid sname iam_tool (iam_kw emp systems) (Some op) w =
        (Inl (Exc TransientToolError m), w') \<and> only_store w w'
      \<and> row_state w' (build_key rid sname op) = Some IN_PROGRESS \<and> provider_tbl w' = provider_tbl w
      \<and> iam w' = \<lparr>remaining_failures = n - 1, fail_permanently = False, crash_after_apply = False\<rparr>"
  using iam_once_works [OF none _ _ _ row, of 999 sname emp systems]
    iam_once_flaky [OF none _ _ row, of 999 sname emp systems] iam
  by (auto simp: invoke_tool_def eff_apply recursion_limit)

lemma iam_retries:
  fixes rid sname op
  defines "key \<equiv> build_key rid sname op"
  assumes doc: "retries_as_documented af"
  shows "trace_wf w \<Longrightarrow> lookup_run w rid = Some r \<Longrightarrow> tool_call_count r + int k < max_tool_calls r \<Longrightarrow>
    lookup_provider w ''iam'' key = None \<Longrightarrow> row_state w key \<in> {None, Some IN_PROGRESS} \<Longrightarrow>
    iam w = \<lparr>remaining_failures = int k, fail_permanently = False, crash_after_apply = False\<rparr> \<Longrightarrow>
    int (n + k) \<le> max_attempts p \<or> k = 0 \<Longrightarrow> k \<le> fuel \<Longrightarrow>
    \<exists>w' rows done r'. attempt_loop (Suc fuel) af (build p)
        (run_attempt ex rid sname tname iam_tool (iam_kw emp systems) (Some op)) n w =
      (Inr \<lparr>exec_result = iam_receipt emp systems key, exec_attempts = n + k, exec_replayed = False,
         exec_reconciled = False\<rparr>, w')
    \<and> trace_tbl w' = trace_tbl w @ rows @ [done] \<and> length rows = k
    \<and> (\<forall>a \<in> set rows. att_status a = SFailed \<and> error_type a = Some ''TransientToolError'')
    \<and> att_status done = SCompleted \<and> row_state w' key = Some COMPLETED \<and> applied_at ''iam'' key w' = 1
    \<and> lookup_run w' rid = Some r' \<and> tool_call_count r' = tool_call_count r + int k + 1"
proof (induction k arbitrary: w r n fuel)
  case 0
  then have "tool_call_count r < max_tool_calls r" by simp
  from "0.prems"(1,2) this obtain row w1 r1 where opened:
    "run_attempt ex rid sname tname iam_tool (iam_kw emp systems) (Some op) n w =
       call_and_close ex rid sname iam_tool (iam_kw emp systems) (Some op) n (att_id row) w1"
    "trace_tbl w1 = trace_tbl w @ [row]" "att_status row = SRunning" "trace_wf w1" "lookup_run w1 rid = Some r1"
    "tool_call_count r1 = tool_call_count r + 1" "provider_tbl w1 = provider_tbl w"
    "effects_tbl w1 = effects_tbl w" "iam w1 = iam w"
    by (rule run_attempt_opens)
  have "row_state w1 key \<in> {None, Some IN_PROGRESS}" "lookup_provider w1 ''iam'' key = None"
    using "0.prems"(4,5) opened(7,8) by (simp_all add: row_state_def lookup_effect_def lookup_provider_def)
  then obtain w2 where w2: "invoke_tool rid sname iam_tool (iam_kw emp systems) (Some op) w1 =
        (Inr (iam_receipt emp systems key, False, False), w2)" "only_store w1 w2"
      "row_state w2 key = Some COMPLETED" "applied_at ''iam'' key w2 = 1"
    using invoke_iam(1) [of w1 rid sname op 0 emp systems] "0.prems"(6) opened(5,9) unfolding key_def by auto
  from w2(1,2) opened(4,2,3) obtain row' n' where closed:
    "call_and_close ex rid sname iam_tool (iam_kw emp systems) (Some op) n (att_id row) w1 =
      (Inr \<lparr>exec_result = iam_receipt emp systems key, exec_attempts = n, exec_replayed = False, exec_reconciled = False\<rparr>,
       w2\<lparr>clock_reads := n', trace_tbl := trace_tbl w @ [row']\<rparr>)" "att_status row' = SCompleted"
    by (rule call_and_close_returns)
  then show ?case
    using opened w2 by (intro exI [of _ "w2\<lparr>clock_reads := n', trace_tbl := trace_tbl w @ [row']\<rparr>"]
        exI [of _ "[]"] exI [of _ row'] exI [of _ r1])
      (auto simp: eff_apply row_state_def applied_at_def only_store_def lookup_run_def)
next
  case (Suc k)
  then have "tool_call_count r < max_tool_calls r" by simp
  from Suc.prems(1,2) this obtain row w1 r1 where opened:
    "run_attempt ex rid sname tname iam_tool (iam_kw emp systems) (Some op) n w =
       call_and_close ex rid sname iam_tool (iam_kw emp systems) (Some op) n (att_id row) w1"
    "trace_tbl w1 = trace_tbl w @ [row]" "att_status row = SRunning" "trace_wf w1" "lookup_run w1 rid = Some r1"
    "tool_call_count r1 = tool_call_count r + 1" "max_tool_calls r1 = max_tool_calls r" "provider_tbl w1 = provider_tbl w"
    "effects_tbl w1 = effects_tbl w" "iam w1 = iam w"
    by (rule run_attempt_opens)
  have "row_state w1 key \<in> {None, Some IN_PROGRESS}" "lookup_provider w1 ''iam'' key = None"
    using Suc.prems(4,5) opened(8,9) by (simp_all add: row_state_def lookup_effect_def lookup_provider_def)
  then obtain m w2 where w2: "invoke_tool rid sname iam_tool (iam_kw emp systems) (Some op) w1 =
        (Inl (Exc TransientToolError m), w2)" "only_store w1 w2" "row_state w2 key = Some IN_PROGRESS"
      "provider_tbl w2 = provider_tbl w1"
      "iam w2 = \<lparr>remaining_failures = int k, fail_permanently = False, crash_after_apply = False\<rparr>"
    using invoke_iam(2) [of w1 rid sname op "int (Suc k)" emp systems] Suc.prems(6) opened(5,10) unfolding key_def by auto
  from w2(1,2) opened(4,2,3) obtain row' n' where closed:
    "call_and_close ex rid sname iam_tool (iam_kw emp systems) (Some op) n (att_id row) w1 =
      (Inl (Exc TransientToolError m), w2\<lparr>clock_reads := n', trace_tbl := trace_tbl w @ [row']\<rparr>)"
    "att_status row' = SFailed" "error_type row' = Some ''TransientToolError''"
    "trace_wf (w2\<lparr>clock_reads := n', trace_tbl := trace_tbl w @ [row']\<rparr>)"
    by (rule call_and_close_transient)
  let ?w = "w2\<lparr>clock_reads := n', trace_tbl := trace_tbl w @ [row']\<rparr>"
  obtain fuel' where fuel: "fuel = Suc fuel'" using Suc.prems(8) by (cases fuel) auto
  have again: "attempt_loop (Suc fuel) af (build p)
      (run_attempt ex rid sname tname iam_tool (iam_kw emp systems) (Some op)) n w =
    attempt_loop (Suc fuel') af (build p)
      (run_attempt ex rid sname tname iam_tool (iam_kw emp systems) (Some op)) (Suc n) ?w"
    using opened(1) closed(1) Suc.prems(7)
    by (simp add: fuel attempt_loop.simps(2) [of "Suc fuel'"] eff_apply after_failure_build [OF doc]
        del: attempt_loop.simps)
  have "\<exists>w' rows done r'. attempt_loop (Suc fuel') af (build p)
        (run_attempt ex rid sname tname iam_tool (iam_kw emp systems) (Some op)) (Suc n) ?w =
      (Inr \<lparr>exec_result = iam_receipt emp systems key, exec_attempts = Suc n + k, exec_replayed = False,
         exec_reconciled = False\<rparr>, w')
    \<and> trace_tbl w' = trace_tbl ?w @ rows @ [done] \<and> length rows = k
    \<and> (\<forall>a \<in> set rows. att_status a = SFailed \<and> error_type a = Some ''TransientToolError'')
    \<and> att_status done = SCompleted \<and> row_state w' key = Some COMPLETED \<and> applied_at ''iam'' key w' = 1
    \<and> lookup_run w' rid = Some r' \<and> tool_call_count r' = tool_call_count r1 + int k + 1"
  proof (rule Suc.IH)
    show "lookup_run ?w rid = Some r1" using opened(5) w2(2) by (simp add: only_store_def lookup_run_def)
    show "lookup_provider ?w ''iam'' key = None"
      using Suc.prems(4) opened(8) w2(4) by (simp add: lookup_provider_def)
    show "row_state ?w key \<in> {None, Some IN_PROGRESS}" using w2(3) by (simp add: row_state_def)
  qed (use Suc.prems closed opened w2 fuel in auto)
  then obtain w' rows last r' where IH: "attempt_loop (Suc fuel') af (build p)
        (run_attempt ex rid sname tname iam_tool (iam_kw emp systems) (Some op)) (Suc n) ?w =
      (Inr \<lparr>exec_result = iam_receipt emp systems key, exec_attempts = Suc n + k, exec_replayed = False,
         exec_reconciled = False\<rparr>, w')"
    "trace_tbl w' = trace_tbl w @ (row' # rows) @ [last]" "length rows = k"
    "\<forall>a \<in> set rows. att_status a = SFailed \<and> error_type a = Some ''TransientToolError''"
    "att_status last = SCompleted" "row_state w' key = Some COMPLETED" "applied_at ''iam'' key w' = 1"
    "lookup_run w' rid = Some r'" "tool_call_count r' = tool_call_count r1 + int k + 1"
    by auto
  show ?case unfolding again
    using IH opened(6) closed(2,3)
    by (intro exI [of _ w'] exI [of _ "row' # rows"] exI [of _ last] exI [of _ r']) auto
qed

text \<open>
  C17. Transient failures are retried and leave one effect: when the IAM gateway fails
  \<open>k < max_attempts\<close> times and then works, the call returns its receipt on attempt \<open>k + 1\<close>;
  the trace gains \<open>k\<close> failed attempts and one completed one, \<open>k + 1\<close> tool calls are counted, and
  the revocation has been applied exactly once and is COMPLETED in the ledger.
\<close>

theorem transient_failures_are_retried:
  assumes "retries_as_documented (ex_tenacity ex)" and "ex_registry ex = app_registry"
    and "trace_wf w" and "lookup_run w rid = Some r" and "tool_call_count r + int k < max_tool_calls r"
    and "int k < max_attempts (ex_policy ex)" and "''iam.revoke_access'' \<in> allow"
    and "lookup_effect w (build_key rid sname op) = None"
    and "lookup_provider w ''iam'' (build_key rid sname op) = None"
    and "iam w = \<lparr>remaining_failures = int k, fail_permanently = False, crash_after_apply = False\<rparr>"
  shows "\<exists>w' rows done r'.
      execute ex rid sname ''iam.revoke_access'' allow [(''employee_id'', emp), (''systems'', PList systems)] (Some op) w =
        (Inr \<lparr>exec_result = iam_receipt emp systems (build_key rid sname op), exec_attempts = k + 1,
           exec_replayed = False, exec_reconciled = False\<rparr>, w')
    \<and> trace_tbl w' = trace_tbl w @ rows @ [done] \<and> length rows = k
    \<and> (\<forall>a \<in> set rows. att_status a = SFailed \<and> error_type a = Some ''TransientToolError'')
    \<and> att_status done = SCompleted \<and> row_state w' (build_key rid sname op) = Some COMPLETED
    \<and> applied_at ''iam'' (build_key rid sname op) w' = 1
    \<and> lookup_run w' rid = Some r' \<and> tool_call_count r' = tool_call_count r + int k + 1"
proof -
  have "map_of app_registry ''iam.revoke_access'' = Some iam_tool"
    by (simp add: app_registry_def APP_TOOLS_def)
  then have res: "resolve (ex_registry ex) ''iam.revoke_access'' allow = Inr iam_tool"
    using assms(2,7) by (simp add: resolve_Inr_iff)
  obtain b where b: "loop_bound (ex_policy ex) = Suc b" "k \<le> b"
    using assms(6) by (cases "loop_bound (ex_policy ex)") (auto simp: loop_bound_def)
  have "row_state w (build_key rid sname op) \<in> {None, Some IN_PROGRESS}" using assms(8) by (simp add: row_state_def)
  from iam_retries [OF assms(1,3,4,5,9) this assms(10) _ b(2), of 1 "ex_policy ex" ex "''iam.revoke_access''" emp systems]
  show ?thesis using assms(6) by (simp add: execute_def res b(1) del: attempt_loop.simps)
qed

section \<open>Concrete instances\<close>

definition documented_tenacity :: tenacity where
  "documented_tenacity p n e = (if is_instance e (retry_on p) \<and> int n < stop_after p then None else Some e)"

lemma documented_tenacity_ok [simp]: "retries_as_documented documented_tenacity"
  by (simp add: retries_as_documented_def documented_tenacity_def)

definition sample_executor :: executor where
  "sample_executor = \<lparr>ex_registry = app_registry, ex_policy = default_policy, ex_tenacity = documented_tenacity\<rparr>"

lemma sample_executor_simps [simp]: "ex_registry sample_executor = app_registry"
  "ex_policy sample_executor = default_policy" "ex_tenacity sample_executor = documented_tenacity"
  by (simp_all add: sample_executor_def)

lemma resolve_app: "t \<in> set APP_TOOLS \<Longrightarrow> spec_name (spec t) \<in> allow \<Longrightarrow>
    resolve app_registry (spec_name (spec t)) allow = Inr t"
  by (auto simp: resolve_Inr_iff app_registry_def APP_TOOLS_def)

theorem tool_outside_allowlist_is_refused_witness:
  "\<exists>e w'. execute sample_executor ''r1'' ''plan_deprovisioning'' ''iam.revoke_access'' {} [] (Some ''x'') sample_world = (Inl e, w')
    \<and> exc_class_of e = ToolNotAllowed \<and> provider_tbl w' = []"
  using tool_outside_allowlist_is_refused [of "''iam.revoke_access''" "{}" sample_executor sample_world "''r1''"
      "''plan_deprovisioning''" "[]" "Some ''x''"]
  by (auto simp: only_trace_def)

theorem spent_budget_refuses_the_call_witness:
  "let w = sample_world\<lparr>runs_tbl := [sample_run\<lparr>max_tool_calls := 0\<rparr>]\<rparr> in
   \<exists>e w'. execute sample_executor ''r1'' ''fetch_employee'' ''hr_directory.get_employee''
      {''hr_directory.get_employee''} [(''employee_id'', PStr ''emp-001'')] None w = (Inl e, w')
    \<and> exc_class_of e = BudgetExceeded \<and> length (trace_tbl w') = 1"
proof -
  let ?w = "sample_world\<lparr>runs_tbl := [sample_run\<lparr>max_tool_calls := 0\<rparr>]\<rparr>"
  have run: "lookup_run ?w ''r1'' = Some (sample_run\<lparr>max_tool_calls := 0\<rparr>)"
    by (simp add: lookup_run_def tfind_Cons sample_run_def)
  have res: "resolve (ex_registry sample_executor) ''hr_directory.get_employee'' {''hr_directory.get_employee''} = Inr hr_tool"
    using resolve_app [of hr_tool "{''hr_directory.get_employee''}"] by (simp add: APP_TOOLS_def)
  have "trace_wf ?w" "max_tool_calls (sample_run\<lparr>max_tool_calls := 0\<rparr>) \<le> tool_call_count (sample_run\<lparr>max_tool_calls := 0\<rparr>)"
    by (simp_all add: sample_run_def)
  with spent_budget_refuses_the_call [OF run _ _ res, of None "''fetch_employee''" "[(''employee_id'', PStr ''emp-001'')]"]
  show ?thesis by auto
qed

theorem retry_loop_ends_witness:
  "fst (attempt_loop (loop_bound default_policy + 7) documented_tenacity (build default_policy)
     (\<lambda>n. raise (Exc TransientToolError (show_int (int n)))) 1 sample_world) = Inl (Exc TransientToolError (show_int 3))"
  using retry_loop_ends [of documented_tenacity default_policy 7 "\<lambda>n. raise (Exc TransientToolError (show_int (int n)))" sample_world]
  by (simp add: loop_bound_def default_policy_def numeral_eq_Suc eff_apply documented_tenacity_def build_def)

theorem transient_failures_are_retried_witness:
  "\<exists>v w'. execute sample_executor ''r1'' ''revoke_access'' ''iam.revoke_access'' {''iam.revoke_access''}
      [(''employee_id'', PStr ''emp-001''), (''systems'', PList [PStr ''vpn''])] (Some ''revoke_all_systems'')
      (sample_world\<lparr>iam := \<lparr>remaining_failures = 2, fail_permanently = False, crash_after_apply = False\<rparr>\<rparr>) = (Inr v, w')
    \<and> exec_attempts v = 3 \<and> length (trace_tbl w') = 3
    \<and> applied_at ''iam'' (build_key ''r1'' ''revoke_access'' ''revoke_all_systems'') w' = 1"
proof -
  let ?w = "sample_world\<lparr>iam := \<lparr>remaining_failures = 2, fail_permanently = False, crash_after_apply = False\<rparr>\<rparr>"
  let ?key = "build_key ''r1'' ''revoke_access'' ''revoke_all_systems''"
  have hyps: "trace_wf ?w" "lookup_run ?w ''r1'' = Some sample_run"
      "tool_call_count sample_run + int 2 < max_tool_calls sample_run"
      "int 2 < max_attempts (ex_policy sample_executor)" "''iam.revoke_access'' \<in> {''iam.revoke_access''}"
      "lookup_effect ?w ?key = None" "lookup_provider ?w ''iam'' ?key = None"
      "iam ?w = \<lparr>remaining_failures = int 2, fail_permanently = False, crash_after_apply = False\<rparr>"
    by (simp_all add: sample_run_def default_policy_def lookup_effect_def lookup_provider_def)
  from transient_failures_are_retried [OF _ _ hyps, of "PStr ''emp-001''" "[PStr ''vpn'']"]
  show ?thesis by fastforce
qed

end
