(* ===== verification/Llm.thy ===== *)
theory Llm
  imports Executor
begin

text \<open>
  \<open>llm/\<close>: the plan the model returns, the validation every provider's output goes through, the
  deterministic provider, the Gemini provider and the factory.  Pydantic, the Gemini SDK and
  the JSON parser are parameters; what the code relies on from pydantic is \<open>pydantic_ok\<close>.
\<close>

section \<open>Reading a record\<close>

text \<open>\<open>v.get(k, dflt)\<close> and \<open>v[k]\<close> with a string key.\<close>

definition py_get :: "pyval \<Rightarrow> string \<Rightarrow> pyval \<Rightarrow> exc + pyval" where
  "py_get v k dflt = (case v of
     PDict d \<Rightarrow> Inr (case map_of d k of None \<Rightarrow> dflt | Some x \<Rightarrow> x)
   | _ \<Rightarrow> Inl (Exc AttributeError (''object has no attribute '' @ repr_str ''get'')))"

definition py_item :: "pyval \<Rightarrow> string \<Rightarrow> exc + pyval" where
  "py_item v k = (case v of
     PDict d \<Rightarrow> (case map_of d k of None \<Rightarrow> Inl (Exc KeyError (repr_str k)) | Some x \<Rightarrow> Inr x)
   | _ \<Rightarrow> Inl (Exc TypeError ''indices must be integers or slices, not str''))"

fun hashable :: "pyval \<Rightarrow> bool" where
  "hashable (PList xs) = False"
| "hashable (PDict d) = False"
| "hashable (PTuple xs) = (\<forall>x \<in> set xs. hashable x)"
| "hashable v = True"

fun sum_map :: "('a \<Rightarrow> 'e + 'b) \<Rightarrow> 'a list \<Rightarrow> 'e + 'b list" where
  "sum_map f [] = Inr []"
| "sum_map f (x # xs) = sum_bind (f x) (\<lambda>y. sum_bind (sum_map f xs) (\<lambda>ys. Inr (y # ys)))"

lemma sum_map_Inr: "(\<And>x. x \<in> set xs \<Longrightarrow> f x = Inr (g x)) \<Longrightarrow> sum_map f xs = Inr (map g xs)"
  by (induction xs) auto

text \<open>
  \<open>sorted\<close> on the members of a set: strings among themselves and numbers among themselves are
  ordered, anything else does not compare (a set of one member needs no comparison).
\<close>

fun str_of :: "pyval \<Rightarrow> string option" where
  "str_of (PStr s) = Some s"
| "str_of v = None"

fun num_of :: "pyval \<Rightarrow> int option" where
  "num_of (PInt i) = Some i"
| "num_of (PBool b) = Some (if b then 1 else 0)"
| "num_of v = None"

definition py_sorted :: "pyval list \<Rightarrow> exc + pyval list" where
  "py_sorted xs =
     (if list_all (\<lambda>x. str_of x \<noteq> None) xs then Inr (sort_key (\<lambda>x. the (str_of x)) xs)
      else if list_all (\<lambda>x. num_of x \<noteq> None) xs then Inr (sort_key (\<lambda>x. the (num_of x)) xs)
      else if length xs \<le> 1 then Inr xs
      else Inl (Exc TypeError ''< not supported between instances''))"

section \<open>Plans\<close>

datatype risk_level = Low | Medium | High

fun risk_value :: "risk_level \<Rightarrow> string" where
  "risk_value Low = ''low''"
| "risk_value Medium = ''medium''"
| "risk_value High = ''high''"

record checklist_item =
  item_system :: string
  item_action :: string
  item_risk :: risk_level

record plan =
  plan_items :: "checklist_item list"
  plan_notes :: string

text \<open>
  What the code uses of pydantic: the constructor \<open>ChecklistItem(system=, action=, risk_level=)\<close>,
  \<open>DeprovisioningPlan.model_validate\<close> and \<open>item.model_dump()\<close>.
\<close>

record pydantic =
  new_item :: "pyval \<Rightarrow> string \<Rightarrow> string \<Rightarrow> exc + checklist_item"
  model_validate :: "pyval \<Rightarrow> exc + plan"
  model_dump :: "checklist_item \<Rightarrow> pyval"

definition dumped :: "checklist_item \<Rightarrow> pyval" where
  "dumped i = PDict [(''system'', PStr (item_system i)), (''action'', PStr (item_action i)),
     (''risk_level'', PStr (risk_value (item_risk i)))]"

text \<open>
  Documented behaviour: arguments that fit the declared types make the item with those fields,
  a system that is no string does not; a payload that does not fit the schema raises
  \<open>ValidationError\<close>; a dump has the fields in the order of their declaration.
\<close>

definition pydantic_ok :: "pydantic \<Rightarrow> bool" where
  "pydantic_ok lib \<longleftrightarrow>
     (\<forall>s a r. new_item lib (PStr s) a (risk_value r) = Inr \<lparr>item_system = s, item_action = a, item_risk = r\<rparr>)
   \<and> (\<forall>v a r. str_of v = None \<longrightarrow> (\<exists>m. new_item lib v a r = Inl (Exc ValidationError m)))
   \<and> (\<forall>v e. model_validate lib v = Inl e \<longrightarrow> exc_class_of e = ValidationError)
   \<and> (\<forall>i. model_dump lib i = dumped i)"

definition invalid_plan :: "string \<Rightarrow> exc" where
  "invalid_plan m = Exc InvalidPlan m"

definition validate_plan :: "plan \<Rightarrow> pyval \<Rightarrow> exc + plan" where
  "validate_plan p emp =
     sum_bind (py_get emp ''systems'' (PList [])) (\<lambda>systems.
     sum_bind (py_list systems) (\<lambda>known.
     if \<not> list_all hashable known then Inl (Exc TypeError ''unhashable type'') else
     let proposed = map item_system (plan_items p);
         invented = remdups (filter (\<lambda>s. PStr s \<notin> set known) proposed);
         missed = remdups (filter (\<lambda>v. v \<notin> PStr ` set proposed) known) in
     if plan_items p = [] then Inl (invalid_plan ''the model returned an empty plan'')
     else if invented \<noteq> []
     then Inl (invalid_plan (''plan names systems the employee does not have: '' @ repr_str_list (sort invented)))
     else if missed \<noteq> []
     then sum_bind (py_sorted missed) (\<lambda>ms. Inl (invalid_plan
       (''plan omits systems the employee still has access to: '' @ repr_val (PList ms))))
     else Inr p))"

text \<open>What a provider hands to \<open>parse_plan\<close>: raw data, or a plan already built.\<close>

datatype payload = Raw pyval | Parsed plan

definition parse_plan :: "pydantic \<Rightarrow> payload \<Rightarrow> pyval \<Rightarrow> exc + plan" where
  "parse_plan lib pl emp =
     sum_bind (case pl of
         Parsed p \<Rightarrow> Inr p
       | Raw v \<Rightarrow> (case model_validate lib v of
           Inl e \<Rightarrow> if is_instance e ValidationError
                    then Inl (invalid_plan (''the model returned a plan that does not fit the schema: '' @ exc_message e))
                    else Inl e
         | Inr p \<Rightarrow> Inr p))
       (\<lambda>p. validate_plan p emp)"

section \<open>Providers\<close>

record llm_provider =
  llm_name :: string
  generate_plan :: "pyval \<Rightarrow> plan py"

definition HIGH_RISK_SYSTEMS :: "string list" where
  "HIGH_RISK_SYSTEMS = [''aws'', ''github'', ''vpn'', ''netsuite'', ''salesforce'']"

definition ACTIONS :: "(string \<times> string) list" where
  "ACTIONS =
   [(''github'', ''Remove from all organisations and revoke personal access tokens''),
    (''aws'', ''Delete IAM user and rotate any shared keys they held''),
    (''slack'', ''Deactivate account and transfer owned channels''),
    (''jira'', ''Deactivate account and reassign open issues''),
    (''vpn'', ''Revoke client certificate and remove from the access group''),
    (''netsuite'', ''Disable login and revoke approval authority''),
    (''salesforce'', ''Freeze user and reassign owned opportunities''),
    (''zoom'', ''Deactivate account and release the licence'')]"

definition action_for :: "pyval \<Rightarrow> string" where
  "action_for v = (case map_of (map (\<lambda>(k, a). (PStr k, a)) ACTIONS) v of
     None \<Rightarrow> ''Revoke access to '' @ str_val v | Some a \<Rightarrow> a)"

definition risk_for :: "pyval \<Rightarrow> string" where
  "risk_for v = (if v \<in> PStr ` set HIGH_RISK_SYSTEMS then ''high'' else ''medium'')"

definition fake_item :: "pydantic \<Rightarrow> pyval \<Rightarrow> exc + checklist_item" where
  "fake_item lib v = (if hashable v then new_item lib v (action_for v) (risk_for v)
     else Inl (Exc TypeError ''unhashable type''))"

definition fake_plan :: "pydantic \<Rightarrow> pyval \<Rightarrow> exc + plan" where
  "fake_plan lib emp =
     sum_bind (py_get emp ''systems'' (PList [])) (\<lambda>systems.
     sum_bind (py_list systems) (\<lambda>known.
     sum_bind (sum_map (fake_item lib) known) (\<lambda>items.
     sum_bind (py_get emp ''last_day'' (PStr ''the last day'')) (\<lambda>day.
     sum_bind (py_get emp ''has_company_hardware'' PNone) (\<lambda>hardware.
     validate_plan \<lparr>plan_items = items,
       plan_notes = show_int (int (length items)) @ '' systems to deprovision before '' @ str_val day @ ''.'' @
         (if truthy hardware then '' Company hardware is outstanding and must be collected.'' else [])\<rparr> emp)))))"

definition fake_llm :: "pydantic \<Rightarrow> llm_provider" where
  "fake_llm lib = \<lparr>llm_name = ''fake'', generate_plan = (\<lambda>emp. lift_sum (fake_plan lib emp))\<rparr>"

text \<open>
  The Gemini provider.  \<open>create model prompt\<close> is the SDK's request, \<open>loads\<close> is \<open>json.loads\<close>.
\<close>

record gemini_sdk =
  installed :: bool
  create_interaction :: "string \<Rightarrow> string \<Rightarrow> string py"
  json_loads :: "string \<Rightarrow> exc + pyval"

definition DEFAULT_MODEL :: string where
  "DEFAULT_MODEL = ''gemini-3.5-flash-lite''"

definition SYSTEM_PROMPT :: string where
  "SYSTEM_PROMPT =
     ''You are an IT offboarding assistant. Given an employee record, produce a deprovisioning checklist.\<newline>\<newline>Rules:\<newline>'' @
     ''- Produce exactly one item per system listed in the employee's `systems` field.\<newline>'' @
     ''- Never invent a system that is not in that list.\<newline>'' @
     ''- risk_level is \"high\" when lingering access would expose production systems, customer data or money; otherwise \"medium\" or \"low\".\<newline>'' @
     ''- `action` is a single concrete instruction for an IT administrator.\<newline>''"

definition gemini_prompt :: "pyval \<Rightarrow> exc + string" where
  "gemini_prompt emp =
     sum_bind (py_get emp ''department'' PNone) (\<lambda>dep.
     sum_bind (py_get emp ''last_day'' PNone) (\<lambda>day.
     sum_bind (py_get emp ''systems'' PNone) (\<lambda>systems.
     sum_bind (py_get emp ''has_company_hardware'' PNone) (\<lambda>hw.
     Inr (SYSTEM_PROMPT @ ''\<newline>\<newline>Employee record:\<newline>- department: '' @ str_val dep @ ''\<newline>- last day: '' @ str_val day @
       ''\<newline>- systems: '' @ str_val systems @ ''\<newline>- company hardware outstanding: '' @ str_val hw @ ''\<newline>'')))))"

definition gemini_generate :: "gemini_sdk \<Rightarrow> pydantic \<Rightarrow> string \<Rightarrow> pyval \<Rightarrow> plan py" where
  "gemini_generate sdk lib model emp =
     mbind (lift_sum (gemini_prompt emp)) (\<lambda>prompt.
     mtry (create_interaction sdk model prompt)
       (\<lambda>e. if is_instance e PyException
            then raise (Exc TransientToolError (''gemini request failed: '' @ type_name e @ '': '' @ exc_message e))
            else raise e)
       (\<lambda>out. mtry (lift_sum (json_loads sdk out))
          (\<lambda>e. if is_instance e JSONDecodeError
               then raise (invalid_plan (''gemini returned a response that is not valid JSON: '' @ exc_message e))
               else raise e)
          (\<lambda>v. lift_sum (parse_plan lib (Raw v) emp))))"

text \<open>The environment variables the program reads.\<close>

type_synonym environ = "string \<Rightarrow> string option"

definition or_else :: "string option \<Rightarrow> string option \<Rightarrow> string option" where
  "or_else a b = (case a of Some s \<Rightarrow> if s \<noteq> [] then Some s else b | None \<Rightarrow> b)"

definition env_get :: "environ \<Rightarrow> string \<Rightarrow> string \<Rightarrow> string" where
  "env_get env k dflt = (case env k of None \<Rightarrow> dflt | Some v \<Rightarrow> v)"

definition gemini_llm ::
  "gemini_sdk \<Rightarrow> pydantic \<Rightarrow> environ \<Rightarrow> string option \<Rightarrow> string option \<Rightarrow> exc + llm_provider" where
  "gemini_llm sdk lib env model api_key =
     (if \<not> installed sdk
      then Inl (Exc PermanentToolError
        (''the gemini provider requires the 'gemini' extra: pip install -e '' @ repr_str ''.[gemini]''))
      else case or_else api_key (env ''GEMINI_API_KEY'') of
        None \<Rightarrow> Inl (Exc PermanentToolError ''OFFBOARDING_LLM_PROVIDER=gemini but GEMINI_API_KEY is not set'')
      | Some key \<Rightarrow>
          if key = [] then Inl (Exc PermanentToolError ''OFFBOARDING_LLM_PROVIDER=gemini but GEMINI_API_KEY is not set'')
          else Inr \<lparr>llm_name = ''gemini'', generate_plan = gemini_generate sdk lib
            (case or_else model None of Some m \<Rightarrow> m | None \<Rightarrow> env_get env ''GEMINI_MODEL'' DEFAULT_MODEL)\<rparr>)"

definition build_llm ::
  "gemini_sdk \<Rightarrow> pydantic \<Rightarrow> environ \<Rightarrow> string option \<Rightarrow> exc + llm_provider" where
  "build_llm sdk lib env given =
     (let choice = lower (case or_else given None of Some p \<Rightarrow> p
                          | None \<Rightarrow> env_get env ''OFFBOARDING_LLM_PROVIDER'' ''fake'') in
      if choice = ''fake'' then Inr (fake_llm lib)
      else if choice = ''gemini'' then gemini_llm sdk lib env None None
      else Inl (Exc PermanentToolError
        (''unknown LLM provider '' @ repr_str choice @ ''; expected 'fake' or '' @ repr_str ''gemini'')))"

section \<open>What a validated plan is\<close>

lemma py_get_dict: "py_get v k d = Inr x \<Longrightarrow> \<exists>kv. v = PDict kv"
  by (cases v) (auto simp: py_get_def)

lemma filter_map_nil: "filter (\<lambda>v. v \<notin> PStr ` A) (map PStr ss) = [] \<longleftrightarrow> set ss \<subseteq> A"
  by (auto simp: filter_empty_conv)

lemma py_sorted_strings: "\<exists>ys. py_sorted (remdups (filter P (map PStr ss))) = Inr ys"
  by (auto simp: py_sorted_def list_all_iff)

lemma remdups_nil: "remdups xs = [] \<longleftrightarrow> xs = []"
  by (cases xs rule: rev_cases) auto

text \<open>
  A plan is accepted exactly when it is not empty and names exactly the systems of the HR
  record, neither one more nor one less; it is then returned as it is, and any other plan is
  refused with \<open>InvalidPlan\<close>.
\<close>

theorem validate_plan_spec:
  assumes "py_get emp ''systems'' (PList []) = Inr (PList (map PStr ss))"
  shows "(validate_plan p emp = Inr q \<longleftrightarrow> q = p \<and> plan_items p \<noteq> [] \<and> item_system ` set (plan_items p) = set ss)
    \<and> (\<forall>e. validate_plan p emp = Inl e \<longrightarrow> exc_class_of e = InvalidPlan)"
proof -
  let ?known = "map PStr ss"
  let ?proposed = "map item_system (plan_items p)"
  let ?invented = "remdups (filter (\<lambda>s. PStr s \<notin> set ?known) ?proposed)"
  let ?missed = "remdups (filter (\<lambda>v. v \<notin> PStr ` set ?proposed) ?known)"
  have hash: "list_all hashable ?known" by (simp add: list_all_iff)
  obtain ms where ms: "py_sorted ?missed = Inr ms" using py_sorted_strings by blast
  have eq: "validate_plan p emp =
     (if plan_items p = [] then Inl (invalid_plan ''the model returned an empty plan'')
      else if ?invented \<noteq> []
      then Inl (invalid_plan (''plan names systems the employee does not have: '' @ repr_str_list (sort ?invented)))
      else if ?missed \<noteq> []
      then Inl (invalid_plan (''plan omits systems the employee still has access to: '' @ repr_val (PList ms)))
      else Inr p)"
    using assms hash ms by (simp add: validate_plan_def Let_def)
  have "?invented = [] \<longleftrightarrow> item_system ` set (plan_items p) \<subseteq> set ss"
    by (auto simp: remdups_nil filter_empty_conv)
  moreover have "?missed = [] \<longleftrightarrow> set ss \<subseteq> item_system ` set (plan_items p)"
    by (auto simp: remdups_nil filter_empty_conv)
  ultimately show ?thesis
    unfolding eq by (auto simp: invalid_plan_def split: if_splits)
qed

lemma validate_planD: "validate_plan p emp = Inr q \<Longrightarrow> q = p \<and> plan_items p \<noteq> []"
  by (auto simp: validate_plan_def sum_bind_def Let_def split: sum.splits if_splits)

text \<open>The same for what a provider hands in, whatever the schema check made of it.\<close>

lemma parse_plan_Inr: "parse_plan lib pl emp = Inr q \<Longrightarrow> validate_plan q emp = Inr q"
  by (auto simp: parse_plan_def sum_bind_def dest: validate_planD split: sum.splits payload.splits if_splits)

text \<open>
  C30. The model is not trusted: whatever text Gemini answers, a plan that comes out of the
  provider names exactly the employee's systems; and when the record is readable and the SDK,
  the JSON parser and pydantic raise what they document, every failure is a \<open>ToolError\<close>, which
  the run service turns into a failed run.
\<close>

theorem gemini_plan_is_validated:
  assumes "py_get emp ''systems'' (PList []) = Inr (PList (map PStr ss))"
    and "gemini_generate sdk lib model emp w = (r, w')"
    and "pydantic_ok lib"
    and "\<And>s e. json_loads sdk s = Inl e \<Longrightarrow> is_instance e JSONDecodeError"
    and "\<And>m s u e u'. create_interaction sdk m s u = (Inl e, u') \<Longrightarrow> is_instance e PyException"
  shows "case r of
      Inr p \<Rightarrow> plan_items p \<noteq> [] \<and> item_system ` set (plan_items p) = set ss
    | Inl e \<Rightarrow> is_instance e TransientToolError \<or> is_instance e InvalidPlan"
proof -
  obtain kv where emp: "emp = PDict kv" using py_get_dict [OF assms(1)] by blast
  obtain prompt where prompt: "gemini_prompt emp = Inr prompt"
    by (simp add: gemini_prompt_def emp py_get_def)
  obtain ro u where call: "create_interaction sdk model prompt w = (ro, u)" by (meson surj_pair)
  show ?thesis
  proof (cases ro)
    case (Inl e)
    then have "r = Inl (Exc TransientToolError (''gemini request failed: '' @ type_name e @ '': '' @ exc_message e))"
      using assms(2) prompt call assms(5) [of model prompt w e u] by (simp add: gemini_generate_def eff_apply)
    then show ?thesis by simp
  next
    case (Inr out)
    show ?thesis
    proof (cases "json_loads sdk out")
      case (Inl e)
      then have "r = Inl (invalid_plan (''gemini returned a response that is not valid JSON: '' @ exc_message e))"
        using assms(2) prompt call Inr assms(4) [OF Inl] by (simp add: gemini_generate_def eff_apply)
      then show ?thesis by (simp add: invalid_plan_def)
    next
      case (Inr v)
      then have r: "r = parse_plan lib (Raw v) emp"
        using assms(2) prompt call \<open>ro = Inr out\<close> by (simp add: gemini_generate_def eff_apply)
      show ?thesis
      proof (cases "model_validate lib v")
        case (Inl e)
        then have "exc_class_of e = ValidationError" using assms(3) by (auto simp: pydantic_ok_def)
        then show ?thesis using r Inl by (simp add: parse_plan_def is_instance_def invalid_plan_def)
      next
        case (Inr p)
        then have r: "r = validate_plan p emp" using r by (simp add: parse_plan_def)
        show ?thesis
        proof (cases "validate_plan p emp")
          case (Inl e)
          then show ?thesis using validate_plan_spec [OF assms(1), of p p] by (simp add: r is_instance_def)
        next
          case (Inr q)
          then have "validate_plan p emp = Inr p" using validate_planD [OF Inr] by simp
          then show ?thesis using validate_plan_spec [OF assms(1), of p p] by (simp add: r)
        qed
      qed
    qed
  qed
qed

lemma fake_item_string: "pydantic_ok lib \<Longrightarrow> fake_item lib (PStr s) =
    Inr \<lparr>item_system = s, item_action = action_for (PStr s),
         item_risk = (if s \<in> set HIGH_RISK_SYSTEMS then High else Medium)\<rparr>"
proof -
  assume "pydantic_ok lib"
  moreover have "risk_for (PStr s) = risk_value (if s \<in> set HIGH_RISK_SYSTEMS then High else Medium)"
    by (auto simp: risk_for_def)
  ultimately show ?thesis by (simp add: fake_item_def pydantic_ok_def)
qed

text \<open>
  The deterministic provider passes the validation the real one is held to: for a record
  with at least one system it returns one item per system, in the record's order, high risk
  exactly for the systems in the high-risk set; a record without systems is refused.
\<close>

theorem fake_plan_covers_the_record:
  assumes "pydantic_ok lib" and "py_get emp ''systems'' (PList []) = Inr (PList (map PStr ss))"
  shows "case fake_plan lib emp of
      Inr p \<Rightarrow> ss \<noteq> [] \<and> map item_system (plan_items p) = ss
        \<and> (\<forall>i \<in> set (plan_items p). item_risk i = (if item_system i \<in> set HIGH_RISK_SYSTEMS then High else Medium))
    | Inl e \<Rightarrow> ss = [] \<and> exc_class_of e = InvalidPlan"
proof -
  obtain kv where emp: "emp = PDict kv" using py_get_dict [OF assms(2)] by blast
  define g where "g s = \<lparr>item_system = s, item_action = action_for (PStr s),
         item_risk = (if s \<in> set HIGH_RISK_SYSTEMS then High else Medium)\<rparr>" for s
  have items: "sum_map (fake_item lib) (map PStr ss) = Inr (map g ss)"
    using fake_item_string [OF assms(1)] by (induction ss) (simp_all add: g_def)
  obtain p where p: "fake_plan lib emp = validate_plan p emp" "plan_items p = map g ss"
    using assms(2) items by (simp add: fake_plan_def emp py_get_def)
  have g: "item_system ` set (map g ss) = set ss" "map item_system (map g ss) = ss"
    by (simp_all add: g_def image_image comp_def)
  show ?thesis
  proof (cases "validate_plan p emp")
    case (Inl e)
    then show ?thesis using validate_plan_spec [OF assms(2), of p p] p g by simp
  next
    case (Inr q)
    then have "q = p" "ss \<noteq> []" using validate_planD [OF Inr] p(2) by auto
    then show ?thesis using Inr p g by (simp add: g_def)
  qed
qed

section \<open>Concrete instances\<close>

definition sample_employee :: pyval where
  "sample_employee = (case map_of EMPLOYEE_DIRECTORY ''emp-002'' of Some v \<Rightarrow> v | None \<Rightarrow> PNone)"

lemma sample_employee_systems [simp]: "py_get sample_employee ''systems'' (PList []) =
    Inr (PList (map PStr [''netsuite'', ''slack'', ''vpn'']))"
  by (simp add: sample_employee_def EMPLOYEE_DIRECTORY_def py_get_def)

definition risk_of :: "string \<Rightarrow> risk_level option" where
  "risk_of s = (if s = ''low'' then Some Low else if s = ''medium'' then Some Medium
     else if s = ''high'' then Some High else None)"

definition schema_item :: "pyval \<Rightarrow> string \<Rightarrow> string \<Rightarrow> exc + checklist_item" where
  "schema_item v a r = (case (v, risk_of r) of
     (PStr s, Some k) \<Rightarrow> Inr \<lparr>item_system = s, item_action = a, item_risk = k\<rparr>
   | _ \<Rightarrow> Inl (Exc ValidationError ''does not fit the schema''))"

definition schema_entry :: "pyval \<Rightarrow> exc + checklist_item" where
  "schema_entry v = (case v of
     PDict d \<Rightarrow> (case (map_of d ''system'', map_of d ''action'', map_of d ''risk_level'') of
        (Some s, Some (PStr a), Some (PStr r)) \<Rightarrow> schema_item s a r
      | _ \<Rightarrow> Inl (Exc ValidationError ''field required''))
   | _ \<Rightarrow> Inl (Exc ValidationError ''not a dict''))"

definition schema_plan :: "pyval \<Rightarrow> exc + plan" where
  "schema_plan v = (case v of
     PDict d \<Rightarrow> (case map_of d ''items'' of
        Some (PList xs) \<Rightarrow> (case sum_map schema_entry xs of
            Inr items \<Rightarrow> Inr \<lparr>plan_items = items, plan_notes = []\<rparr>
          | Inl e \<Rightarrow> Inl (Exc ValidationError ''items''))
      | _ \<Rightarrow> Inl (Exc ValidationError ''items''))
   | _ \<Rightarrow> Inl (Exc ValidationError ''not a dict''))"

definition documented_pydantic :: pydantic where
  "documented_pydantic = \<lparr>new_item = schema_item, model_validate = schema_plan, model_dump = dumped\<rparr>"

lemma documented_pydantic_ok [simp]: "pydantic_ok documented_pydantic"
proof -
  have "risk_of (risk_value r) = Some r" for r by (cases r) (simp_all add: risk_of_def)
  then have "schema_item (PStr s) a (risk_value r) = Inr \<lparr>item_system = s, item_action = a, item_risk = r\<rparr>" for s a r
    by (simp add: schema_item_def)
  moreover have "\<exists>m. schema_item v a r = Inl (Exc ValidationError m)" if "str_of v = None" for v a r
    using that by (cases v) (auto simp: schema_item_def)
  moreover have "exc_class_of e = ValidationError" if "schema_plan v = Inl e" for v e
    using that by (auto simp: schema_plan_def split: pyval.splits option.splits sum.splits)
  ultimately show ?thesis by (simp add: pydantic_ok_def documented_pydantic_def)
qed

text \<open>A model that leaves two of the three systems out.\<close>

definition forgetful_sdk :: gemini_sdk where
  "forgetful_sdk = \<lparr>installed = True, create_interaction = (\<lambda>m s. ret ''text''),
     json_loads = (\<lambda>s. Inr (PDict [(''items'', PList [PDict [(''system'', PStr ''vpn''), (''action'', PStr ''Revoke''),
       (''risk_level'', PStr ''high'')]])]))\<rparr>"

definition plan_for :: "string list \<Rightarrow> plan" where
  "plan_for ss = \<lparr>plan_items = map (\<lambda>s. \<lparr>item_system = s, item_action = ''Revoke'', item_risk = Low\<rparr>) ss, plan_notes = []\<rparr>"

theorem validate_plan_spec_witness:
  "(\<exists>q. validate_plan (plan_for [''vpn'', ''slack'', ''netsuite'']) sample_employee = Inr q)
   \<and> (\<forall>p. validate_plan (plan_for [''vpn'']) sample_employee \<noteq> Inr p)"
proof -
  have "validate_plan (plan_for [''vpn'', ''slack'', ''netsuite'']) sample_employee =
      Inr (plan_for [''vpn'', ''slack'', ''netsuite''])"
    using validate_plan_spec [OF sample_employee_systems, of "plan_for [''vpn'', ''slack'', ''netsuite'']"
        "plan_for [''vpn'', ''slack'', ''netsuite'']"] by (auto simp: plan_for_def)
  moreover have "validate_plan (plan_for [''vpn'']) sample_employee \<noteq> Inr p" for p
    using validate_plan_spec [OF sample_employee_systems, of "plan_for [''vpn'']" p] by (auto simp: plan_for_def)
  ultimately show ?thesis by blast
qed

theorem gemini_plan_is_validated_witness:
  "\<exists>e w'. gemini_generate forgetful_sdk documented_pydantic DEFAULT_MODEL sample_employee sample_world = (Inl e, w')
    \<and> (is_instance e TransientToolError \<or> is_instance e InvalidPlan)"
proof -
  obtain r w' where gen: "gemini_generate forgetful_sdk documented_pydantic DEFAULT_MODEL sample_employee sample_world = (r, w')"
    by (meson surj_pair)
  have res: "case r of
      Inr p \<Rightarrow> plan_items p \<noteq> [] \<and> item_system ` set (plan_items p) = set [''netsuite'', ''slack'', ''vpn'']
    | Inl e \<Rightarrow> is_instance e TransientToolError \<or> is_instance e InvalidPlan"
    by (rule gemini_plan_is_validated [OF sample_employee_systems gen])
      (simp_all add: forgetful_sdk_def ret_def)
  obtain prompt where "gemini_prompt sample_employee = Inr prompt"
    by (simp add: gemini_prompt_def sample_employee_def EMPLOYEE_DIRECTORY_def py_get_def)
  then have "r = validate_plan \<lparr>plan_items = [\<lparr>item_system = ''vpn'', item_action = ''Revoke'', item_risk = High\<rparr>], plan_notes = []\<rparr>
      sample_employee"
    using gen by (simp add: gemini_generate_def eff_apply forgetful_sdk_def parse_plan_def documented_pydantic_def
        schema_plan_def schema_entry_def schema_item_def risk_of_def)
  then have "r \<noteq> Inr p" for p
    using res validate_planD by (cases r) fastforce+
  with gen res show ?thesis by (cases r) auto
qed

theorem fake_plan_covers_the_record_witness:
  "\<exists>p. fake_plan documented_pydantic sample_employee = Inr p
    \<and> map item_system (plan_items p) = [''netsuite'', ''slack'', ''vpn'']"
  using fake_plan_covers_the_record [OF documented_pydantic_ok sample_employee_systems]
  by (cases "fake_plan documented_pydantic sample_employee") auto

end
