(* ===== verification/Nodes.thy ===== *)
theory Nodes
  imports Llm
begin

text \<open>
  \<open>orchestration/nodes.py\<close>, \<open>orchestration/tracing.py\<close> and \<open>orchestration/services.py\<close>: the
  guard, the span that traces a step without a tool, and the seven nodes.  The graph state is
  the dict the nodes read and update.  LangGraph's \<open>interrupt\<close> is a parameter of every node:
  it either leaves the node or yields the value the run was resumed with.
\<close>

section \<open>Services\<close>

record services =
  svc_executor :: executor
  svc_llm :: llm_provider
  svc_pydantic :: pydantic
  svc_isoformat :: "ts \<Rightarrow> string"

type_synonym ostate = pyval
type_synonym interrupt = "pyval \<Rightarrow> exc + pyval"
type_synonym node = "services \<Rightarrow> interrupt \<Rightarrow> ostate \<Rightarrow> (string \<times> pyval) list py"

text \<open>
  \<open>build_services\<close>: the fault settings go into the process (the argument, or else the
  environment), the provider is the one given or the configured one.
\<close>

definition fault_times :: "int \<Rightarrow> (string \<Rightarrow> exc + int) \<Rightarrow> environ \<Rightarrow> exc + int" where
  "fault_times given to_int env =
     (if given \<noteq> 0 then Inr given else to_int (env_get env ''OFFBOARDING_IAM_FAIL_TIMES'' ''0''))"

definition build_services ::
  "gemini_sdk \<Rightarrow> pydantic \<Rightarrow> tenacity \<Rightarrow> (ts \<Rightarrow> string) \<Rightarrow> (string \<Rightarrow> exc + int) \<Rightarrow> environ \<Rightarrow>
   llm_provider option \<Rightarrow> retry_policy option \<Rightarrow> int \<Rightarrow> bool \<Rightarrow> services py" where
  "build_services sdk lib tenacity isof to_int env llm policy fail_times fail_perm =
     mbind (lift_sum (fault_times fail_times to_int env)) (\<lambda>n.
     mseq (modify (\<lambda>w. w\<lparr>iam := \<lparr>remaining_failures = n, fail_permanently = fail_perm, crash_after_apply = False\<rparr>,
                         paperwork_failures := 0\<rparr>))
     (mbind (lift_sum (build_registry APP_TOOLS [])) (\<lambda>reg.
      mbind (case llm of Some l \<Rightarrow> ret l | None \<Rightarrow> lift_sum (build_llm sdk lib env None)) (\<lambda>l.
      ret \<lparr>svc_executor = \<lparr>ex_registry = reg,
             ex_policy = (case policy of Some p \<Rightarrow> p | None \<Rightarrow> default_policy), ex_tenacity = tenacity\<rparr>,
           svc_llm = l, svc_pydantic = lib, svc_isoformat = isof\<rparr>))))"

section \<open>Spans\<close>

text \<open>
  The body of a \<open>with step_span(...) as span\<close> block runs over the state and the span's detail.
\<close>

type_synonym 'a spanned = "(world \<times> (string \<times> pyval) list, exc, 'a) eff"

definition in_span :: "'a py \<Rightarrow> 'a spanned" where
  "in_span m = (\<lambda>(w, d). case m w of (r, w') \<Rightarrow> (r, (w', d)))"

definition set_detail :: "(string \<times> pyval) list \<Rightarrow> unit spanned" where
  "set_detail kvs = modify (\<lambda>(w, d). (w, dict_update d kvs))"

text \<open>\<open>redact(span.detail) or None\<close>.\<close>

definition span_detail :: "(string \<times> pyval) list \<Rightarrow> pyval option" where
  "span_detail d = (if truthy (redact (PDict d)) then Some (redact (PDict d)) else None)"

definition close_span :: "nat \<Rightarrow> (exc + 'a) \<Rightarrow> (string \<times> pyval) list \<Rightarrow> 'a py" where
  "close_span aid outcome d = (case outcome of
     Inl e \<Rightarrow> if is_instance e PyException
              then mseq (fail_attempt aid (type_name e) (exc_message e) (span_detail d)) (raise e)
              else raise e
   | Inr a \<Rightarrow> mseq (complete_attempt aid (span_detail d) None) (ret a))"

definition step_span :: "string \<Rightarrow> string \<Rightarrow> string option \<Rightarrow> 'a spanned \<Rightarrow> 'a py" where
  "step_span rid sname tool body =
     mbind (start_attempt rid sname tool) (\<lambda>row.
     (\<lambda>w. case body (w, []) of (r, (w', d)) \<Rightarrow> close_span (att_id row) r d w'))"

section \<open>The guard and the pause check\<close>

definition ALLOWLISTS :: "step_name \<Rightarrow> string set" where
  "ALLOWLISTS s = (case s of
     FETCH_EMPLOYEE \<Rightarrow> {''hr_directory.get_employee''}
   | PLAN_DEPROVISIONING \<Rightarrow> {}
   | AWAIT_HR_APPROVAL \<Rightarrow> {}
   | REVOKE_ACCESS \<Rightarrow> {''iam.revoke_access''}
   | SEND_EXIT_PAPERWORK \<Rightarrow> {''documents.send_exit_paperwork''}
   | AWAIT_SIGNED_DOCUMENT \<Rightarrow> {}
   | FINALIZE \<Rightarrow> {''documents.archive_record''})"

text \<open>\<open>state["run_id"]\<close>, which is always a string.\<close>

definition state_run_id :: "ostate \<Rightarrow> exc + string" where
  "state_run_id st = sum_bind (py_item st ''run_id'') (\<lambda>v. case v of
     PStr s \<Rightarrow> Inr s | _ \<Rightarrow> Inl (Exc TypeError ''run_id is not a string''))"

definition cancelled_before :: "run \<Rightarrow> string \<Rightarrow> exc" where
  "cancelled_before r sname = Exc RunCancelled (''run '' @ run_id r @ '' was cancelled before '' @ sname)"

definition steps_spent :: "run \<Rightarrow> exc" where
  "steps_spent r = Exc BudgetExceeded (''run '' @ run_id r @ '' has used its '' @ show_int (max_steps r) @ '' step allowance'')"

definition guard :: "ostate \<Rightarrow> step_name \<Rightarrow> unit py" where
  "guard st s =
     mbind (lift_sum (state_run_id st)) (\<lambda>rid.
     mbind (runs_get rid) (\<lambda>r.
       if cancel_requested r then raise (cancelled_before r (step_value s))
       else if step_count r \<ge> max_steps r then raise (steps_spent r)
       else mseq (bump_counters (run_id r) 1 0) (ret ())))"

definition already_paused_here :: "string \<Rightarrow> step_name \<Rightarrow> bool py" where
  "already_paused_here rid s = mbind (latest_for_step rid (step_value s)) (\<lambda>latest.
     ret (case latest of None \<Rightarrow> False | Some a \<Rightarrow> att_status a = SPaused))"

text \<open>The check-before-create write in front of an \<open>interrupt\<close>.\<close>

definition pause_once :: "string \<Rightarrow> step_name \<Rightarrow> pause_reason \<Rightarrow> (exc + pyval) \<Rightarrow> unit py" where
  "pause_once rid s reason det =
     mbind (already_paused_here rid s) (\<lambda>paused.
       if paused then ret ()
       else mbind (start_attempt rid (step_value s) None) (\<lambda>row.
            mbind (lift_sum det) (\<lambda>d.
            mseq (pause_attempt (att_id row) reason (Some d)) (ret ()))))"

text \<open>\<open>[item["system"] for item in v]\<close>.\<close>

definition systems_of :: "pyval \<Rightarrow> exc + pyval list" where
  "systems_of v = sum_bind (py_list v) (sum_map (\<lambda>i. py_item i ''system''))"

definition note_event :: "string \<Rightarrow> string \<times> pyval" where
  "note_event s = (''events'', PList [PStr s])"

section \<open>The nodes\<close>

definition fetch_employee :: node where
  "fetch_employee svc interrupt st =
     mseq (guard st FETCH_EMPLOYEE)
     (mbind (lift_sum (state_run_id st)) (\<lambda>rid.
      mbind (lift_sum (py_item st ''employee_id'')) (\<lambda>emp.
      mbind (execute (svc_executor svc) rid (step_value FETCH_EMPLOYEE) ''hr_directory.get_employee''
               (ALLOWLISTS FETCH_EMPLOYEE) [(''employee_id'', emp)] None) (\<lambda>outcome.
      let employee = exec_result outcome in
      lift_sum (sum_bind (py_item employee ''name'') (\<lambda>name.
        sum_bind (py_item employee ''systems'') (\<lambda>systems. sum_bind (py_len systems) (\<lambda>n.
        sum_bind (py_item employee ''last_day'') (\<lambda>day.
        Inr [(''employee'', employee),
             note_event (''Fetched HR record for '' @ str_val name @ '' ('' @ show_int n @ '' systems, last day '' @
               str_val day @ '').'')])))))))))"

definition plan_deprovisioning :: node where
  "plan_deprovisioning svc interrupt st =
     mseq (guard st PLAN_DEPROVISIONING)
     (mbind (lift_sum (state_run_id st)) (\<lambda>rid.
      mbind (step_span rid (step_value PLAN_DEPROVISIONING) (Some (''llm:'' @ llm_name (svc_llm svc)))
        (mbind (lift_sum (py_item st ''employee'')) (\<lambda>employee.
         mbind (in_span (generate_plan (svc_llm svc) employee)) (\<lambda>p.
         let checklist = map (model_dump (svc_pydantic svc)) (plan_items p) in
         mbind (lift_sum (sum_map (\<lambda>i. py_item i ''system'') checklist)) (\<lambda>systems.
         mseq (set_detail [(''provider'', PStr (llm_name (svc_llm svc))),
                 (''item_count'', PInt (int (length checklist))), (''systems'', PList systems)])
         (ret (p, checklist))))))) (\<lambda>(p, checklist).
      ret [(''checklist'', PList checklist), (''plan_notes'', PStr (plan_notes p)),
           note_event (''Generated a '' @ show_int (int (length checklist)) @ ''-item deprovisioning plan.'')])))"

definition approval_request :: "ostate \<Rightarrow> string \<Rightarrow> exc + pyval" where
  "approval_request st rid =
     sum_bind (py_item st ''employee'') (\<lambda>employee.
     sum_bind (py_item employee ''employee_id'') (\<lambda>eid. sum_bind (py_item employee ''name'') (\<lambda>name.
     sum_bind (py_item employee ''department'') (\<lambda>dep. sum_bind (py_item employee ''last_day'') (\<lambda>day.
     sum_bind (py_get st ''checklist'' (PList [])) (\<lambda>checklist. sum_bind (py_get st ''plan_notes'' (PStr [])) (\<lambda>nts.
     Inr (PDict [(''pause_reason'', PStr (pause_value HR_APPROVAL)), (''run_id'', PStr rid),
       (''employee'', PDict [(''employee_id'', eid), (''name'', name), (''department'', dep), (''last_day'', day)]),
       (''checklist'', checklist), (''notes'', nts),
       (''prompt'', PStr ''Approve revoking access to these systems? This action cannot be undone from here.'')]))))))))"

definition rejection :: "pyval \<Rightarrow> exc" where
  "rejection nte = Exc ApprovalRejected
     (if truthy nte then str_val nte else ''HR rejected the deprovisioning plan'')"

text \<open>The block after the pause: what the reviewer decided is traced, and a refusal raised.\<close>

definition record_decision :: "pyval \<Rightarrow> unit spanned" where
  "record_decision decision =
     mbind (lift_sum (py_get decision ''approved'' PNone)) (\<lambda>app.
     mbind (lift_sum (py_get decision ''approver'' PNone)) (\<lambda>approver.
     mbind (lift_sum (py_get decision ''note'' PNone)) (\<lambda>nte.
     mseq (set_detail [(''approved'', PBool (truthy app)), (''approver'', approver), (''note'', nte)])
     (if \<not> truthy app then raise (rejection nte) else ret ()))))"

definition await_hr_approval :: node where
  "await_hr_approval svc interrupt st =
     mseq (guard st AWAIT_HR_APPROVAL)
     (mbind (lift_sum (state_run_id st)) (\<lambda>rid.
      mseq (pause_once rid AWAIT_HR_APPROVAL HR_APPROVAL
              (sum_bind (py_get st ''checklist'' (PList [])) (\<lambda>c. sum_bind (py_len c) (\<lambda>n.
                 Inr (PDict [(''item_count'', PInt n)])))))
      (mbind (lift_sum (approval_request st rid)) (\<lambda>request.
       mbind (lift_sum (interrupt request)) (\<lambda>decision.
       mseq (step_span rid (step_value AWAIT_HR_APPROVAL) None (record_decision decision))
       (lift_sum (sum_bind (py_get decision ''approver'' (PStr ''unknown'')) (\<lambda>approver.
          Inr [(''approval'', decision), note_event (''Approved by '' @ str_val approver @ ''.'')]))))))))"

definition revoke_access :: node where
  "revoke_access svc interrupt st =
     mseq (guard st REVOKE_ACCESS)
     (mbind (lift_sum (sum_bind (py_item st ''checklist'') systems_of)) (\<lambda>systems.
      mbind (lift_sum (state_run_id st)) (\<lambda>rid.
      mbind (lift_sum (py_item st ''employee_id'')) (\<lambda>emp.
      mbind (execute (svc_executor svc) rid (step_value REVOKE_ACCESS) ''iam.revoke_access''
               (ALLOWLISTS REVOKE_ACCESS) [(''employee_id'', emp), (''systems'', PList systems)]
               (Some ''revoke_all_systems'')) (\<lambda>outcome.
      lift_sum (sum_bind (py_item (exec_result outcome) ''revocation_id'') (\<lambda>rev.
        Inr [(''revocation'', exec_result outcome),
             note_event ((if exec_replayed outcome then ''Replayed'' else ''Revoked'') @ '' access to '' @
               show_int (int (length systems)) @ '' systems (attempts: '' @ show_int (int (exec_attempts outcome)) @
               '', revocation '' @ str_val rev @ '').'')])))))))"

definition send_exit_paperwork :: node where
  "send_exit_paperwork svc interrupt st =
     mseq (guard st SEND_EXIT_PAPERWORK)
     (mbind (lift_sum (state_run_id st)) (\<lambda>rid.
      mbind (lift_sum (py_item st ''employee_id'')) (\<lambda>emp.
      mbind (lift_sum (sum_bind (py_item st ''employee'') (\<lambda>e. py_item e ''email''))) (\<lambda>email.
      mbind (lift_sum (py_item st ''checklist'')) (\<lambda>checklist.
      mbind (execute (svc_executor svc) rid (step_value SEND_EXIT_PAPERWORK) ''documents.send_exit_paperwork''
               (ALLOWLISTS SEND_EXIT_PAPERWORK)
               [(''employee_id'', emp), (''email'', email), (''checklist'', checklist)] (Some ''send_packet'')) (\<lambda>outcome.
      lift_sum (sum_bind (py_item (exec_result outcome) ''document_id'') (\<lambda>doc.
        Inr [(''paperwork'', exec_result outcome),
             note_event ((if exec_replayed outcome then ''Replayed sending'' else ''Sent'') @ '' exit paperwork to '' @
               str_val email @ '' ('' @ str_val doc @ '').'')]))))))))"

definition document_of :: "ostate \<Rightarrow> exc + pyval" where
  "document_of st = sum_bind (py_item st ''paperwork'') (\<lambda>p. py_item p ''document_id'')"

definition signature_request :: "ostate \<Rightarrow> string \<Rightarrow> exc + pyval" where
  "signature_request st rid = sum_bind (document_of st) (\<lambda>doc.
     Inr (PDict [(''pause_reason'', PStr (pause_value SIGNED_DOCUMENT)), (''run_id'', PStr rid), (''document_id'', doc),
       (''prompt'', PStr ''Waiting for the signed exit paperwork. Resume this run when the signed document is received.'')]))"

definition record_signature :: "pyval \<Rightarrow> unit spanned" where
  "record_signature event =
     mbind (lift_sum (py_get event ''document_id'' PNone)) (\<lambda>doc.
     mbind (lift_sum (py_get event ''signed_at'' PNone)) (\<lambda>signed.
     set_detail [(''document_id'', doc), (''signed_at'', signed)]))"

definition await_signed_document :: node where
  "await_signed_document svc interrupt st =
     mseq (guard st AWAIT_SIGNED_DOCUMENT)
     (mbind (lift_sum (state_run_id st)) (\<lambda>rid.
      mseq (pause_once rid AWAIT_SIGNED_DOCUMENT SIGNED_DOCUMENT
              (sum_bind (document_of st) (\<lambda>doc. Inr (PDict [(''document_id'', doc)]))))
      (mbind (lift_sum (signature_request st rid)) (\<lambda>request.
       mbind (lift_sum (interrupt request)) (\<lambda>event.
       mseq (step_span rid (step_value AWAIT_SIGNED_DOCUMENT) None (record_signature event))
       (lift_sum (sum_bind (py_get event ''document_id'' (PStr ''unknown'')) (\<lambda>doc.
          Inr [(''signed_document'', event), note_event (''Received signed document '' @ str_val doc @ ''.'')]))))))))"

definition archive_summary :: "ostate \<Rightarrow> exc + pyval" where
  "archive_summary st =
     sum_bind (py_item st ''employee_id'') (\<lambda>emp.
     sum_bind (sum_bind (py_item st ''checklist'') systems_of) (\<lambda>systems.
     sum_bind (sum_bind (py_item st ''revocation'') (\<lambda>r. py_item r ''revocation_id'')) (\<lambda>rev.
     sum_bind (document_of st) (\<lambda>doc.
     sum_bind (sum_bind (py_get st ''approval'' (PDict [])) (\<lambda>a. py_get a ''approver'' PNone)) (\<lambda>by.
     Inr (PDict [(''employee_id'', emp), (''systems_revoked'', PList systems), (''revocation_id'', rev),
       (''document_id'', doc), (''approved_by'', by)]))))))"

definition finalize :: node where
  "finalize svc interrupt st =
     mseq (guard st FINALIZE)
     (mbind (lift_sum (archive_summary st)) (\<lambda>summary.
      mbind (lift_sum (state_run_id st)) (\<lambda>rid.
      mbind (lift_sum (py_item st ''employee_id'')) (\<lambda>emp.
      mbind (execute (svc_executor svc) rid (step_value FINALIZE) ''documents.archive_record''
               (ALLOWLISTS FINALIZE) [(''employee_id'', emp), (''summary'', summary)] (Some ''archive'')) (\<lambda>outcome.
      lift_sum (sum_bind (py_item (exec_result outcome) ''archive_id'') (\<lambda>arc.
        Inr [(''archive'', exec_result outcome),
             note_event (''Offboarding complete; archived as '' @ str_val arc @ ''.'')])))))))"

text \<open>\<open>graph.py\<close>'s \<open>WORKFLOW\<close>: the steps in execution order.\<close>

definition WORKFLOW :: "(step_name \<times> node) list" where
  "WORKFLOW =
     [(FETCH_EMPLOYEE, fetch_employee), (PLAN_DEPROVISIONING, plan_deprovisioning),
      (AWAIT_HR_APPROVAL, await_hr_approval), (REVOKE_ACCESS, revoke_access),
      (SEND_EXIT_PAPERWORK, send_exit_paperwork), (AWAIT_SIGNED_DOCUMENT, await_signed_document),
      (FINALIZE, finalize)]"

section \<open>Every node is safe\<close>

text \<open>What the nodes rely on from a provider of plans: it leaves the database alone.\<close>

definition same_db :: "world \<Rightarrow> world \<Rightarrow> bool" where
  "same_db w w' \<longleftrightarrow> runs_tbl w' = runs_tbl w \<and> trace_tbl w' = trace_tbl w \<and> trace_seq w' = trace_seq w
     \<and> effects_tbl w' = effects_tbl w \<and> provider_tbl w' = provider_tbl w"

interpretation db_same: guarantee same_db
  by unfold_locales (auto simp: same_db_def)

definition llm_safe :: "llm_provider \<Rightarrow> bool" where
  "llm_safe llm \<longleftrightarrow> (\<forall>emp. guar same_db (generate_plan llm emp))"

lemma fake_llm_safe [simp]: "llm_safe (fake_llm lib)"
  by (simp add: llm_safe_def fake_llm_def db_same.guar_lift_sum)

lemma gemini_llm_safe:
  assumes "\<And>m s. guar same_db (create_interaction sdk m s)" and "gemini_llm sdk lib env model key = Inr llm"
  shows "llm_safe llm"
proof -
  have "guar same_db (gemini_generate sdk lib m emp)" for m emp
    unfolding gemini_generate_def by (auto intro!: db_same.guar_intros assms(1))
  then show ?thesis using assms(2)
    by (auto simp: gemini_llm_def llm_safe_def split: if_splits option.splits)
qed

lemma same_db_safe: "same_db w w' \<Longrightarrow> safe_step w w'"
  by (rule tables_same_safe) (simp_all add: same_db_def provider_keeps_def lookup_provider_def refs_kept_def refs_ok_def lookup_run_def)

lemma only_trace_frames: "only_trace w w' \<Longrightarrow> runs_evolve w w' \<and> provider_keeps w w'"
  by (simp add: runs_evolve_same only_trace_def provider_keeps_def lookup_provider_def)

lemma close_span_only_trace: "guar only_trace (close_span aid r d)"
  unfolding close_span_def by (auto intro!: trace_only.guar_intros guar_rules split: sum.splits)

lemma close_span_safe:
  assumes "trace_wf w \<Longrightarrow> \<exists>r. tfind att_id aid (trace_tbl w) = Some r \<and> att_status r \<noteq> SPaused"
  shows "safe_step w (snd (close_span aid r d w))"
proof -
  have "safe_step w (snd (close_attempt aid st None et em (span_detail d) None w))"
    if "st = SCompleted \<or> st = SFailed" for st et em
  proof (cases "span_detail d")
    case None
    then show ?thesis using that assms by (auto intro!: close_attempt_None_safe)
  next
    case (Some v)
    then have "redact v = v" by (auto simp: span_detail_def simp del: redact.simps split: if_splits)
    then show ?thesis using that Some by (auto intro!: guarD [OF close_attempt_safe_step])
  qed
  then have "safe_step w (snd (complete_attempt aid (span_detail d) None w))"
      "safe_step w (snd (fail_attempt aid et em (span_detail d) w))" for et em
    by (simp_all add: close_defs)
  then show ?thesis
    by (cases r) (simp_all add: close_span_def safety.rel_refl)
qed

lemma step_span_safe:
  assumes body: "\<And>s. same_db (fst s) (fst (snd (body s)))"
  shows "guar safe_step (step_span rid sname tool body)"
proof (rule guarI)
  fix w
  obtain rs ws where start: "start_attempt rid sname tool w = (rs, ws)" by (meson surj_pair)
  have first: "safe_step w ws" "only_trace w ws"
    using guarD' [OF start_attempt_safe_step start] guarD' [OF start_attempt_only_trace start] .
  show "safe_step w (snd (step_span rid sname tool body w))"
  proof (cases rs)
    case (Inl e)
    then show ?thesis using start first by (simp add: step_span_def mbind_apply)
  next
    case (Inr row)
    obtain r w' d where b: "body (ws, []) = (r, (w', d))" by (metis surj_pair)
    have same: "same_db ws w'" using body [of "(ws, [])"] b by simp
    have run: "snd (step_span rid sname tool body w) = snd (close_span (att_id row) r d w')"
      using start Inr b by (simp add: step_span_def mbind_apply)
    let ?v = "snd (close_span (att_id row) r d w')"
    show ?thesis unfolding run
    proof (cases "trace_wf w")
      case True
      have "lookup_run w rid \<noteq> None" using start Inr by (auto simp: start_attempt_eq [OF True] split: if_splits)
      from True this obtain row' wo where "start_attempt rid sname tool w = (Inr row', wo)"
          "trace_tbl wo = trace_tbl w @ [row']" "att_status row' = SRunning" "trace_wf wo"
        by (rule start_attempt_opens)
      then have "trace_wf ws" "row \<in> set (trace_tbl ws)" "att_status row = SRunning" using start Inr by auto
      then have "\<exists>r. tfind att_id (att_id row) (trace_tbl w') = Some r \<and> att_status r \<noteq> SPaused"
        using trace_wf_find [of ws row] same by (simp add: same_db_def)
      then have "safe_step w' ?v" by (intro close_span_safe)
      then show "safe_step w ?v"
        using first(1) same_db_safe [OF same] by (blast intro: safety.rel_trans)
    next
      case False
      have "only_trace w' ?v" by (rule guarD [OF close_span_only_trace])
      then have "runs_evolve w ?v" "provider_keeps w ?v"
        using only_trace_frames [OF first(2)] only_trace_frames [of w' ?v] same_db_safe [OF same, unfolded safe_step_def]
        by (blast intro: evolving.rel_trans provider_keeping.rel_trans)+
      then show "safe_step w ?v" using False by (simp add: safe_step_def trace_safe_def db_inv_def)
    qed
  qed
qed

lemma guard_Inr: "guard st s w = (Inr u, w') \<longleftrightarrow> (\<exists>rid r. state_run_id st = Inr rid \<and> lookup_run w rid = Some r
    \<and> \<not> cancel_requested r \<and> step_count r < max_steps r \<and> w' = snd (bump_counters rid 1 0 w))"
  by (auto simp: guard_def eff_apply runs_get_eq bump_counters_eq Let_def lookup_run_id
      split: sum.splits option.splits if_splits)

lemma guard_Inl: "guard st s w = (Inl e, w') \<Longrightarrow> w' = w"
  by (auto simp: guard_def eff_apply runs_get_eq bump_counters_eq Let_def lookup_run_id
      split: sum.splits option.splits if_splits)

lemma guard_safe [guar_rules]: "guar safe_step (guard st s)"
proof (rule guarI)
  fix w
  obtain r w' where g: "guard st s w = (r, w')" by (meson surj_pair)
  show "safe_step w (snd (guard st s w))"
  proof (cases r)
    case (Inl e)
    then show ?thesis using g guard_Inl [of st s w e w'] by (simp add: safety.rel_refl)
  next
    case (Inr u)
    then obtain rid ru where "state_run_id st = Inr rid" "lookup_run w rid = Some ru" "step_count ru < max_steps ru"
        "w' = snd (bump_counters rid 1 0 w)"
      using g guard_Inr [of st s w u w'] by auto
    then show ?thesis using g bump_counters_safe [of w rid ru 1 0] by simp
  qed
qed

lemma latest_for_step_safe [guar_rules]: "guar safe_step (latest_for_step rid s)"
  by (simp add: latest_for_step_def safety.guar_gets)

lemma pause_once_safe [guar_rules]: "guar safe_step (pause_once rid s reason det)"
  unfolding pause_once_def already_paused_here_def by (auto intro!: safety.guar_intros guar_rules)

lemma in_span_same: "guar same_db m \<Longrightarrow> same_db (fst s) (fst (snd (in_span m s)))"
  by (cases s) (auto simp: in_span_def dest: guarD' split: prod.splits)

definition span_same :: "'a spanned \<Rightarrow> bool" where
  "span_same body \<longleftrightarrow> (\<forall>s. same_db (fst s) (fst (snd (body s))))"

lemma span_same_bind:
  assumes "span_same b" and "\<And>x. span_same (k x)"
  shows "span_same (mbind b k)"
  unfolding span_same_def
proof
  fix s
  obtain r s' where b: "b s = (r, s')" by (meson surj_pair)
  have "same_db (fst s) (fst s')" using assms(1) b by (metis span_same_def snd_conv)
  moreover have "same_db (fst s') (fst (snd (k x s')))" for x using assms(2) unfolding span_same_def by blast
  ultimately show "same_db (fst s) (fst (snd (mbind b k s)))"
    using b by (cases r) (auto simp: mbind_apply intro: db_same.rel_trans)
qed

lemma span_same_seq: "span_same b \<Longrightarrow> span_same b' \<Longrightarrow> span_same (mseq b b')"
  by (simp add: mseq_def span_same_bind)

lemma span_same_basic: "guar same_db m \<Longrightarrow> span_same (in_span m)"
  "span_same (set_detail kvs)" "span_same (lift_sum r)" "span_same (ret a)" "span_same (raise e)"
  by (auto simp: span_same_def set_detail_def db_same.rel_refl in_span_same split: prod.splits)

lemmas span_same_intros = span_same_basic span_same_bind span_same_seq

lemma span_safe: "span_same body \<Longrightarrow> guar safe_step (step_span rid sname tool body)"
  unfolding span_same_def by (rule step_span_safe) blast

lemma record_decision_same [simp]: "span_same (record_decision decision)"
  unfolding record_decision_def by (auto intro!: span_same_intros)

lemma record_signature_same [simp]: "span_same (record_signature event)"
  unfolding record_signature_def by (auto intro!: span_same_intros)

definition services_safe :: "services \<Rightarrow> bool" where
  "services_safe svc \<longleftrightarrow> tools_safe (ex_registry (svc_executor svc)) \<and> llm_safe (svc_llm svc)"

lemma nodes_safe:
  assumes svc: "services_safe svc"
  shows "guar safe_step (fetch_employee svc intr st)" "guar safe_step (plan_deprovisioning svc intr st)"
    "guar safe_step (await_hr_approval svc intr st)" "guar safe_step (revoke_access svc intr st)"
    "guar safe_step (send_exit_paperwork svc intr st)" "guar safe_step (await_signed_document svc intr st)"
    "guar safe_step (finalize svc intr st)"
proof -
  have tools: "tools_safe (ex_registry (svc_executor svc))" and llm: "\<And>e. guar same_db (generate_plan (svc_llm svc) e)"
    using svc by (simp_all add: services_safe_def llm_safe_def)
  note exec = execute_safe [OF tools]
  note rules = safety.guar_intros guard_safe pause_once_safe exec span_safe span_same_intros
    record_decision_same record_signature_same llm
  show "guar safe_step (fetch_employee svc intr st)"
    unfolding fetch_employee_def Let_def by (intro rules)
  show "guar safe_step (plan_deprovisioning svc intr st)"
    unfolding plan_deprovisioning_def Let_def by (auto intro!: rules)
  show "guar safe_step (await_hr_approval svc intr st)"
    unfolding await_hr_approval_def by (intro rules)
  show "guar safe_step (revoke_access svc intr st)"
    unfolding revoke_access_def by (intro rules)
  show "guar safe_step (send_exit_paperwork svc intr st)"
    unfolding send_exit_paperwork_def by (intro rules)
  show "guar safe_step (await_signed_document svc intr st)"
    unfolding await_signed_document_def by (intro rules)
  show "guar safe_step (finalize svc intr st)"
    unfolding finalize_def by (intro rules)
qed

lemma workflow_safe: "services_safe svc \<Longrightarrow> (s, n) \<in> set WORKFLOW \<Longrightarrow> guar safe_step (n svc intr st)"
  by (auto simp: WORKFLOW_def intro: nodes_safe)

section \<open>The guard\<close>

lemma node_guarded: "(s, n) \<in> set WORKFLOW \<Longrightarrow> guard st s w = (Inl e, w') \<Longrightarrow> n svc intr st w = (Inl e, w')"
  by (auto simp: WORKFLOW_def fetch_employee_def plan_deprovisioning_def await_hr_approval_def revoke_access_def
      send_exit_paperwork_def await_signed_document_def finalize_def mseq_apply)

text \<open>
  C19. No step of a cancelled run, or of one that has used its step allowance, does anything:
  whichever of the seven nodes is entered, it raises \<open>RunCancelled\<close> (or \<open>BudgetExceeded\<close>)
  and leaves the world exactly as it was: nothing called, counted or traced.
\<close>

theorem guard_stops_every_node:
  assumes "(s, n) \<in> set WORKFLOW" and "state_run_id st = Inr rid" and "lookup_run w rid = Some r"
    and "cancel_requested r \<or> max_steps r \<le> step_count r"
  shows "n svc intr st w = (Inl (if cancel_requested r then cancelled_before r (step_value s) else steps_spent r), w)
    \<and> exc_class_of (cancelled_before r (step_value s)) = RunCancelled
    \<and> exc_class_of (steps_spent r) = BudgetExceeded"
proof -
  have "guard st s w = (Inl (if cancel_requested r then cancelled_before r (step_value s) else steps_spent r), w)"
    using assms(2-4) by (auto simp: guard_def eff_apply runs_get_eq)
  from node_guarded [OF assms(1) this] show ?thesis
    by (simp add: cancelled_before_def steps_spent_def)
qed

section \<open>The gates\<close>

text \<open>After a guard that lets the step through only the run's counters have changed.\<close>

lemma guard_passes:
  assumes "state_run_id st = Inr rid" and "lookup_run w rid = Some r" and "\<not> cancel_requested r"
    and "step_count r < max_steps r"
  obtains w1 r1 where "guard st s w = (Inr (), w1)" "only_runs w w1" "lookup_run w1 rid = Some r1"
    "step_count r1 = step_count r + 1" "max_steps r1 = max_steps r" "cancel_requested r1 = cancel_requested r"
    "tool_call_count r1 = tool_call_count r" "max_tool_calls r1 = max_tool_calls r" "status r1 = status r"
    "employee_id r1 = employee_id r"
proof -
  let ?t = "clock w (clock_reads w)"
  let ?w1 = "w\<lparr>clock_reads := Suc (clock_reads w), runs_tbl := tupdate run_id rid (add_counts 1 0 ?t) (runs_tbl w)\<rparr>"
  have "guard st s w = (Inr (), ?w1)"
    using assms lookup_run_id [OF assms(2)] by (simp add: guard_def eff_apply runs_get_eq bump_counters_eq Let_def)
  moreover have "lookup_run ?w1 rid = Some (add_counts 1 0 ?t r)"
    using assms(2) by (simp add: lookup_run_def tfind_tupdate)
  ultimately show ?thesis by (intro that [of ?w1 "add_counts 1 0 ?t r"]) (simp_all add: only_runs_def)
qed

lemma only_runs_trace: "only_runs w w' \<Longrightarrow> history w' rid s = history w rid s"
  "only_runs w w' \<Longrightarrow> trace_wf w' = trace_wf w"
  using history_cong [of w' w] trace_wf_cong [of w' w] by (simp_all add: only_runs_def)

lemma already_paused_eq:
  assumes "trace_wf w"
  shows "already_paused_here rid s w =
    (Inr (history w rid (step_value s) \<noteq> [] \<and> att_status (last (history w rid (step_value s))) = SPaused), w)"
  using latest_row_wf [OF assms, of rid "step_value s"]
  by (simp add: already_paused_here_def latest_for_step_def mbind_apply)

text \<open>A pause is traced once: the second time through, the write is skipped.\<close>

lemma pause_once_writes:
  assumes wf: "trace_wf w" and run: "lookup_run w rid \<noteq> None" and det: "det = Inr d"
  obtains w' where "pause_once rid s reason det w = (Inr (), w')" "only_trace w w'" "trace_wf w'"
    "history w' rid (step_value s) \<noteq> []" "att_status (last (history w' rid (step_value s))) = SPaused"
    "\<exists>rows. trace_tbl w' = trace_tbl w @ rows \<and> length rows \<le> 1"
proof (cases "history w rid (step_value s) \<noteq> [] \<and> att_status (last (history w rid (step_value s))) = SPaused")
  case True
  then show ?thesis
    using already_paused_eq [OF wf, of rid s] wf
    by (intro that [of w]) (simp_all add: pause_once_def mbind_apply trace_only.rel_refl)
next
  case False
  from wf run obtain row w1 where start: "start_attempt rid (step_value s) None w = (Inr row, w1)"
    "trace_tbl w1 = trace_tbl w @ [row]" "att_run row = rid" "att_step row = step_value s"
    "att_status row = SRunning" "trace_wf w1" "only_trace w w1"
    by (rule start_attempt_opens)
  have "SPaused \<in> {SCompleted, SFailed, SPaused}" by simp
  from close_last_row [OF start(6,2,5) this] obtain row' n where close:
    "close_attempt (att_id row) SPaused (Some reason) None None (Some d) None w1 =
      (Inr row', w1\<lparr>clock_reads := n, trace_tbl := trace_tbl w @ [row']\<rparr>)"
    "\<exists>t. row' = close_row SPaused (Some reason) None None (Some d) None t row"
    "trace_wf (w1\<lparr>clock_reads := n, trace_tbl := trace_tbl w @ [row']\<rparr>)"
    by blast
  let ?w' = "w1\<lparr>clock_reads := n, trace_tbl := trace_tbl w @ [row']\<rparr>"
  have "already_paused_here rid s w = (Inr False, w)" using already_paused_eq [OF wf, of rid s] False by simp
  then have "pause_once rid s reason det w = (Inr (), ?w')"
    using start(1) close(1) det by (simp add: pause_once_def eff_apply pause_attempt_def)
  moreover have "history ?w' rid (step_value s) = history w rid (step_value s) @ [row']" "att_status row' = SPaused"
    using close(2) start(3,4) by (auto simp: history_def)
  moreover have "only_trace w ?w'" using start(7) by (simp add: only_trace_def)
  ultimately show ?thesis using close(3) by (intro that [of ?w']) auto
qed

text \<open>A span whose body leaves the database alone, from its opening to its closed row.\<close>

lemma step_span_run:
  assumes wf: "trace_wf w" and run: "lookup_run w rid \<noteq> None"
    and body: "span_same body" and nodeath: "\<And>e s. fst (body s) = Inl e \<Longrightarrow> is_instance e PyException"
  obtains w1 r w2 d row w' where "trace_wf w1" "only_trace w w1" "body (w1, []) = (r, (w2, d))" "same_db w1 w2"
    "step_span rid sname tool body w = (r, w')" "trace_tbl w' = trace_tbl w @ [row]" "att_run row = rid"
    "att_step row = sname" "tool_invoked row = tool"
    "case r of Inl e \<Rightarrow> att_status row = SFailed \<and> error_type row = Some (type_name e) | Inr a \<Rightarrow> att_status row = SCompleted"
    "detail row = redact (PDict d)"
    "runs_tbl w' = runs_tbl w" "effects_tbl w' = effects_tbl w" "provider_tbl w' = provider_tbl w" "trace_wf w'"
proof -
  from wf run obtain row w1 where start: "start_attempt rid sname tool w = (Inr row, w1)"
    "trace_tbl w1 = trace_tbl w @ [row]" "att_run row = rid" "att_step row = sname"
    "att_status row = SRunning" "tool_invoked row = tool" "detail row = PDict []" "trace_wf w1" "only_trace w w1"
    by (rule start_attempt_opens)
  obtain r w2 d where b: "body (w1, []) = (r, (w2, d))" by (metis surj_pair)
  have same: "same_db w1 w2" using body b by (metis span_same_def fst_conv snd_conv)
  have wf2: "trace_wf w2" "trace_tbl w2 = trace_tbl w @ [row]"
    using same start(2,8) trace_wf_cong [of w2 w1] by (simp_all add: same_db_def)
  have span: "step_span rid sname tool body w = close_span (att_id row) r d w2"
    using start(1) b by (simp add: step_span_def mbind_apply)
  have det: "(case span_detail d of None \<Rightarrow> PDict [] | Some v \<Rightarrow> json_roundtrip v) = redact (PDict d)"
    by (auto simp: span_detail_def json_roundtrip_redact simp del: redact.simps json_roundtrip.simps) (simp add: span_detail_def)
  show ?thesis
  proof (cases r)
    case (Inl e)
    have "SFailed \<in> {SCompleted, SFailed, SPaused}" by simp
    from close_last_row [OF wf2 start(5) this] obtain row' n where close:
      "close_attempt (att_id row) SFailed None (Some (type_name e)) (Some (exc_message e)) (span_detail d) None w2 =
        (Inr row', w2\<lparr>clock_reads := n, trace_tbl := trace_tbl w @ [row']\<rparr>)"
      "\<exists>t. row' = close_row SFailed None (Some (type_name e)) (Some (exc_message e)) (span_detail d) None t row"
      "trace_wf (w2\<lparr>clock_reads := n, trace_tbl := trace_tbl w @ [row']\<rparr>)"
      by blast
    have "is_instance e PyException" using nodeath [of "(w1, [])" e] b Inl by simp
    then have "step_span rid sname tool body w = (r, w2\<lparr>clock_reads := n, trace_tbl := trace_tbl w @ [row']\<rparr>)"
      using span close(1) Inl by (simp add: close_span_def mseq_apply fail_attempt_def)
    then show ?thesis using start close(2,3) b same Inl det
      by (intro that [of w1 r w2 d "w2\<lparr>clock_reads := n, trace_tbl := trace_tbl w @ [row']\<rparr>" row'])
        (auto simp: only_trace_def same_db_def simp del: redact.simps split: option.splits)
  next
    case (Inr a)
    have "SCompleted \<in> {SCompleted, SFailed, SPaused}" by simp
    from close_last_row [OF wf2 start(5) this] obtain row' n where close:
      "close_attempt (att_id row) SCompleted None None None (span_detail d) None w2 =
        (Inr row', w2\<lparr>clock_reads := n, trace_tbl := trace_tbl w @ [row']\<rparr>)"
      "\<exists>t. row' = close_row SCompleted None None None (span_detail d) None t row"
      "trace_wf (w2\<lparr>clock_reads := n, trace_tbl := trace_tbl w @ [row']\<rparr>)"
      by blast
    have "step_span rid sname tool body w = (r, w2\<lparr>clock_reads := n, trace_tbl := trace_tbl w @ [row']\<rparr>)"
      using span close(1) Inr by (simp add: close_span_def mseq_apply complete_attempt_def)
    then show ?thesis using start close(2,3) b same Inr det
      by (intro that [of w1 r w2 d "w2\<lparr>clock_reads := n, trace_tbl := trace_tbl w @ [row']\<rparr>" row'])
        (auto simp: only_trace_def same_db_def simp del: redact.simps split: option.splits)
  qed
qed

definition decided :: "(string \<times> pyval) list \<Rightarrow> string \<Rightarrow> pyval" where
  "decided d k = (case map_of d k of None \<Rightarrow> PNone | Some v \<Rightarrow> v)"

lemma record_decision_eq: "record_decision (PDict d) (w, []) =
    (if truthy (decided d ''approved'') then Inr () else Inl (rejection (decided d ''note'')),
     (w, [(''approved'', PBool (truthy (decided d ''approved''))), (''approver'', decided d ''approver''),
          (''note'', decided d ''note'')]))"
  by (simp add: record_decision_def eff_apply py_get_def decided_def set_detail_def dict_update_def)

lemma py_get_error: "py_get v k d = Inl e \<Longrightarrow> is_instance e PyException"
  by (cases v) (auto simp: py_get_def)

lemma record_decision_error: "fst (record_decision v s) = Inl e \<Longrightarrow> is_instance e PyException"
  by (auto simp: record_decision_def eff_apply rejection_def set_detail_def dest: py_get_error
      split: sum.splits prod.splits if_splits)

lemma record_signature_error: "fst (record_signature v s) = Inl e \<Longrightarrow> is_instance e PyException"
  by (auto simp: record_signature_def eff_apply set_detail_def dest: py_get_error split: sum.splits prod.splits)

text \<open>The condition under which a node gets past its guard, and what the approval gate reads.\<close>

definition may_step :: "ostate \<Rightarrow> world \<Rightarrow> string \<Rightarrow> bool" where
  "may_step st w rid \<longleftrightarrow> state_run_id st = Inr rid \<and> trace_wf w
     \<and> (\<exists>r. lookup_run w rid = Some r \<and> \<not> cancel_requested r \<and> step_count r < max_steps r)"

definition item_count :: "ostate \<Rightarrow> exc + pyval" where
  "item_count st = sum_bind (py_get st ''checklist'' (PList [])) (\<lambda>c. sum_bind (py_len c) (\<lambda>n.
     Inr (PDict [(''item_count'', PInt n)])))"

text \<open>The approval gate up to its \<open>interrupt\<close>.\<close>

lemma gate_reaches_interrupt:
  assumes may: "may_step st w rid" and request: "approval_request st rid = Inr request" and count: "item_count st = Inr c"
  obtains w1 where
    "await_hr_approval svc interrupt st w = mbind (lift_sum (interrupt request)) (\<lambda>decision.
       mseq (step_span rid (step_value AWAIT_HR_APPROVAL) None (record_decision decision))
       (lift_sum (sum_bind (py_get decision ''approver'' (PStr ''unknown'')) (\<lambda>approver.
          Inr [(''approval'', decision), note_event (''Approved by '' @ str_val approver @ ''.'')])))) w1"
    "trace_wf w1" "effects_tbl w1 = effects_tbl w" "provider_tbl w1 = provider_tbl w" "lookup_run w1 rid \<noteq> None"
    "att_status (last (history w1 rid (step_value AWAIT_HR_APPROVAL))) = SPaused"
    "history w1 rid (step_value AWAIT_HR_APPROVAL) \<noteq> []"
    "\<exists>rows. trace_tbl w1 = trace_tbl w @ rows \<and> length rows \<le> 1"
    "\<exists>r r1. lookup_run w rid = Some r \<and> lookup_run w1 rid = Some r1 \<and> cancel_requested r1 = cancel_requested r
       \<and> step_count r1 = step_count r + 1 \<and> max_steps r1 = max_steps r"
proof -
  obtain r where r: "state_run_id st = Inr rid" "lookup_run w rid = Some r" "\<not> cancel_requested r"
      "step_count r < max_steps r" "trace_wf w"
    using may by (auto simp: may_step_def)
  from r(1-4) obtain wa ra where g: "guard st AWAIT_HR_APPROVAL w = (Inr (), wa)" "only_runs w wa"
    "lookup_run wa rid = Some ra" "step_count ra = step_count r + 1" "max_steps ra = max_steps r"
    "cancel_requested ra = cancel_requested r"
    by (rule guard_passes)
  have wfa: "trace_wf wa" "lookup_run wa rid \<noteq> None" using g(2,3) r(5) only_runs_trace(2) by auto
  from wfa count obtain wb where p: "pause_once rid AWAIT_HR_APPROVAL HR_APPROVAL (item_count st) wa = (Inr (), wb)"
    "only_trace wa wb" "trace_wf wb" "history wb rid (step_value AWAIT_HR_APPROVAL) \<noteq> []"
    "att_status (last (history wb rid (step_value AWAIT_HR_APPROVAL))) = SPaused"
    "\<exists>rows. trace_tbl wb = trace_tbl wa @ rows \<and> length rows \<le> 1"
    by (rule pause_once_writes)
  have "lookup_run wb rid = Some ra" using p(2) g(3) by (simp add: only_trace_def lookup_run_def)
  then show ?thesis
    using g p r request
    by (intro that [of wb])
      (simp_all add: await_hr_approval_def mseq_step [where m = "guard st AWAIT_HR_APPROVAL" and s = w and s' = wa]
        mseq_step [where s = wa and s' = wb] item_count_def [symmetric]
        only_runs_def only_trace_def del: step_value.simps)
qed

text \<open>
  C20. A rejection stops at the gate: resumed with a decision whose \<open>approved\<close> is false, the
  approval step records the refusal as a failed attempt and raises \<open>ApprovalRejected\<close> with the
  reviewer's note; the ledger and every provider are as they were.
\<close>

theorem rejection_stops_at_the_gate:
  assumes "may_step st w rid" and "approval_request st rid = Inr request" and "item_count st = Inr c"
    and "interrupt request = Inr (PDict d)" and "\<not> truthy (decided d ''approved'')"
  shows "\<exists>w' rows row. await_hr_approval svc interrupt st w = (Inl (rejection (decided d ''note'')), w')
    \<and> exc_class_of (rejection (decided d ''note'')) = ApprovalRejected
    \<and> effects_tbl w' = effects_tbl w \<and> provider_tbl w' = provider_tbl w
    \<and> trace_tbl w' = trace_tbl w @ rows @ [row] \<and> att_step row = ''await_hr_approval''
    \<and> att_status row = SFailed \<and> error_type row = Some ''ApprovalRejected''"
proof -
  from assms(1-3) obtain w1 where gate:
    "await_hr_approval svc interrupt st w = mbind (lift_sum (interrupt request)) (\<lambda>decision.
       mseq (step_span rid (step_value AWAIT_HR_APPROVAL) None (record_decision decision))
       (lift_sum (sum_bind (py_get decision ''approver'' (PStr ''unknown'')) (\<lambda>approver.
          Inr [(''approval'', decision), note_event (''Approved by '' @ str_val approver @ ''.'')])))) w1"
    "trace_wf w1" "effects_tbl w1 = effects_tbl w" "provider_tbl w1 = provider_tbl w" "lookup_run w1 rid \<noteq> None"
    "\<exists>rows. trace_tbl w1 = trace_tbl w @ rows \<and> length rows \<le> 1"
    by (rule gate_reaches_interrupt)
  from gate(2,5) record_decision_same record_decision_error obtain wa r wb dd row w' where span:
    "record_decision (PDict d) (wa, []) = (r, (wb, dd))"
    "step_span rid (step_value AWAIT_HR_APPROVAL) None (record_decision (PDict d)) w1 = (r, w')"
    "trace_tbl w' = trace_tbl w1 @ [row]" "att_step row = step_value AWAIT_HR_APPROVAL"
    "case r of Inl e \<Rightarrow> att_status row = SFailed \<and> error_type row = Some (type_name e) | Inr a \<Rightarrow> att_status row = SCompleted"
    "effects_tbl w' = effects_tbl w1" "provider_tbl w' = provider_tbl w1"
    by (rule step_span_run [where body = "record_decision (PDict d)"])
  have r: "r = Inl (rejection (decided d ''note''))" using span(1) assms(5) by (simp add: record_decision_eq)
  have cls: "exc_class_of (rejection (decided d ''note'')) = ApprovalRejected" by (simp add: rejection_def)
  have "await_hr_approval svc interrupt st w = (Inl (rejection (decided d ''note'')), w')"
    using gate(1) assms(4) span(2) r by (simp add: eff_apply)
  with cls gate(3,4,6) span r show ?thesis by (auto simp: type_name_def)
qed

text \<open>
  C31. A pause is traced once: entering the approval gate traces one pause and raises
  LangGraph's interrupt; entering it again before the run is resumed raises it again and adds
  no row, so a repeated wake-up does not fill the trace.
\<close>

theorem pause_is_traced_once:
  assumes "may_step st w rid" and "approval_request st rid = Inr request" and "item_count st = Inr c"
    and "interrupt request = Inl e" and "lookup_run w rid = Some r" and "step_count r + 1 < max_steps r"
  shows "\<exists>w1 w2 rows. await_hr_approval svc interrupt st w = (Inl e, w1)
    \<and> trace_tbl w1 = trace_tbl w @ rows \<and> length rows \<le> 1
    \<and> att_status (last (history w1 rid ''await_hr_approval'')) = SPaused
    \<and> await_hr_approval svc interrupt st w1 = (Inl e, w2) \<and> trace_tbl w2 = trace_tbl w1"
proof -
  from assms(1-3) obtain w1 where gate:
    "await_hr_approval svc interrupt st w = mbind (lift_sum (interrupt request)) (\<lambda>decision.
       mseq (step_span rid (step_value AWAIT_HR_APPROVAL) None (record_decision decision))
       (lift_sum (sum_bind (py_get decision ''approver'' (PStr ''unknown'')) (\<lambda>approver.
          Inr [(''approval'', decision), note_event (''Approved by '' @ str_val approver @ ''.'')])))) w1"
    "trace_wf w1" "att_status (last (history w1 rid (step_value AWAIT_HR_APPROVAL))) = SPaused"
    "history w1 rid (step_value AWAIT_HR_APPROVAL) \<noteq> []" "\<exists>rows. trace_tbl w1 = trace_tbl w @ rows \<and> length rows \<le> 1"
    "\<exists>r r1. lookup_run w rid = Some r \<and> lookup_run w1 rid = Some r1 \<and> cancel_requested r1 = cancel_requested r
       \<and> step_count r1 = step_count r + 1 \<and> max_steps r1 = max_steps r"
    by (rule gate_reaches_interrupt)
  have first: "await_hr_approval svc interrupt st w = (Inl e, w1)"
    unfolding gate(1) assms(4) by simp
  obtain r1 where r1: "lookup_run w1 rid = Some r1" "\<not> cancel_requested r1" "step_count r1 < max_steps r1"
    using gate(6) assms(1,5,6) by (auto simp: may_step_def)
  have st: "state_run_id st = Inr rid" using assms(1) by (simp add: may_step_def)
  from st r1 obtain wa ra where g: "guard st AWAIT_HR_APPROVAL w1 = (Inr (), wa)" "only_runs w1 wa"
    by (rule guard_passes)
  have "history wa rid (step_value AWAIT_HR_APPROVAL) = history w1 rid (step_value AWAIT_HR_APPROVAL)" "trace_wf wa"
    using only_runs_trace [OF g(2)] gate(2) by simp_all
  then have "already_paused_here rid AWAIT_HR_APPROVAL wa = (Inr True, wa)"
    using already_paused_eq [of wa rid AWAIT_HR_APPROVAL] gate(3,4) by simp
  then have "await_hr_approval svc interrupt st w1 = (Inl e, wa)"
    using g(1) st assms(2,4) by (simp add: await_hr_approval_def eff_apply pause_once_def)
  moreover have "trace_tbl wa = trace_tbl w1" using g(2) by (simp add: only_runs_def)
  ultimately show ?thesis using first gate(3,5) by auto
qed

text \<open>
  C40. A failing model is not retried: when the provider's first call raises (a transient failure of the
  request included), the planning step closes its one attempt as failed, with the exception's type and
  message, and raises the exception as it is.  The state it leaves is the one that first call left, with
  nothing but that attempt closed, although a second call might have answered: this step does not go
  through the executor.
\<close>

theorem failing_model_is_not_retried:
  assumes "may_step st w rid" and "py_item st ''employee'' = Inr emp" and "llm_safe (svc_llm svc)"
    and "guard st PLAN_DEPROVISIONING w = (Inr (), w0)"
    and "start_attempt rid ''plan_deprovisioning'' (Some (''llm:'' @ llm_name (svc_llm svc))) w0 = (Inr row, w1)"
    and "generate_plan (svc_llm svc) emp w1 = (Inl e, w2)" and "is_instance e PyException"
  shows "plan_deprovisioning svc interrupt st w = (Inl e, w2\<lparr>clock_reads := Suc (clock_reads w2),
      trace_tbl := trace_tbl w @ [close_row SFailed None (Some (type_name e)) (Some (exc_message e)) None None
        (clock w2 (clock_reads w2)) row]\<rparr>)"
proof -
  obtain r where r: "state_run_id st = Inr rid" "lookup_run w rid = Some r" "\<not> cancel_requested r"
      "step_count r < max_steps r" "trace_wf w"
    using assms(1) by (auto simp: may_step_def)
  obtain ra where g: "only_runs w w0" "lookup_run w0 rid = Some ra"
    by (rule guard_passes [OF r(1-4), of PLAN_DEPROVISIONING]) (simp add: assms(4))
  have "trace_wf w0" "lookup_run w0 rid \<noteq> None" using g r(5) only_runs_trace(2) by auto
  then obtain row' w1' where "start_attempt rid ''plan_deprovisioning'' (Some (''llm:'' @ llm_name (svc_llm svc))) w0 = (Inr row', w1')"
    "trace_tbl w1' = trace_tbl w0 @ [row']" "att_status row' = SRunning" "trace_wf w1'"
    by (rule start_attempt_opens)
  then have start: "trace_tbl w1 = trace_tbl w @ [row]" "att_status row = SRunning" "trace_wf w1"
    using assms(5) g(1) by (simp_all add: only_runs_def)
  have "same_db w1 w2" using assms(3,6) guarD [of same_db "generate_plan (svc_llm svc) emp" w1] by (simp add: llm_safe_def)
  then have wf2: "trace_wf w2" "trace_tbl w2 = trace_tbl w @ [row]"
    using start trace_wf_cong [of w2 w1] by (simp_all add: same_db_def)
  have "SFailed \<in> {SCompleted, SFailed, SPaused}" by simp
  note close = close_last_row_eq [OF wf2 start(2) this]
  define body where "body = mbind (lift_sum (py_item st ''employee'')) (\<lambda>employee.
         mbind (in_span (generate_plan (svc_llm svc) employee)) (\<lambda>p.
         let checklist = map (model_dump (svc_pydantic svc)) (plan_items p) in
         mbind (lift_sum (sum_map (\<lambda>i. py_item i ''system'') checklist)) (\<lambda>systems.
         mseq (set_detail [(''provider'', PStr (llm_name (svc_llm svc))),
                 (''item_count'', PInt (int (length checklist))), (''systems'', PList systems)])
         (ret (p, checklist)))))"
  have b: "body (w1, []) = (Inl e, (w2, []))" using assms(2,6) by (simp add: body_def mbind_apply in_span_def)
  let ?row = "close_row SFailed None (Some (type_name e)) (Some (exc_message e)) None None (clock w2 (clock_reads w2)) row"
  let ?w = "w2\<lparr>clock_reads := Suc (clock_reads w2), trace_tbl := trace_tbl w @ [?row]\<rparr>"
  have "span_detail [] = None" by (simp add: span_detail_def)
  then have "close_span (att_id row) (Inl e :: exc + plan \<times> pyval list) [] w2 = (Inl e, ?w)"
    using close assms(7) by (simp add: close_span_def mseq_apply fail_attempt_def Let_def)
  then have "step_span rid (step_value PLAN_DEPROVISIONING) (Some (''llm:'' @ llm_name (svc_llm svc))) body w0 = (Inl e, ?w)"
    using assms(5) b by (simp add: step_span_def mbind_apply)
  then show ?thesis using assms(4) r(1) by (simp add: plan_deprovisioning_def eff_apply body_def)
qed

section \<open>Concrete instances\<close>

definition sample_services :: services where
  "sample_services = \<lparr>svc_executor = sample_executor, svc_llm = fake_llm documented_pydantic,
     svc_pydantic = documented_pydantic, svc_isoformat = (\<lambda>t. show_int (int t))\<rparr>"

lemma sample_services_simps [simp]: "svc_executor sample_services = sample_executor"
  "svc_llm sample_services = fake_llm documented_pydantic" "svc_pydantic sample_services = documented_pydantic"
  by (simp_all add: sample_services_def)

lemma sample_services_safe [simp]: "services_safe sample_services"
  by (simp add: services_safe_def app_tools_safe)

definition sample_state :: ostate where
  "sample_state = PDict [(''run_id'', PStr ''r1''), (''employee_id'', PStr ''emp-002''), (''employee'', sample_employee),
     (''checklist'', PList [PDict [(''system'', PStr ''vpn''), (''action'', PStr ''Revoke''), (''risk_level'', PStr ''high'')]]),
     (''plan_notes'', PStr ''note'')]"

lemma sample_state_facts:
  "state_run_id sample_state = Inr ''r1''" "py_item sample_state ''employee'' = Inr sample_employee"
  "\<exists>c. item_count sample_state = Inr c" "\<exists>request. approval_request sample_state ''r1'' = Inr request"
  "may_step sample_state sample_world ''r1''"
  by (simp_all add: sample_state_def state_run_id_def py_item_def item_count_def py_get_def approval_request_def
      sample_employee_def EMPLOYEE_DIRECTORY_def may_step_def sample_run_def)

theorem guard_stops_every_node_witness:
  "revoke_access sample_services Inr sample_state (sample_world\<lparr>runs_tbl := [sample_run\<lparr>cancel_requested := True\<rparr>]\<rparr>) =
    (Inl (cancelled_before (sample_run\<lparr>cancel_requested := True\<rparr>) ''revoke_access''),
     sample_world\<lparr>runs_tbl := [sample_run\<lparr>cancel_requested := True\<rparr>]\<rparr>)"
proof -
  let ?r = "sample_run\<lparr>cancel_requested := True\<rparr>"
  have "lookup_run (sample_world\<lparr>runs_tbl := [?r]\<rparr>) ''r1'' = Some ?r"
    by (simp add: lookup_run_def tfind_Cons sample_run_def)
  from guard_stops_every_node [OF _ sample_state_facts(1) this, of REVOKE_ACCESS revoke_access sample_services Inr]
  show ?thesis by (simp add: WORKFLOW_def)
qed

theorem rejection_stops_at_the_gate_witness:
  "\<exists>e w'. await_hr_approval sample_services (\<lambda>p. Inr (PDict [(''approved'', PBool False), (''approver'', PStr ''hr''),
      (''note'', PStr ''not yet'')])) sample_state sample_world = (Inl e, w')
    \<and> exc_class_of e = ApprovalRejected \<and> exc_message e = ''not yet'' \<and> provider_tbl w' = []"
proof -
  obtain request c where "approval_request sample_state ''r1'' = Inr request" "item_count sample_state = Inr c"
    using sample_state_facts(3,4) by blast
  from rejection_stops_at_the_gate [OF sample_state_facts(5) this, of
      "\<lambda>p. Inr (PDict [(''approved'', PBool False), (''approver'', PStr ''hr''), (''note'', PStr ''not yet'')])"
      "[(''approved'', PBool False), (''approver'', PStr ''hr''), (''note'', PStr ''not yet'')]" sample_services]
  show ?thesis by (auto simp: decided_def rejection_def)
qed

theorem pause_is_traced_once_witness:
  "\<exists>w1 w2. await_hr_approval sample_services (\<lambda>p. Inl (GraphInterrupt p)) sample_state sample_world = (Inl (GraphInterrupt w1), w2)
    \<and> length (trace_tbl w2) \<le> 1"
proof -
  obtain request c where facts: "approval_request sample_state ''r1'' = Inr request" "item_count sample_state = Inr c"
    using sample_state_facts(3,4) by blast
  from pause_is_traced_once [OF sample_state_facts(5) facts, of "\<lambda>p. Inl (GraphInterrupt p)" "GraphInterrupt request" sample_run
      sample_services]
  show ?thesis by (auto simp: sample_run_def)
qed

text \<open>A model that fails when first asked and would answer a second time.\<close>

definition failing_services :: services where
  "failing_services = sample_services\<lparr>svc_llm := \<lparr>llm_name = ''flaky'',
     generate_plan = (\<lambda>emp. mbind (gets clock_reads) (\<lambda>n. mbind now (\<lambda>t.
       if n < 3 then raise (Exc TransientToolError ''503'') else generate_plan (svc_llm sample_services) emp)))\<rparr>\<rparr>"

definition in_planning :: world where
  "in_planning = snd (start_attempt ''r1'' ''plan_deprovisioning'' (Some ''llm:flaky'') (snd (guard sample_state PLAN_DEPROVISIONING sample_world)))"

lemma in_planning_calls:
  "clock_reads in_planning < 3 \<and> isl (fst (generate_plan (svc_llm failing_services) sample_employee in_planning))
   \<and> \<not> isl (fst (generate_plan (svc_llm failing_services) sample_employee
        (snd (generate_plan (svc_llm failing_services) sample_employee in_planning))))"
  by code_simp

theorem failing_model_is_not_retried_witness:
  "\<exists>w'. plan_deprovisioning failing_services Inr sample_state sample_world = (Inl (Exc TransientToolError ''503''), w')
    \<and> map att_status (trace_tbl w') = [SFailed]"
proof -
  obtain w0 where g: "guard sample_state PLAN_DEPROVISIONING sample_world = (Inr (), w0)" "only_runs sample_world w0" "lookup_run w0 ''r1'' \<noteq> None"
  proof -
    obtain r where "state_run_id sample_state = Inr ''r1''" "lookup_run sample_world ''r1'' = Some r" "\<not> cancel_requested r"
        "step_count r < max_steps r"
      using sample_state_facts(5) by (auto simp: may_step_def)
    then show thesis using that by (rule guard_passes [where s = PLAN_DEPROVISIONING]) auto
  qed
  have "trace_wf w0" using g(2) sample_state_facts(5) only_runs_trace(2) by (auto simp: may_step_def)
  then obtain row w1 where start: "start_attempt ''r1'' ''plan_deprovisioning'' (Some ''llm:flaky'') w0 = (Inr row, w1)"
    "trace_tbl w1 = trace_tbl w0 @ [row]"
    by (rule start_attempt_opens) (rule g(3))
  have safe: "llm_safe (svc_llm failing_services)"
  proof -
    have "guar same_db now" by (simp add: guar_def same_db_def)
    then show ?thesis by (auto simp: failing_services_def llm_safe_def fake_llm_def intro!: db_same.guar_intros)
  qed
  have "w1 = in_planning" using g(1) start(1) by (simp add: in_planning_def)
  then obtain w2 where call: "generate_plan (svc_llm failing_services) sample_employee w1 = (Inl (Exc TransientToolError ''503''), w2)"
    using conjunct1 [OF in_planning_calls] by (auto simp: failing_services_def mbind_apply raise_def)
  have name: "''llm:'' @ llm_name (svc_llm failing_services) = ''llm:flaky''" by (simp add: failing_services_def)
  from failing_model_is_not_retried [OF sample_state_facts(5,2) safe g(1) _ call, of row Inr] start(1)
  show ?thesis unfolding name by (auto simp: sample_run_def close_row_def)
qed

end
