(* ===== verification/Graph.thy ===== *)
theory Graph
  imports Nodes
begin

text \<open>
  \<open>orchestration/graph.py\<close> and \<open>orchestration/state.py\<close>: the compiled workflow and the merge
  of a node's update into the state.  LangGraph itself is a parameter: \<open>lg_invoke\<close> runs a
  compiled graph on a thread over the world and the engine's own checkpoint store (of any type
  \<open>'c\<close>), \<open>lg_view\<close> reads the checkpoint of a thread.  What the orchestrator relies on is the
  contract \<open>langgraph_ok\<close>, stated with the relation \<open>drives\<close>.
\<close>

section \<open>The compiled graph\<close>

type_synonym bound_node = "interrupt \<Rightarrow> ostate \<Rightarrow> (string \<times> pyval) list py"

record graph =
  g_nodes :: "(string \<times> bound_node) list"
  g_edges :: "(string \<times> string) list"

definition START :: string where "START = ''__start__''"

definition END :: string where "END = ''__end__''"

text \<open>The wiring loop: an edge from each step to the next, and from the last to \<open>END\<close>.\<close>

fun chain_edges :: "string \<Rightarrow> string list \<Rightarrow> (string \<times> string) list" where
  "chain_edges previous [] = [(previous, END)]"
| "chain_edges previous (s # ss) = (previous, s) # chain_edges s ss"

definition build_graph :: "services \<Rightarrow> graph" where
  "build_graph svc = \<lparr>g_nodes = map (\<lambda>(s, fn). (step_value s, fn svc)) WORKFLOW,
     g_edges = chain_edges START (map (\<lambda>(s, fn). step_value s) WORKFLOW)\<rparr>"

section \<open>The state schema\<close>

text \<open>
  \<open>OffboardingState\<close>: \<open>events\<close> is accumulated with \<open>operator.add\<close>, every other field is
  overwritten by the last write.
\<close>

definition add_events :: "pyval option \<Rightarrow> pyval \<Rightarrow> pyval" where
  "add_events old new = (case (old, new) of
     (Some (PList xs), PList ys) \<Rightarrow> PList (xs @ ys)
   | _ \<Rightarrow> new)"

definition merge_field :: "string \<times> pyval \<Rightarrow> (string \<times> pyval) list \<Rightarrow> (string \<times> pyval) list" where
  "merge_field f d = (case f of (k, v) \<Rightarrow>
     dict_set k (if k = ''events'' then add_events (map_of d k) v else v) d)"

definition merge_state :: "ostate \<Rightarrow> (string \<times> pyval) list \<Rightarrow> ostate" where
  "merge_state st upd = (case st of PDict d \<Rightarrow> PDict (fold merge_field upd d) | _ \<Rightarrow> st)"

section \<open>What LangGraph promises\<close>

datatype graph_input =
    Input "(string \<times> pyval) list"   \<comment> \<open>a dict: start a thread\<close>
  | Resume pyval                     \<comment> \<open>\<open>Command(resume=v)\<close>\<close>
  | Continue                         \<comment> \<open>\<open>None\<close>: go on from the last checkpoint\<close>

record checkpoint =
  ck_next :: string
  ck_values :: ostate
  ck_resume :: "pyval option"

datatype outcome = Finished ostate | Interrupted pyval ostate | Raised exc

record invoke_result =
  res_values :: ostate
  res_interrupts :: "pyval list"

text \<open>\<open>interrupt(payload)\<close> leaves the node unless the node runs with a resume value.\<close>

definition interrupt_with :: "pyval option \<Rightarrow> interrupt" where
  "interrupt_with r request = (case r of None \<Rightarrow> Inl (GraphInterrupt request) | Some v \<Rightarrow> Inr v)"

text \<open>
  \<open>drives g s r v w out ck w'\<close>: from node \<open>s\<close> with state \<open>v\<close>, the first node running with the
  resume value \<open>r\<close>, the graph runs node after node along its edges, each update merged into the
  state, until it reaches the end, a node interrupts or a node raises; or the process is killed
  before some node, or after a node whose checkpoint is not written yet, so that its work stands and
  it will be run again; the caller never sees that, and it is written as a \<open>BaseException\<close>
  nothing catches.  \<open>ck\<close> is the checkpoint left: the node that did not complete and the state
  before it.  Whether the resume value of a node that raised is kept for the next attempt is left
  open.
\<close>

inductive drives ::
  "graph \<Rightarrow> string \<Rightarrow> pyval option \<Rightarrow> ostate \<Rightarrow> world \<Rightarrow> outcome \<Rightarrow> checkpoint \<Rightarrow> world \<Rightarrow> bool"
  for g where
  finish: "drives g END r v w (Finished v) \<lparr>ck_next = END, ck_values = v, ck_resume = None\<rparr> w"
| step: "drives g s r v w out ck w2" if "map_of (g_nodes g) s = Some n"
    "n (interrupt_with r) v w = (Inr upd, w1)" "map_of (g_edges g) s = Some t"
    "drives g t None (merge_state v upd) w1 out ck w2"
| pause: "drives g s r v w (Interrupted p v) \<lparr>ck_next = s, ck_values = v, ck_resume = None\<rparr> w1"
    if "map_of (g_nodes g) s = Some n" "n (interrupt_with r) v w = (Inl (GraphInterrupt p), w1)"
| raised: "drives g s r v w (Raised (Exc c m)) \<lparr>ck_next = s, ck_values = v, ck_resume = kept\<rparr> w1"
    if "map_of (g_nodes g) s = Some n" "n (interrupt_with r) v w = (Inl (Exc c m), w1)" "kept \<in> {None, r}"
| died: "drives g s r v w (Raised (Exc BaseException m)) \<lparr>ck_next = s, ck_values = v, ck_resume = kept\<rparr> w"
    if "map_of (g_nodes g) s = Some n" "kept \<in> {None, r}"
| lost: "drives g s r v w (Raised (Exc BaseException m)) \<lparr>ck_next = s, ck_values = v, ck_resume = kept\<rparr> w1"
    if "map_of (g_nodes g) s = Some n" "n (interrupt_with r) v w = (res, w1)" "kept \<in> {None, r}"

record 'c langgraph =
  lg_invoke :: "graph \<Rightarrow> graph_input \<Rightarrow> string \<Rightarrow> (world \<times> 'c, exc, invoke_result) eff"
  lg_view :: "'c \<Rightarrow> string \<Rightarrow> checkpoint option"

text \<open>Where an invocation starts, when it is one the documentation gives a meaning to.\<close>

definition entry :: "graph \<Rightarrow> checkpoint option \<Rightarrow> graph_input \<Rightarrow> (string \<times> pyval option \<times> ostate) option" where
  "entry g view inp = (case (inp, view) of
     (Input d, None) \<Rightarrow> (case map_of (g_edges g) START of
        Some s \<Rightarrow> Some (s, None, merge_state (PDict []) d) | None \<Rightarrow> None)
   | (Resume v, Some ck) \<Rightarrow> if ck_next ck \<in> fst ` set (g_nodes g) then Some (ck_next ck, Some v, ck_values ck) else None
   | (Continue, Some ck) \<Rightarrow> if ck_next ck = END \<or> ck_next ck \<in> fst ` set (g_nodes g)
        then Some (ck_next ck, ck_resume ck, ck_values ck) else None
   | _ \<Rightarrow> None)"

definition deliver :: "outcome \<Rightarrow> exc + invoke_result" where
  "deliver out = (case out of
     Finished v \<Rightarrow> Inr \<lparr>res_values = v, res_interrupts = []\<rparr>
   | Interrupted p v \<Rightarrow> Inr \<lparr>res_values = v, res_interrupts = [p]\<rparr>
   | Raised e \<Rightarrow> Inl e)"

text \<open>
  The contract: an invocation with a meaning drives the graph from its entry, leaves the
  checkpoint of its thread and no other thread's, and returns or raises the outcome; continuing a
  thread that was never begun raises (\<open>EmptyInputError\<close>) and leaves everything as it is.
\<close>

definition langgraph_ok :: "'c langgraph \<Rightarrow> graph \<Rightarrow> bool" where
  "langgraph_ok lg g \<longleftrightarrow> (\<forall>inp t w c s r v res w' c'.
     entry g (lg_view lg c t) inp = Some (s, r, v) \<longrightarrow> lg_invoke lg g inp t (w, c) = (res, (w', c')) \<longrightarrow>
     (\<exists>out ck. drives g s r v w out ck w' \<and> res = deliver out \<and> lg_view lg c' t = Some ck
        \<and> (\<forall>u. u \<noteq> t \<longrightarrow> lg_view lg c' u = lg_view lg c u)))
   \<and> (\<forall>t w c res w' c'. lg_view lg c t = None \<longrightarrow> lg_invoke lg g Continue t (w, c) = (res, (w', c')) \<longrightarrow>
     (\<exists>m. res = Inl (Exc LibraryError m)) \<and> w' = w \<and> (\<forall>u. lg_view lg c' u = lg_view lg c u))"

lemma langgraph_okD:
  assumes "langgraph_ok lg g" "entry g (lg_view lg c t) inp = Some (s, r, v)" "lg_invoke lg g inp t (w, c) = (res, (w', c'))"
  obtains out ck where "drives g s r v w out ck w'" "res = deliver out" "lg_view lg c' t = Some ck"
    "\<And>u. u \<noteq> t \<Longrightarrow> lg_view lg c' u = lg_view lg c u"
  using assms(1) [unfolded langgraph_ok_def, THEN conjunct1] assms(2,3) by blast

lemma langgraph_ok_empty:
  assumes "langgraph_ok lg g" "lg_view lg c t = None" "lg_invoke lg g Continue t (w, c) = (res, (w', c'))"
  obtains m where "res = Inl (Exc LibraryError m)" "w' = w" "\<And>u. lg_view lg c' u = lg_view lg c u"
  using assms(1) [unfolded langgraph_ok_def, THEN conjunct2] assms(2,3) by blast

section \<open>The workflow's wiring\<close>

lemma build_graph_nodes:
  assumes "map_of (g_nodes (build_graph svc)) s = Some n"
  obtains sn fn where "(sn, fn) \<in> set WORKFLOW" "s = step_value sn" "n = fn svc"
proof -
  have "(s, n) \<in> set (map (\<lambda>(s, fn). (step_value s, fn svc)) WORKFLOW)"
    using map_of_SomeD [OF assms] by (simp add: build_graph_def)
  then obtain x where "x \<in> set WORKFLOW" "(s, n) = (case x of (s, fn) \<Rightarrow> (step_value s, fn svc))"
    by (metis (no_types, lifting) imageE list.set_map)
  moreover obtain a b where "x = (a, b)" by (cases x)
  ultimately show ?thesis using that [of a b] by simp
qed

lemma build_graph_edges [simp]:
  "map_of (g_edges (build_graph svc)) START = Some (step_value FETCH_EMPLOYEE)"
  "map_of (g_edges (build_graph svc)) (step_value FETCH_EMPLOYEE) = Some (step_value PLAN_DEPROVISIONING)"
  "map_of (g_edges (build_graph svc)) (step_value PLAN_DEPROVISIONING) = Some (step_value AWAIT_HR_APPROVAL)"
  "map_of (g_edges (build_graph svc)) (step_value AWAIT_HR_APPROVAL) = Some (step_value REVOKE_ACCESS)"
  "map_of (g_edges (build_graph svc)) (step_value REVOKE_ACCESS) = Some (step_value SEND_EXIT_PAPERWORK)"
  "map_of (g_edges (build_graph svc)) (step_value SEND_EXIT_PAPERWORK) = Some (step_value AWAIT_SIGNED_DOCUMENT)"
  "map_of (g_edges (build_graph svc)) (step_value AWAIT_SIGNED_DOCUMENT) = Some (step_value FINALIZE)"
  "map_of (g_edges (build_graph svc)) (step_value FINALIZE) = Some END"
  by (simp_all add: build_graph_def WORKFLOW_def START_def END_def)

text \<open>Where a thread can stand: before a step of the workflow, or at the end.\<close>

definition on_graph :: "string \<Rightarrow> bool" where
  "on_graph s \<longleftrightarrow> s = END \<or> (\<exists>sn. s = step_value sn)"

lemma step_names_iff: "s \<in> fst ` set (g_nodes (build_graph svc)) \<longleftrightarrow> (\<exists>sn. s = step_value sn)"
proof -
  have "sn \<in> fst ` set WORKFLOW" for sn by (cases sn) (simp_all add: WORKFLOW_def)
  then show ?thesis by (force simp: build_graph_def)
qed

lemma entry_on_graph:
  assumes "entry (build_graph svc) view inp = Some (s, rv, v)"
  shows "on_graph s"
proof -
  have "s = END \<or> s \<in> fst ` set (g_nodes (build_graph svc))" if "s \<noteq> step_value FETCH_EMPLOYEE"
    using assms that by (auto simp: entry_def split: graph_input.splits option.splits if_splits)
  then show ?thesis unfolding on_graph_def step_names_iff by blast
qed

lemma drives_safe:
  assumes "services_safe svc"
  shows "drives (build_graph svc) s r v w out ck w' \<Longrightarrow> safe_step w w'"
proof (induction rule: drives.induct)
  case (finish r v w)
  then show ?case by (rule safety.rel_refl)
next
  case (step s n r v w upd w1 t out ck w2)
  have "guar safe_step (n (interrupt_with r) v)"
    by (rule build_graph_nodes [OF step(1)]) (simp add: workflow_safe [OF assms])
  from guarD' [OF this step(2)] step.IH show ?case by (blast intro: safety.rel_trans)
next
  case (pause s n r v w p w1)
  have "guar safe_step (n (interrupt_with r) v)"
    by (rule build_graph_nodes [OF pause(1)]) (simp add: workflow_safe [OF assms])
  from guarD' [OF this pause(2)] show ?case .
next
  case (raised s n r v w c m w1 kept)
  have "guar safe_step (n (interrupt_with r) v)"
    by (rule build_graph_nodes [OF raised(1)]) (simp add: workflow_safe [OF assms])
  from guarD' [OF this raised(2)] show ?case .
next
  case (died s n kept r v w m)
  then show ?case by (simp add: safety.rel_refl)
next
  case (lost s n r v w res w1 kept m)
  have "guar safe_step (n (interrupt_with r) v)"
    by (rule build_graph_nodes [OF lost(1)]) (simp add: workflow_safe [OF assms])
  from guarD' [OF this lost(2)] show ?case .
qed

section \<open>An engine that keeps the contract\<close>

text \<open>
  For the concrete instances: checkpoints are a map from threads, and \<open>drive\<close> runs node after
  node; twice the number of edges is enough rounds for a chain.
\<close>

fun drive :: "nat \<Rightarrow> graph \<Rightarrow> string \<Rightarrow> pyval option \<Rightarrow> ostate \<Rightarrow> world \<Rightarrow> (outcome \<times> checkpoint) option \<times> world" where
  "drive 0 g s r v w = (None, w)"
| "drive (Suc fuel) g s r v w =
     (if s = END then (Some (Finished v, \<lparr>ck_next = END, ck_values = v, ck_resume = None\<rparr>), w)
      else case map_of (g_nodes g) s of None \<Rightarrow> (None, w) | Some n \<Rightarrow>
        (case n (interrupt_with r) v w of
           (Inr upd, w1) \<Rightarrow> (case map_of (g_edges g) s of None \<Rightarrow> (None, w1)
              | Some t \<Rightarrow> drive fuel g t None (merge_state v upd) w1)
         | (Inl (GraphInterrupt p), w1) \<Rightarrow>
             (Some (Interrupted p v, \<lparr>ck_next = s, ck_values = v, ck_resume = None\<rparr>), w1)
         | (Inl (Exc c m), w1) \<Rightarrow>
             (Some (Raised (Exc c m), \<lparr>ck_next = s, ck_values = v, ck_resume = r\<rparr>), w1)))"

lemma drive_drives: "drive fuel g s r v w = (Some (out, ck), w') \<Longrightarrow> drives g s r v w out ck w'"
proof (induction fuel arbitrary: s r v w)
  case (Suc fuel)
  show ?case
  proof (cases "s = END")
    case True
    then show ?thesis using Suc.prems by (auto intro: drives.finish)
  next
    case False
    then obtain n where n: "map_of (g_nodes g) s = Some n"
      using Suc.prems by (cases "map_of (g_nodes g) s") auto
    obtain res w1 where run: "n (interrupt_with r) v w = (res, w1)" by (meson surj_pair)
    show ?thesis
    proof (cases res)
      case (Inr upd)
      then obtain t where "map_of (g_edges g) s = Some t" "drive fuel g t None (merge_state v upd) w1 = (Some (out, ck), w')"
        using Suc.prems False n run by (auto split: option.splits)
      with n run Inr show ?thesis by (auto intro: drives.step Suc.IH)
    next
      case (Inl e)
      then show ?thesis using Suc.prems False n run
        by (cases e) (auto intro: drives.pause drives.raised)
    qed
  qed
qed simp

definition linear_invoke ::
  "graph \<Rightarrow> graph_input \<Rightarrow> string \<Rightarrow> (world \<times> (string \<Rightarrow> checkpoint option), exc, invoke_result) eff" where
  "linear_invoke g inp t = (\<lambda>(w, c). case entry g (c t) inp of
     None \<Rightarrow> (Inl (Exc LibraryError ''nothing to run''), (w, c))
   | Some (s, r, v) \<Rightarrow> (case drive 16 g s r v w of
        (None, w') \<Rightarrow> (Inl (Exc LibraryError ''out of rounds''), (w', c))
      | (Some (out, ck), w') \<Rightarrow> (deliver out, (w', c(t \<mapsto> ck)))))"

definition linear_engine :: "(string \<Rightarrow> checkpoint option) langgraph" where
  "linear_engine = \<lparr>lg_invoke = linear_invoke, lg_view = (\<lambda>c. c)\<rparr>"

lemma drive_Suc: "s \<noteq> END \<Longrightarrow> map_of (g_nodes g) s = Some n \<Longrightarrow> map_of (g_edges g) s = Some t \<Longrightarrow>
    (\<And>v w. fst (drive fuel g t None v w) \<noteq> None) \<Longrightarrow> fst (drive (Suc fuel) g s r v w) \<noteq> None"
  by (auto split: prod.splits sum.splits exc.splits)

lemma drive_END: "fst (drive (Suc fuel) g END r v w) \<noteq> None"
  by simp

lemma step_not_END [simp]: "step_value s \<noteq> END"
  by (cases s) (simp_all add: END_def)

lemma workflow_nodes [simp]:
  "map_of (g_nodes (build_graph svc)) (step_value FETCH_EMPLOYEE) = Some (fetch_employee svc)"
  "map_of (g_nodes (build_graph svc)) (step_value PLAN_DEPROVISIONING) = Some (plan_deprovisioning svc)"
  "map_of (g_nodes (build_graph svc)) (step_value AWAIT_HR_APPROVAL) = Some (await_hr_approval svc)"
  "map_of (g_nodes (build_graph svc)) (step_value REVOKE_ACCESS) = Some (revoke_access svc)"
  "map_of (g_nodes (build_graph svc)) (step_value SEND_EXIT_PAPERWORK) = Some (send_exit_paperwork svc)"
  "map_of (g_nodes (build_graph svc)) (step_value AWAIT_SIGNED_DOCUMENT) = Some (await_signed_document svc)"
  "map_of (g_nodes (build_graph svc)) (step_value FINALIZE) = Some (finalize svc)"
  by (simp_all add: build_graph_def WORKFLOW_def)

lemma drive_ends: "fst (drive (8 + fuel) (build_graph svc) (step_value sn) r v w) \<noteq> None"
proof -
  note step = drive_Suc [OF step_not_END]
  have f: "fst (drive (Suc (Suc n)) (build_graph svc) (step_value FINALIZE) r v w) \<noteq> None" for n r v w
    by (rule step [OF workflow_nodes(7) build_graph_edges(8)]) (rule drive_END)
  have s: "fst (drive (Suc (Suc (Suc n))) (build_graph svc) (step_value AWAIT_SIGNED_DOCUMENT) r v w) \<noteq> None" for n r v w
    by (rule step [OF workflow_nodes(6) build_graph_edges(7)]) (rule f)
  have p: "fst (drive (Suc (Suc (Suc (Suc n)))) (build_graph svc) (step_value SEND_EXIT_PAPERWORK) r v w) \<noteq> None" for n r v w
    by (rule step [OF workflow_nodes(5) build_graph_edges(6)]) (rule s)
  have a: "fst (drive (Suc (Suc (Suc (Suc (Suc n))))) (build_graph svc) (step_value REVOKE_ACCESS) r v w) \<noteq> None" for n r v w
    by (rule step [OF workflow_nodes(4) build_graph_edges(5)]) (rule p)
  have h: "fst (drive (Suc (Suc (Suc (Suc (Suc (Suc n)))))) (build_graph svc) (step_value AWAIT_HR_APPROVAL) r v w) \<noteq> None" for n r v w
    by (rule step [OF workflow_nodes(3) build_graph_edges(4)]) (rule a)
  have l: "fst (drive (Suc (Suc (Suc (Suc (Suc (Suc (Suc n))))))) (build_graph svc) (step_value PLAN_DEPROVISIONING) r v w) \<noteq> None" for n r v w
    by (rule step [OF workflow_nodes(2) build_graph_edges(3)]) (rule h)
  have e: "fst (drive (Suc (Suc (Suc (Suc (Suc (Suc (Suc (Suc n)))))))) (build_graph svc) (step_value FETCH_EMPLOYEE) r v w) \<noteq> None" for n r v w
    by (rule step [OF workflow_nodes(1) build_graph_edges(2)]) (rule l)
  have eight: "8 + fuel = Suc (Suc (Suc (Suc (Suc (Suc (Suc (Suc fuel)))))))" by simp
  show ?thesis unfolding eight by (cases sn) (simp_all only: f s p a h l e not_False_eq_True)
qed

lemma linear_engine_ok: "langgraph_ok linear_engine (build_graph svc)"
  unfolding langgraph_ok_def
proof (intro conjI allI impI)
  fix inp t w and c :: "string \<Rightarrow> checkpoint option" and s r v res w' c'
  assume entry: "entry (build_graph svc) (lg_view linear_engine c t) inp = Some (s, r, v)"
    and run: "lg_invoke linear_engine (build_graph svc) inp t (w, c) = (res, (w', c'))"
  obtain res1 w1 where d: "drive 16 (build_graph svc) s r v w = (res1, w1)" by (meson surj_pair)
  have sixteen: "16 = Suc 15" "16 = (8 + 8 :: nat)" by simp_all
  have "fst (drive 16 (build_graph svc) END r v w) \<noteq> None" unfolding sixteen(1) by (rule drive_END)
  moreover have "fst (drive 16 (build_graph svc) (step_value sn) r v w) \<noteq> None" for sn
    unfolding sixteen(2) by (rule drive_ends)
  ultimately have "fst (drive 16 (build_graph svc) s r v w) \<noteq> None"
    using entry_on_graph [OF entry] unfolding on_graph_def by blast
  then have "res1 \<noteq> None" using d by simp
  then obtain out ck where "res1 = Some (out, ck)" by auto
  then show "\<exists>out ck. drives (build_graph svc) s r v w out ck w' \<and> res = deliver out \<and>
      lg_view linear_engine c' t = Some ck \<and> (\<forall>u. u \<noteq> t \<longrightarrow> lg_view linear_engine c' u = lg_view linear_engine c u)"
    using run entry d drive_drives [of 16 "build_graph svc" s r v w out ck w1]
    by (auto simp: linear_engine_def linear_invoke_def)
next
  fix t w and c :: "string \<Rightarrow> checkpoint option" and res w' c'
  assume "lg_view linear_engine c t = None" and run: "lg_invoke linear_engine (build_graph svc) Continue t (w, c) = (res, (w', c'))"
  then have "entry (build_graph svc) (c t) Continue = None" by (simp add: entry_def linear_engine_def)
  with run have "res = Inl (Exc LibraryError ''nothing to run'') \<and> w' = w \<and> c' = c"
    by (simp add: linear_engine_def linear_invoke_def)
  then show "\<exists>m. res = Inl (Exc LibraryError m)" "w' = w" "lg_view linear_engine c' u = lg_view linear_engine c u" for u
    by simp_all
qed

end
