(* ===== verification/Run_Service.thy ===== *)
theory Run_Service
  imports Graph
begin

text \<open>
  \<open>orchestration/run_service.py\<close>: the public surface over one run.  An operation runs over the
  world and the checkpoint store of the graph engine; \<open>advance\<close> is the one place where an
  outcome of the graph becomes a run status.
\<close>

type_synonym ('c, 'a) serviced = "(world \<times> 'c, exc, 'a) eff"

definition on_db :: "'a py \<Rightarrow> ('c, 'a) serviced" where
  "on_db m = (\<lambda>(w, c). case m w of (r, w') \<Rightarrow> (r, (w', c)))"

section \<open>Driving the graph\<close>

text \<open>The \<open>except\<close> clauses of \<open>_advance\<close> that fail the run, in their order.\<close>

definition failure_for :: "exc \<Rightarrow> failure_reason option" where
  "failure_for e =
     (if is_instance e ApprovalRejected then Some APPROVAL_REJECTED
      else if is_instance e BudgetExceeded then Some BUDGET_EXCEEDED
      else if is_instance e ToolNotAllowed then Some TOOL_NOT_ALLOWED
      else if is_instance e InvalidPlan then Some INVALID_PLAN
      else if is_instance e SideEffectReconciliationRequired then Some NEEDS_RECONCILIATION
      else if is_instance e ToolError then Some TOOL_FAILED
      else None)"

definition fail_run :: "run \<Rightarrow> failure_reason \<Rightarrow> exc \<Rightarrow> unit py" where
  "fail_run r reason e = mseq (set_status (run_id r) RFailed None (Some reason) (Some (exc_message e))) (ret ())"

text \<open>\<open>PauseReason(payload["pause_reason"])\<close>.\<close>

definition requested_pause :: "pyval \<Rightarrow> exc + pause_reason" where
  "requested_pause req = sum_bind (py_item req ''pause_reason'') (\<lambda>v. case v of
     PStr s \<Rightarrow> pause_reason_of s
   | _ \<Rightarrow> Inl (Exc ValueError (repr_val v @ '' is not a valid PauseReason'')))"

definition advance :: "'c langgraph \<Rightarrow> services \<Rightarrow> run \<Rightarrow> graph_input \<Rightarrow> ('c, unit) serviced" where
  "advance lg svc r inp =
     mtry (lg_invoke lg (build_graph svc) inp (thread_id r))
       (\<lambda>e. if is_instance e RunCancelled
            then on_db (mseq (set_status (run_id r) RCancelled None None None) (ret ()))
            else case failure_for e of
              Some reason \<Rightarrow> on_db (fail_run r reason e)
            | None \<Rightarrow> raise e)
       (\<lambda>res. case res_interrupts res of
            first # _ \<Rightarrow> mbind (lift_sum (requested_pause first)) (\<lambda>reason.
              on_db (mseq (set_status (run_id r) RPaused (Some reason) None None) (ret ())))
          | [] \<Rightarrow> on_db (mseq (set_status (run_id r) RCompleted None None None) (ret ())))"

section \<open>Operations\<close>

definition start_run :: "'c langgraph \<Rightarrow> services \<Rightarrow> string \<Rightarrow> int \<Rightarrow> int \<Rightarrow> ('c, run) serviced" where
  "start_run lg svc emp msteps mcalls =
     mbind (on_db (runs_create emp None msteps mcalls)) (\<lambda>r.
     mbind (on_db (set_status (run_id r) RRunning None None None)) (\<lambda>r.
     mseq (advance lg svc r (Input [(''run_id'', PStr (run_id r)), (''employee_id'', PStr emp), (''events'', PList [])]))
     (on_db (runs_get (run_id r)))))"

definition get_run :: "string \<Rightarrow> ('c, run) serviced" where
  "get_run rid = on_db (runs_get rid)"

definition get_trace :: "string \<Rightarrow> ('c, step_attempt list) serviced" where
  "get_trace rid = on_db (mseq (runs_get rid) (trace_list_for_run rid))"

definition get_side_effects :: "string \<Rightarrow> ('c, side_effect_record list) serviced" where
  "get_side_effects rid = on_db (mseq (runs_get rid) (effects_list_for_run rid))"

definition service_list_runs :: "int \<Rightarrow> ('c, run list) serviced" where
  "service_list_runs limit = on_db (list_runs limit)"

definition not_paused_for :: "run \<Rightarrow> pause_reason \<Rightarrow> exc" where
  "not_paused_for r reason = Exc InvalidRunOperation
     (''run '' @ run_id r @ '' is '' @ run_status_value (status r) @
      (case pause_reason r of None \<Rightarrow> [] | Some p \<Rightarrow> '' ('' @ pause_value p @ '')'') @
      '', not paused for '' @ pause_value reason)"

definition require_paused_for :: "run \<Rightarrow> pause_reason \<Rightarrow> exc + unit" where
  "require_paused_for r reason =
     (if status r \<noteq> RPaused \<or> pause_reason r \<noteq> Some reason then Inl (not_paused_for r reason) else Inr ())"

definition opt_val :: "string option \<Rightarrow> pyval" where
  "opt_val v = (case v of None \<Rightarrow> PNone | Some s \<Rightarrow> PStr s)"

definition resolve_approval ::
  "'c langgraph \<Rightarrow> services \<Rightarrow> string \<Rightarrow> bool \<Rightarrow> string \<Rightarrow> string option \<Rightarrow> ('c, run) serviced" where
  "resolve_approval lg svc rid approved approver nte =
     mbind (on_db (runs_get rid)) (\<lambda>r.
     mseq (lift_sum (require_paused_for r HR_APPROVAL))
     (mbind (on_db (set_status (run_id r) RRunning None None None)) (\<lambda>r.
      mseq (advance lg svc r (Resume (PDict [(''approved'', PBool approved), (''approver'', PStr approver),
              (''note'', opt_val nte)])))
      (on_db (runs_get (run_id r))))))"

definition approve :: "'c langgraph \<Rightarrow> services \<Rightarrow> string \<Rightarrow> string \<Rightarrow> string option \<Rightarrow> ('c, run) serviced" where
  "approve lg svc rid approver nte = resolve_approval lg svc rid True approver nte"

definition reject :: "'c langgraph \<Rightarrow> services \<Rightarrow> string \<Rightarrow> string \<Rightarrow> string option \<Rightarrow> ('c, run) serviced" where
  "reject lg svc rid approver nte = resolve_approval lg svc rid False approver nte"

definition signing_time :: "services \<Rightarrow> string option \<Rightarrow> string py" where
  "signing_time svc given = (case or_else given None of
     Some s \<Rightarrow> ret s
   | None \<Rightarrow> mbind now (\<lambda>t. ret (svc_isoformat svc t)))"

definition submit_signed_document ::
  "'c langgraph \<Rightarrow> services \<Rightarrow> string \<Rightarrow> string \<Rightarrow> string option \<Rightarrow> ('c, run) serviced" where
  "submit_signed_document lg svc rid doc signed =
     mbind (on_db (runs_get rid)) (\<lambda>r.
     mseq (lift_sum (require_paused_for r SIGNED_DOCUMENT))
     (mbind (on_db (set_status (run_id r) RRunning None None None)) (\<lambda>r.
      mbind (on_db (signing_time svc signed)) (\<lambda>time.
      mseq (advance lg svc r (Resume (PDict [(''document_id'', PStr doc), (''signed_at'', PStr time)])))
      (on_db (runs_get (run_id r)))))))"

definition not_running :: "run \<Rightarrow> exc" where
  "not_running r = Exc InvalidRunOperation
     (''run '' @ run_id r @ '' is '' @ run_status_value (status r) @
      '', not running -- a paused run resumes via approve() or submit_signed_document(); a pending, completed, failed or cancelled run has nothing to continue'')"

definition resume_run :: "'c langgraph \<Rightarrow> services \<Rightarrow> string \<Rightarrow> ('c, run) serviced" where
  "resume_run lg svc rid =
     mbind (on_db (runs_get rid)) (\<lambda>r.
       if status r \<noteq> RRunning then raise (not_running r)
       else mseq (advance lg svc r Continue) (on_db (runs_get (run_id r))))"

definition already_over :: "run \<Rightarrow> exc" where
  "already_over r = Exc InvalidRunOperation (''run '' @ run_id r @ '' is already '' @ run_status_value (status r))"

definition cancel_run :: "string \<Rightarrow> ('c, run) serviced" where
  "cancel_run rid =
     mbind (on_db (runs_get rid)) (\<lambda>r.
       if run_is_terminal r then raise (already_over r)
       else if status r \<in> {RPending, RPaused} then on_db (set_status (run_id r) RCancelled None None None)
       else on_db (request_cancel (run_id r)))"

section \<open>Requests and histories\<close>

datatype request =
    Start string int int
  | Approve string string "string option"
  | Reject string string "string option"
  | Sign string string "string option"
  | ResumeRun string
  | Cancel string

fun serve :: "'c langgraph \<Rightarrow> services \<Rightarrow> request \<Rightarrow> ('c, run) serviced" where
  "serve lg svc (Start emp msteps mcalls) = start_run lg svc emp msteps mcalls"
| "serve lg svc (Approve rid approver nte) = approve lg svc rid approver nte"
| "serve lg svc (Reject rid approver nte) = reject lg svc rid approver nte"
| "serve lg svc (Sign rid doc signed) = submit_signed_document lg svc rid doc signed"
| "serve lg svc (ResumeRun rid) = resume_run lg svc rid"
| "serve lg svc (Cancel rid) = cancel_run rid"

text \<open>A history of requests and restarts, played from a state, with what each request returned.\<close>

datatype event = Ask request | Restart iam_faults int

fun play :: "'c langgraph \<Rightarrow> services \<Rightarrow> event list \<Rightarrow> world \<times> 'c \<Rightarrow> (exc + run) list \<times> world \<times> 'c" where
  "play lg svc [] s = ([], s)"
| "play lg svc (Ask req # es) s = (case serve lg svc req s of (r, s') \<Rightarrow>
     (case play lg svc es s' of (rs, s'') \<Rightarrow> (r # rs, s'')))"
| "play lg svc (Restart faults n # es) (w, c) = play lg svc es (w\<lparr>iam := faults, paperwork_failures := n\<rparr>, c)"

lemma on_db_apply: "on_db m (w, c) = (case m w of (r, w') \<Rightarrow> (r, (w', c)))"
  by (simp add: on_db_def)

section \<open>Refusals\<close>

fun unfit :: "request \<Rightarrow> run \<Rightarrow> bool" where
  "unfit (Start emp a b) r = False"
| "unfit (Approve rid x y) r = (status r \<noteq> RPaused \<or> pause_reason r \<noteq> Some HR_APPROVAL)"
| "unfit (Reject rid x y) r = (status r \<noteq> RPaused \<or> pause_reason r \<noteq> Some HR_APPROVAL)"
| "unfit (Sign rid x y) r = (status r \<noteq> RPaused \<or> pause_reason r \<noteq> Some SIGNED_DOCUMENT)"
| "unfit (ResumeRun rid) r = (status r \<noteq> RRunning)"
| "unfit (Cancel rid) r = is_terminal (status r)"

fun run_of :: "request \<Rightarrow> string option" where
  "run_of (Start emp a b) = None"
| "run_of (Approve rid x y) = Some rid"
| "run_of (Reject rid x y) = Some rid"
| "run_of (Sign rid x y) = Some rid"
| "run_of (ResumeRun rid) = Some rid"
| "run_of (Cancel rid) = Some rid"

text \<open>
  C23. A request that does not fit the run is refused and changes nothing: approving or
  rejecting a run that is not paused for HR, handing in a document to one that does not wait
  for it, resuming one that is not running and cancelling one that is over raise
  \<open>InvalidRunOperation\<close> and leave the database and the engine's checkpoints exactly as they
  were; every request for an unknown run raises \<open>RunNotFound\<close> with the same effect.
\<close>

theorem unfit_request_changes_nothing:
  assumes "run_of req = Some rid"
  shows "case lookup_run w rid of
      None \<Rightarrow> serve lg svc req (w, c) = (Inl (run_not_found rid), (w, c))
    | Some r \<Rightarrow> unfit req r \<longrightarrow> (\<exists>m. serve lg svc req (w, c) = (Inl (Exc InvalidRunOperation m), (w, c)))"
  using assms
  by (cases req) (auto simp: approve_def reject_def resolve_approval_def submit_signed_document_def resume_run_def
      cancel_run_def mbind_apply mseq_apply on_db_apply runs_get_eq require_paused_for_def not_paused_for_def
      not_running_def already_over_def run_is_terminal_def split: option.splits)

theorem unfit_request_changes_nothing_witness:
  "serve linear_engine sample_services (Sign ''nope'' ''doc'' None) (sample_world, \<lambda>t. None) =
     (Inl (run_not_found ''nope''), (sample_world, \<lambda>t. None))
   \<and> (\<exists>m. serve linear_engine sample_services (Approve ''r1'' ''hr'' None) (sample_world, \<lambda>t. None) =
     (Inl (Exc InvalidRunOperation m), (sample_world, \<lambda>t. None)))"
proof -
  have "lookup_run sample_world ''nope'' = None" "lookup_run sample_world ''r1'' = Some sample_run"
    by (simp_all add: lookup_run_def tfind_Cons sample_run_def)
  moreover have "unfit (Approve ''r1'' ''hr'' None) sample_run" by (simp add: sample_run_def)
  ultimately show ?thesis
    using unfit_request_changes_nothing [where req = "Sign ''nope'' ''doc'' None" and rid = "''nope''" and w = sample_world
        and lg = linear_engine and svc = sample_services and c = "\<lambda>t. None"]
      unfit_request_changes_nothing [where req = "Approve ''r1'' ''hr'' None" and rid = "''r1''" and w = sample_world
        and lg = linear_engine and svc = sample_services and c = "\<lambda>t. None"]
    by simp
qed

end
