(* ===== verification/Step_Relations.thy ===== *)
theory Step_Relations
  imports Run_Service
begin

text \<open>
  What a step of the workflow can and cannot do to the world, proved once for every relation
  the basic writes respect: the locale \<open>step_relation\<close> lifts such a relation from the
  repositories and the tool through the ledger, the executor and the nodes, for the runs that \<open>mine\<close>
  selects.  Its interpretations for all runs are
  \<open>lifecycle_kept\<close> (nodes never set a run's status), \<open>iam_untouched\<close> (no revocation) and
  \<open>iam_only\<close> (a revocation under one key only).
\<close>

section \<open>The locale\<close>

locale step_relation = guarantee R for R :: "world \<Rightarrow> world \<Rightarrow> bool" +
  fixes mine :: "string \<Rightarrow> bool"
  assumes start_write: "mine rid \<Longrightarrow> guar R (start_attempt rid s tool)"
    and close_write: "guar R (close_attempt aid st p et em d tool)"
    and ledger_write: "only_effects w w' \<Longrightarrow> R w w'"
    and outside: "same_db w w' \<Longrightarrow> R w w'"
    and counting: "mine rid \<Longrightarrow> R w (snd (bump_counters rid a b w))"
begin

lemma guar_ledger: "guar only_effects m \<Longrightarrow> guar R m"
  by (erule guar_mono) (rule ledger_write)

lemma guar_bump: "mine rid \<Longrightarrow> guar R (bump_counters rid a b)"
  by (rule guarI) (rule counting)

lemma guar_get: "guar R (runs_get rid)" "guar R (latest_for_step rid s)"
  by (auto simp: guar_def runs_get_eq latest_for_step_def rel_refl split: option.splits)

lemma guar_close: "guar R (complete_attempt aid d tool)" "guar R (fail_attempt aid et em d)" "guar R (pause_attempt aid pr d)"
  by (simp_all add: close_defs close_write)

text \<open>What follows a value that was read: only the values that can have been read matter.\<close>

lemma guar_given: "(\<And>a. x = Inr a \<Longrightarrow> guar R (k a)) \<Longrightarrow> guar R (mbind (lift_sum x) k)"
  by (cases x) (auto intro: guar_raise)

lemma guar_run: "(\<And>r. run_id r = rid \<Longrightarrow> guar R (k r)) \<Longrightarrow> guar R (mbind (runs_get rid) k)"
  by (auto simp: guar_def mbind_apply runs_get_eq rel_refl split: option.splits dest: lookup_run_id)

lemma guar_marks: "guar R (mark_in_progress key)" "guar R (mark_completed key v)" "guar R (mark_failed key)"
    "guar R (se_get key)" "guar R (try_reserve key rid s n)"
  by (rule guar_ledger, rule markers_only se_get_only try_reserve_only)+

lemmas guar_basic = guar_intros guar_bump guar_get start_write guar_close guar_marks

lemma ask_app: "t \<in> set APP_TOOLS \<Longrightarrow> ask_provider t key w = (Inr x, w') \<or> ask_provider t key w = (Inl e, w') \<Longrightarrow> w' = w"
  by (auto simp: ask_provider_def APP_TOOLS_def mtry_apply)

lemma guar_ask: "t \<in> set APP_TOOLS \<Longrightarrow> guar R (ask_provider t key)"
  by (auto simp: guar_def ask_provider_def APP_TOOLS_def mtry_apply rel_refl)

lemma guar_run_once:
  assumes "t \<in> set APP_TOOLS" and "guar R (tool_call t (kw @ [(''idempotency_key'', PStr key)]))"
  shows "guar R (run_once depth key rid sname t kw)"
proof -
  note rules = guar_basic guar_ask [OF assms(1)] assms(2)
  have perform: "guar R (perform key t kw)"
    unfolding perform_def by (auto intro!: rules split: option.splits)
  show ?thesis
  proof (induction depth)
    case 0
    show ?case by (simp add: guar_def rel_refl)
  next
    case (Suc depth)
    then show ?case
      by (auto simp: run_once.simps(2) resume_existing_def intro!: rules perform split: option.splits)
  qed
qed

definition call_within :: "tool \<Rightarrow> kwargs \<Rightarrow> string \<Rightarrow> bool" where
  "call_within t kw key \<longleftrightarrow> t \<in> set APP_TOOLS \<and>
     (if side_effecting (spec t) then guar R (tool_call t (kw @ [(''idempotency_key'', PStr key)]))
      else guar R (tool_call t kw))"

lemma guar_execute:
  assumes mine: "mine rid" and "\<And>t. resolve (ex_registry ex) tname allow = Inr t \<Longrightarrow>
    call_within t kw (build_key rid sname (case operation of None \<Rightarrow> [] | Some s \<Rightarrow> s))"
  shows "guar R (execute ex rid sname tname allow kw operation)"
proof -
  have refuse: "guar R (trace_refusal rid sname tname e)" for e
    unfolding trace_refusal_def by (intro guar_basic mine)
  have check: "guar R (check_budget rid sname tname)"
    unfolding check_budget_def by (auto intro!: guar_basic refuse mine)
  have attempt: "guar R (run_attempt ex rid sname tname t kw operation n)"
    if "resolve (ex_registry ex) tname allow = Inr t" for t n
  proof -
    have "guar R (invoke_tool rid sname t kw operation)"
      using assms(2) [OF that] unfolding invoke_tool_def call_within_def
      by (auto intro!: guar_basic guar_run_once split: if_splits)
    then show ?thesis unfolding run_attempt_def call_and_close_def
      by (auto intro!: guar_basic check mine)
  qed
  have loop: "guar R (attempt_loop fuel af p (run_attempt ex rid sname tname t kw operation) n)"
    if "resolve (ex_registry ex) tname allow = Inr t" for t fuel af p n
  proof (induction fuel arbitrary: n)
    case 0
    show ?case by (simp add: guar_def rel_refl)
  next
    case (Suc fuel)
    then show ?case using attempt [OF that] by (auto intro!: guar_intros split: option.splits)
  qed
  show ?thesis
    unfolding execute_def by (auto intro!: guar_intros refuse loop split: sum.splits)
qed

text \<open>A node's own run, as its state names it.\<close>

definition own :: "ostate \<Rightarrow> bool" where
  "own st \<longleftrightarrow> (\<forall>rid. state_run_id st = Inr rid \<longrightarrow> mine rid)"

lemma ownD: "own st \<Longrightarrow> state_run_id st = Inr rid \<Longrightarrow> mine rid"
  by (simp add: own_def)

lemma guar_guard: "own st \<Longrightarrow> guar R (guard st s)"
  unfolding guard_def by (auto intro!: guar_given guar_run guar_basic dest: ownD)

lemma guar_pause: "mine rid \<Longrightarrow> guar R (pause_once rid s reason det)"
  unfolding pause_once_def already_paused_here_def by (auto intro!: guar_basic)

lemma guar_span:
  assumes "mine rid" and "span_same body"
  shows "guar R (step_span rid s tool body)"
proof (rule guarI)
  fix w
  obtain rs ws where start: "start_attempt rid s tool w = (rs, ws)" by (meson surj_pair)
  have ws: "R w ws" using guarD' [OF start_write [OF assms(1)] start] .
  show "R w (snd (step_span rid s tool body w))"
  proof (cases rs)
    case (Inl e)
    then show ?thesis using start ws by (simp add: step_span_def mbind_apply)
  next
    case (Inr row)
    obtain r w' d where b: "body (ws, []) = (r, (w', d))" by (metis surj_pair)
    have "same_db ws w'" using assms(2) b by (metis span_same_def fst_conv snd_conv)
    moreover have "guar R (close_span (att_id row) r d)"
      unfolding close_span_def by (auto intro!: guar_basic split: sum.splits)
    then have "R w' (snd (close_span (att_id row) r d w'))" by (rule guarD)
    ultimately show ?thesis
      using start Inr b ws outside by (simp add: step_span_def mbind_apply) (blast intro: rel_trans)
  qed
qed

text \<open>
  The nodes: the gates and the planning step respect every such relation, the others those
  their one tool respects.
\<close>

lemma guar_gates:
  assumes "llm_safe (svc_llm svc)" and own: "own st"
  shows "guar R (plan_deprovisioning svc intr st)" "guar R (await_hr_approval svc intr st)"
    "guar R (await_signed_document svc intr st)"
proof -
  have llm: "\<And>e. guar same_db (generate_plan (svc_llm svc) e)" using assms by (simp add: llm_safe_def)
  note rules = guar_guard [OF own] guar_given guar_intros guar_pause guar_span span_same_intros
    record_decision_same record_signature_same llm ownD [OF own]
  show "guar R (plan_deprovisioning svc intr st)"
    unfolding plan_deprovisioning_def Let_def by (auto intro!: rules)
  show "guar R (await_hr_approval svc intr st)"
    unfolding await_hr_approval_def by (auto intro!: rules)
  show "guar R (await_signed_document svc intr st)"
    unfolding await_signed_document_def by (auto intro!: rules)
qed

lemma guar_tool_nodes:
  assumes app: "ex_registry (svc_executor svc) = app_registry" and own: "own st"
  shows "(\<And>kw key. call_within hr_tool kw key) \<Longrightarrow> guar R (fetch_employee svc intr st)"
    "(\<And>kw rid. state_run_id st = Inr rid \<Longrightarrow> call_within send_paperwork_tool kw (build_key rid ''send_exit_paperwork'' ''send_packet'')) \<Longrightarrow>
       guar R (send_exit_paperwork svc intr st)"
    "(\<And>kw rid. state_run_id st = Inr rid \<Longrightarrow> call_within archive_tool kw (build_key rid ''finalize'' ''archive'')) \<Longrightarrow>
       guar R (finalize svc intr st)"
    "(\<And>kw rid. state_run_id st = Inr rid \<Longrightarrow> call_within iam_tool kw (build_key rid ''revoke_access'' ''revoke_all_systems'')) \<Longrightarrow>
       guar R (revoke_access svc intr st)"
proof -
  have res: "resolve app_registry ''hr_directory.get_employee'' (ALLOWLISTS FETCH_EMPLOYEE) = Inr hr_tool"
    "resolve app_registry ''documents.send_exit_paperwork'' (ALLOWLISTS SEND_EXIT_PAPERWORK) = Inr send_paperwork_tool"
    "resolve app_registry ''documents.archive_record'' (ALLOWLISTS FINALIZE) = Inr archive_tool"
    "resolve app_registry ''iam.revoke_access'' (ALLOWLISTS REVOKE_ACCESS) = Inr iam_tool"
    by (simp_all add: resolve_Inr_iff ALLOWLISTS_def app_registry_def APP_TOOLS_def)
  note rules = guar_guard [OF own] guar_mseq guar_lift_sum guar_given guar_mbind guar_execute ownD [OF own]
  show "guar R (fetch_employee svc intr st)" if "\<And>kw key. call_within hr_tool kw key"
    unfolding fetch_employee_def Let_def
    by (intro rules) (simp_all add: app res that)
  show "guar R (send_exit_paperwork svc intr st)"
    if "\<And>kw rid. state_run_id st = Inr rid \<Longrightarrow> call_within send_paperwork_tool kw (build_key rid ''send_exit_paperwork'' ''send_packet'')"
    unfolding send_exit_paperwork_def by (intro rules) (simp_all add: app res that)
  show "guar R (finalize svc intr st)"
    if "\<And>kw rid. state_run_id st = Inr rid \<Longrightarrow> call_within archive_tool kw (build_key rid ''finalize'' ''archive'')"
    unfolding finalize_def by (intro rules) (simp_all add: app res that)
  show "guar R (revoke_access svc intr st)"
    if "\<And>kw rid. state_run_id st = Inr rid \<Longrightarrow> call_within iam_tool kw (build_key rid ''revoke_access'' ''revoke_all_systems'')"
    unfolding revoke_access_def by (intro rules) (simp_all add: app res that)
qed

end

section \<open>The relations\<close>

text \<open>The part of a run only the run service writes.\<close>

definition lifecycle :: "run \<Rightarrow> run_status \<times> pause_reason option \<times> failure_reason option \<times> string option \<times> bool" where
  "lifecycle r = (status r, pause_reason r, failure_reason r, failure_detail r, cancel_requested r)"

definition lifecycle_kept :: "world \<Rightarrow> world \<Rightarrow> bool" where
  "lifecycle_kept w w' \<longleftrightarrow> (\<forall>rid. map_option lifecycle (lookup_run w' rid) = map_option lifecycle (lookup_run w rid))"

definition iam_untouched :: "world \<Rightarrow> world \<Rightarrow> bool" where
  "iam_untouched w w' \<longleftrightarrow> (\<forall>k. lookup_provider w' ''iam'' k = lookup_provider w ''iam'' k)"

definition iam_only :: "string \<Rightarrow> world \<Rightarrow> world \<Rightarrow> bool" where
  "iam_only key w w' \<longleftrightarrow> (\<forall>k. k \<noteq> key \<longrightarrow> lookup_provider w' ''iam'' k = lookup_provider w ''iam'' k)"

lemma lifecycle_bump: "lifecycle_kept w (snd (bump_counters rid a b w))"
proof -
  have "lifecycle (add_counts a b t r) = lifecycle r" for t r by (simp add: lifecycle_def)
  then show ?thesis
    by (auto simp: lifecycle_kept_def bump_counters_eq Let_def lookup_run_def tfind_tupdate option.map_comp comp_def
        split: option.splits)
qed

lemma lifecycle_same: "runs_tbl w' = runs_tbl w \<Longrightarrow> lifecycle_kept w w'"
  by (simp add: lifecycle_kept_def lookup_run_def)

lemma bump_provider: "provider_tbl (snd (bump_counters rid a b w)) = provider_tbl w"
  by (auto simp: bump_counters_eq Let_def split: option.splits)

text \<open>A relation that every write to the trace respects, whichever run it is for.\<close>

lemma trace_writes:
  assumes "\<And>w w'. only_trace w w' \<Longrightarrow> R w w'"
  shows "guar R (start_attempt rid s tool)" "guar R (close_attempt aid st p et em d tool')"
  using start_attempt_only_trace close_attempt_only_trace assms by (blast intro: guar_mono)+

interpretation lifecycle_steps: step_relation lifecycle_kept "\<lambda>_. True"
  by unfold_locales
    (auto simp: lifecycle_bump only_trace_def only_effects_def same_db_def intro!: trace_writes intro: lifecycle_same,
     auto simp: lifecycle_kept_def)

interpretation iam_steps: step_relation iam_untouched "\<lambda>_. True"
  by unfold_locales
    (auto simp: iam_untouched_def lookup_provider_def bump_provider only_trace_def only_effects_def same_db_def intro!: trace_writes)

interpretation iam_key_steps: step_relation "iam_only key" "\<lambda>_. True" for key
  by unfold_locales
    (auto simp: iam_only_def lookup_provider_def bump_provider only_trace_def only_effects_def same_db_def intro!: trace_writes)

end
