(* ===== verification/Node_Outcomes.thy ===== *)
theory Node_Outcomes
  imports Step_Relations
begin

text \<open>
  How a node of the application ends: only the two gates interrupt, each with the pause reason
  the run service will read back; every other exception is an ordinary one; an update never
  names \<open>run_id\<close>.  And what a node leaves: the approval gate completes only by recording the
  approval.
\<close>

section \<open>Ordinary exceptions\<close>

definition ordinary :: "exc \<Rightarrow> bool" where
  "ordinary e \<longleftrightarrow> (\<exists>c m. e = Exc c m)"

lemma ordinary_Exc [simp]: "ordinary (Exc c m)"
  by (simp add: ordinary_def)

definition sum_raises :: "('e \<Rightarrow> bool) \<Rightarrow> ('e + 'a) \<Rightarrow> bool" where
  "sum_raises Q r \<longleftrightarrow> (\<forall>e. r = Inl e \<longrightarrow> Q e)"

lemma raises_lift: "sum_raises Q r \<Longrightarrow> only_raises Q (lift_sum r)"
  by (simp add: sum_raises_def only_raises_def)

lemma sum_raises_bind: "sum_raises Q r \<Longrightarrow> (\<And>a. sum_raises Q (k a)) \<Longrightarrow> sum_raises Q (sum_bind r k)"
  by (auto simp: sum_raises_def sum_bind_def split: sum.splits)

lemma sum_raises_basic: "sum_raises Q (Inr a)" "Q e \<Longrightarrow> sum_raises Q (Inl e)"
  by (simp_all add: sum_raises_def)

lemma sum_raises_map: "(\<And>x. sum_raises Q (f x)) \<Longrightarrow> sum_raises Q (sum_map f xs)"
  by (induction xs) (auto intro!: sum_raises_bind sum_raises_basic)

lemma sum_raises_py: "sum_raises ordinary (py_item v k)" "sum_raises ordinary (py_get v k d)"
  "sum_raises ordinary (py_list v)" "sum_raises ordinary (py_len v)"
  "sum_raises ordinary (transition_step s t)" "sum_raises ordinary (check_kwargs names kw)"
  "sum_raises ordinary (state_run_id st)"
  by (auto simp: sum_raises_def py_item_def py_get_def transition_step_def check_kwargs_def state_run_id_def
      sum_bind_def split: pyval.splits option.splits if_splits sum.splits; cases v; auto)+

lemmas sum_rules = sum_raises_bind sum_raises_basic sum_raises_map sum_raises_py

lemma sum_raises_node: "sum_raises ordinary (systems_of v)" "sum_raises ordinary (document_of st)"
  "sum_raises ordinary (approval_request st rid)" "sum_raises ordinary (signature_request st rid)"
  "sum_raises ordinary (archive_summary st)"
  by (auto simp: systems_of_def document_of_def approval_request_def signature_request_def archive_summary_def
      intro!: sum_rules)

section \<open>What the parts raise\<close>

lemmas raises_mtry_same = raises_mtry [where P = Q and Q = Q for Q]

lemmas raising = raises_basic(1-4) raises_mbind raises_mseq raises_mtry_same raises_lift sum_rules sum_raises_node

lemma raises_immediate: "only_raises Q m \<Longrightarrow> only_raises Q (immediate m)"
  by (auto simp: only_raises_def immediate_apply split: prod.splits sum.splits) (metis fst_conv)

lemma raises_now: "only_raises Q now"
  by (simp add: only_raises_def)

lemma raises_runs: "only_raises ordinary (runs_get rid)" "only_raises ordinary (bump_counters rid a b)"
  by (auto simp: only_raises_def runs_get_eq bump_counters_eq run_not_found_def Let_def split: option.splits)

lemma raises_trace: "only_raises ordinary (start_attempt rid s tool)"
  "only_raises ordinary (close_attempt aid st p et em d tool)" "only_raises ordinary (latest_for_step rid s)"
proof -
  have get: "only_raises ordinary (trace_get aid)" for aid
    by (auto simp: only_raises_def trace_get_eq split: option.splits)
  have ins: "only_raises ordinary (insert_attempt rid s n tool t)" for n t
    by (auto simp: only_raises_def insert_attempt_def)
  show "only_raises ordinary (start_attempt rid s tool)"
    unfolding start_attempt_def
    by (auto intro!: raising raises_immediate raises_now get ins split: option.splits)
  show "only_raises ordinary (close_attempt aid st p et em d tool)"
    unfolding close_attempt_def
    by (auto intro!: raising raises_immediate raises_now get split: option.splits)
  show "only_raises ordinary (latest_for_step rid s)" by (simp add: latest_for_step_def raises_basic)
qed

lemma raises_closers: "only_raises ordinary (complete_attempt aid d tool)" "only_raises ordinary (fail_attempt aid et em d)"
  "only_raises ordinary (pause_attempt aid pr d)"
  by (simp_all add: close_defs raises_trace)

lemma raises_effects: "only_raises ordinary (try_reserve key rid s n)" "only_raises ordinary (set_state key st res)"
  "only_raises ordinary (se_get key)" "only_raises ordinary (mark_in_progress key)"
  "only_raises ordinary (mark_completed key v)" "only_raises ordinary (mark_failed key)"
proof -
  show "only_raises ordinary (try_reserve key rid s n)"
    by (simp add: only_raises_def try_reserve_eq Let_def)
  show *: "only_raises ordinary (set_state key st res)" for st res
  proof -
    have "ordinary e" if "fst (set_state key st res w) = Inl e" for w e
      using that by (cases rule: set_state_cases [of w key st res]) auto
    then show ?thesis by (simp add: only_raises_def)
  qed
  show "only_raises ordinary (se_get key)" by (simp add: only_raises_def)
  show "only_raises ordinary (mark_in_progress key)" "only_raises ordinary (mark_completed key v)"
      "only_raises ordinary (mark_failed key)"
    by (simp_all add: mark_defs *)
qed

lemma raises_provider: "only_raises Q (provider_lookup p key)" "only_raises Q (provider_record p key v)"
  by (simp_all add: only_raises_def provider_record_eq)

lemma raises_tools:
  assumes "t \<in> set APP_TOOLS"
  shows "only_raises ordinary (tool_call t kw)"
  using assms unfolding APP_TOOLS_def
  by (auto simp: hr_call_def iam_call_def send_paperwork_call_def archive_call_def Let_def
      intro!: raising raises_provider split: option.splits)

lemma raises_ask: "t \<in> set APP_TOOLS \<Longrightarrow> only_raises ordinary (ask_provider t key)"
  by (auto simp: APP_TOOLS_def ask_provider_def only_raises_def mtry_apply)

lemma raises_run_once:
  assumes "t \<in> set APP_TOOLS"
  shows "only_raises ordinary (run_once depth key rid s t kw)"
proof -
  note rules = raising raises_effects raises_ask [OF assms] raises_tools [OF assms]
  have perform: "only_raises ordinary (perform key t kw)"
    unfolding perform_def by (auto intro!: rules split: option.splits)
  have "ordinary (cannot_reconcile key t)" by (simp add: cannot_reconcile_def)
  then show ?thesis
  proof (induction depth)
    case 0
    show ?case by (simp add: only_raises_def)
  next
    case (Suc depth)
    then show ?case
      by (auto simp: run_once.simps(2) resume_existing_def intro!: rules perform split: option.splits)
  qed
qed

definition app_services :: "services \<Rightarrow> bool" where
  "app_services svc \<longleftrightarrow> ex_registry (svc_executor svc) = app_registry
     \<and> retries_as_documented (ex_tenacity (svc_executor svc)) \<and> llm_safe (svc_llm svc)
     \<and> (\<forall>emp. only_raises ordinary (generate_plan (svc_llm svc) emp))"

lemma app_services_safe: "app_services svc \<Longrightarrow> services_safe svc"
  by (simp add: app_services_def services_safe_def app_tools_safe)

lemma raises_execute:
  assumes "app_services svc"
  shows "only_raises ordinary (execute (svc_executor svc) rid sname tname allow kw operation)"
proof -
  let ?ex = "svc_executor svc"
  have reg: "ex_registry ?ex = app_registry" and doc: "retries_as_documented (ex_tenacity ?ex)"
    using assms by (simp_all add: app_services_def)
  have refuse: "only_raises ordinary (trace_refusal rid sname tname e)" for e
    unfolding trace_refusal_def by (intro raising raises_trace raises_closers)
  have check: "only_raises ordinary (check_budget rid sname tname)"
    unfolding check_budget_def by (auto simp: budget_exceeded_def intro!: raising raises_runs refuse)
  have attempt: "only_raises ordinary (run_attempt ?ex rid sname tname t kw operation n)"
    if "t \<in> set APP_TOOLS" for t n
  proof -
    have "only_raises ordinary (invoke_tool rid sname t kw operation)"
      unfolding invoke_tool_def by (auto intro!: raising raises_run_once [OF that] raises_tools [OF that])
    then show ?thesis unfolding run_attempt_def call_and_close_def
      by (auto intro!: raising check raises_trace raises_runs raises_closers)
  qed
  have loop: "only_raises ordinary (attempt_loop fuel (ex_tenacity ?ex) (build p) body n)"
    if "\<And>n. only_raises ordinary (body n)" for fuel p n and body :: "nat \<Rightarrow> execution_result py"
  proof (induction fuel arbitrary: n)
    case 0
    show ?case by (simp add: only_raises_def)
  next
    case (Suc fuel)
    then show ?case using that
      by (auto simp: after_failure_build [OF doc] intro!: raising split: if_splits)
  qed
  show ?thesis
  proof (cases "resolve app_registry tname allow")
    case (Inl e)
    then have "ordinary e" by (auto simp: resolve_def split: if_splits option.splits)
    then show ?thesis using Inl by (auto simp: execute_def reg intro!: raising refuse)
  next
    case (Inr t)
    then have "t \<in> set APP_TOOLS" by (auto simp: resolve_Inr_iff dest: app_registry_tools)
    then show ?thesis using Inr
      by (auto simp: execute_def reg needs_operation_def intro!: raising loop attempt)
  qed
qed

lemma raises_guard: "only_raises ordinary (guard st s)"
  unfolding guard_def by (auto simp: cancelled_before_def steps_spent_def intro!: raising raises_runs)

lemma raises_pause: "sum_raises ordinary det \<Longrightarrow> only_raises ordinary (pause_once rid s reason det)"
  unfolding pause_once_def already_paused_here_def by (auto intro!: raising raises_trace raises_closers)

lemma raises_in_span: "only_raises Q m \<Longrightarrow> only_raises Q (in_span m)"
  by (auto simp: only_raises_def in_span_def split: prod.splits) (metis fst_conv)

lemma raises_span:
  assumes "only_raises ordinary body"
  shows "only_raises ordinary (step_span rid s tool body)"
proof -
  have close: "only_raises ordinary (close_span aid r d)" if "sum_raises ordinary r" for aid and r :: "exc + 'a" and d
    using that unfolding close_span_def
    by (auto simp: sum_raises_def intro!: raising raises_closers split: sum.splits)
  have "ordinary e" if "fst (step_span rid s tool body w) = Inl e" for w e
  proof -
    obtain rs ws where start: "start_attempt rid s tool w = (rs, ws)" by (meson surj_pair)
    show ?thesis
    proof (cases rs)
      case (Inl x)
      then show ?thesis using that start only_raisesD [OF raises_trace(1) start [unfolded Inl]]
        by (simp add: step_span_def mbind_apply)
    next
      case (Inr row)
      obtain r w' d where b: "body (ws, []) = (r, (w', d))" by (metis surj_pair)
      have "sum_raises ordinary r" using only_raisesD [OF assms, of "(ws, [])"] b by (simp add: sum_raises_def)
      then have "only_raises ordinary (close_span (att_id row) r d)" by (rule close)
      moreover have "fst (close_span (att_id row) r d w') = Inl e"
        using that start Inr b by (simp add: step_span_def mbind_apply)
      ultimately show ?thesis by (simp add: only_raises_def)
    qed
  qed
  then show ?thesis by (simp add: only_raises_def)
qed

section \<open>How the nodes end\<close>

lemma raises_tool_nodes:
  assumes "app_services svc"
  shows "only_raises ordinary (fetch_employee svc intr st)" "only_raises ordinary (plan_deprovisioning svc intr st)"
    "only_raises ordinary (revoke_access svc intr st)" "only_raises ordinary (send_exit_paperwork svc intr st)"
    "only_raises ordinary (finalize svc intr st)"
proof -
  have llm: "only_raises ordinary (generate_plan (svc_llm svc) e)" for e using assms by (simp add: app_services_def)
  have detail: "only_raises Q (set_detail kvs)" for Q kvs by (simp add: set_detail_def raises_basic)
  note rules = raising raises_guard raises_execute [OF assms] raises_span raises_in_span llm detail
  show "only_raises ordinary (fetch_employee svc intr st)"
    unfolding fetch_employee_def Let_def by (intro rules)
  show "only_raises ordinary (plan_deprovisioning svc intr st)"
    unfolding plan_deprovisioning_def Let_def by (auto intro!: rules)
  show "only_raises ordinary (revoke_access svc intr st)"
    unfolding revoke_access_def by (intro rules)
  show "only_raises ordinary (send_exit_paperwork svc intr st)"
    unfolding send_exit_paperwork_def by (intro rules)
  show "only_raises ordinary (finalize svc intr st)"
    unfolding finalize_def by (intro rules)
qed

text \<open>The gates: the value interrupted with carries the reason the run service records.\<close>

definition gate_raises :: "pause_reason \<Rightarrow> pyval option \<Rightarrow> exc \<Rightarrow> bool" where
  "gate_raises reason r e \<longleftrightarrow> ordinary e \<or> r = None \<and> (\<exists>p. e = GraphInterrupt p \<and> requested_pause p = Inr reason)"

lemma gate_raises_ordinary [simp]: "ordinary e \<Longrightarrow> gate_raises reason r e"
  by (simp add: gate_raises_def)

lemma raises_weaken: "only_raises ordinary m \<Longrightarrow> only_raises (gate_raises reason r) m"
  by (auto simp: only_raises_def gate_raises_def)

lemma approval_request_reason: "approval_request st rid = Inr p \<Longrightarrow> requested_pause p = Inr HR_APPROVAL"
  by (auto simp: approval_request_def sum_bind_def requested_pause_def py_item_def pause_reason_of_def
      split: sum.splits)

lemma signature_request_reason: "signature_request st rid = Inr p \<Longrightarrow> requested_pause p = Inr SIGNED_DOCUMENT"
  by (auto simp: signature_request_def sum_bind_def requested_pause_def py_item_def pause_reason_of_def
      split: sum.splits)

lemma interrupt_with_raises: "requested_pause p = Inr reason \<Longrightarrow> sum_raises (gate_raises reason r) (interrupt_with r p)"
  by (auto simp: sum_raises_def interrupt_with_def gate_raises_def split: option.splits)

lemma record_raises: "only_raises ordinary (record_decision d)" "only_raises ordinary (record_signature d)"
proof -
  have detail: "only_raises Q (set_detail kvs)" for Q kvs by (simp add: set_detail_def raises_basic)
  show "only_raises ordinary (record_decision d)"
    unfolding record_decision_def by (auto simp: rejection_def intro!: raising detail)
  show "only_raises ordinary (record_signature d)"
    unfolding record_signature_def by (auto intro!: raising detail)
qed

lemma raises_question:
  assumes "sum_raises ordinary req" and "\<And>p. req = Inr p \<Longrightarrow> requested_pause p = Inr reason"
    and "\<And>v. only_raises ordinary (k v)"
  shows "only_raises (gate_raises reason r) (mbind (lift_sum req) (\<lambda>p. mbind (lift_sum (interrupt_with r p)) k))"
proof (cases req)
  case (Inl e)
  then have "ordinary e" using assms(1) by (simp add: sum_raises_def)
  with Inl show ?thesis by (simp add: raises_basic)
next
  case (Inr p)
  have "only_raises (gate_raises reason r) (mbind (lift_sum (interrupt_with r p)) k)"
    by (rule raises_mbind [OF raises_lift [OF interrupt_with_raises [OF assms(2) [OF Inr]]]])
      (rule raises_weaken [OF assms(3)])
  with Inr show ?thesis by simp
qed

lemma raises_gates:
  shows "only_raises (gate_raises HR_APPROVAL r) (await_hr_approval svc (interrupt_with r) st)"
    and "only_raises (gate_raises SIGNED_DOCUMENT r) (await_signed_document svc (interrupt_with r) st)"
proof -
  note front = raises_mseq [OF raises_weaken [OF raises_guard]] raises_mseq [OF raises_weaken [OF raises_pause]]
    raises_mbind [OF raises_weaken [OF raises_lift [OF sum_raises_py(7)]]]
  have "only_raises ordinary (mseq (step_span rid s None (record_decision v))
      (lift_sum (sum_bind (py_get v ''approver'' (PStr ''unknown'')) (\<lambda>approver.
        Inr [(''approval'', v), note_event (''Approved by '' @ str_val approver @ ''.'')]))))" for rid s v
    by (intro raises_mseq raises_span record_raises raises_lift sum_rules)
  then show "only_raises (gate_raises HR_APPROVAL r) (await_hr_approval svc (interrupt_with r) st)"
    unfolding await_hr_approval_def
    by (intro front raises_question sum_raises_node approval_request_reason) (intro sum_rules)
  have "only_raises ordinary (mseq (step_span rid s None (record_signature v))
      (lift_sum (sum_bind (py_get v ''document_id'' (PStr ''unknown'')) (\<lambda>doc.
        Inr [(''signed_document'', v), note_event (''Received signed document '' @ str_val doc @ ''.'')]))))" for rid s v
    by (intro raises_mseq raises_span record_raises raises_lift sum_rules)
  then show "only_raises (gate_raises SIGNED_DOCUMENT r) (await_signed_document svc (interrupt_with r) st)"
    unfolding await_signed_document_def
    by (intro front raises_question sum_raises_node signature_request_reason) (intro sum_rules sum_raises_node)
qed

fun gate_of :: "pause_reason \<Rightarrow> step_name" where
  "gate_of HR_APPROVAL = AWAIT_HR_APPROVAL"
| "gate_of SIGNED_DOCUMENT = AWAIT_SIGNED_DOCUMENT"

text \<open>Only a gate interrupts, with its own reason and only when it runs without a resume value.\<close>

lemma node_raises:
  assumes "app_services svc" and "(s, fn) \<in> set WORKFLOW" and "fn svc (interrupt_with r) st w = (Inl e, w')"
  shows "ordinary e \<or> (\<exists>p reason. e = GraphInterrupt p \<and> requested_pause p = Inr reason \<and> s = gate_of reason \<and> r = None)"
proof -
  consider (hr) "s = AWAIT_HR_APPROVAL" "fn = await_hr_approval" | (sign) "s = AWAIT_SIGNED_DOCUMENT" "fn = await_signed_document"
    | (other) "only_raises ordinary (fn svc (interrupt_with r) st)"
    using assms(2) raises_tool_nodes [OF assms(1)] by (auto simp: WORKFLOW_def)
  then show ?thesis
  proof cases
    case hr
    with only_raisesD [OF raises_gates(1)] assms(3) have "gate_raises HR_APPROVAL r e" by blast
    then show ?thesis using hr by (auto simp: gate_raises_def)
  next
    case sign
    with only_raisesD [OF raises_gates(2)] assms(3) have "gate_raises SIGNED_DOCUMENT r e" by blast
    then show ?thesis using sign by (auto simp: gate_raises_def)
  next
    case other
    from only_raisesD [OF other assms(3)] show ?thesis by blast
  qed
qed

section \<open>Updates\<close>

definition only_returns :: "('a \<Rightarrow> bool) \<Rightarrow> ('s, 'e, 'a) eff \<Rightarrow> bool" where
  "only_returns P m \<longleftrightarrow> (\<forall>s a. fst (m s) = Inr a \<longrightarrow> P a)"

lemma returns_bind: "(\<And>a. only_returns P (k a)) \<Longrightarrow> only_returns P (mbind m k)"
  by (auto simp: only_returns_def mbind_apply split: prod.splits sum.splits)

lemma returns_seq: "only_returns P k \<Longrightarrow> only_returns P (mseq m k)"
  by (simp add: mseq_def returns_bind)

lemma returns_ret: "P a \<Longrightarrow> only_returns P (ret a)"
  by (simp add: only_returns_def)

lemma returns_lift: "(\<And>a. r = Inr a \<Longrightarrow> P a) \<Longrightarrow> only_returns P (lift_sum r)"
  by (simp add: only_returns_def)

lemma returns_first: "only_returns (\<lambda>_. C) m \<Longrightarrow> only_returns (\<lambda>_. C) (mbind m k)"
proof -
  assume m: "only_returns (\<lambda>_. C) m"
  have C if "fst (mbind m k s) = Inr b" for s b
  proof -
    obtain r s' where "m s = (r, s')" by (meson surj_pair)
    then have "\<exists>a. fst (m s) = Inr a" using that by (cases r) (simp_all add: mbind_apply)
    then show ?thesis using m unfolding only_returns_def by blast
  qed
  then show ?thesis by (simp add: only_returns_def)
qed

lemma sum_bind_Inr: "sum_bind r k = Inr b \<longleftrightarrow> (\<exists>a. r = Inr a \<and> k a = Inr b)"
  by (cases r) simp_all

lemma node_returns:
  defines "P \<equiv> \<lambda>upd :: (string \<times> pyval) list. ''run_id'' \<notin> fst ` set upd"
  shows "only_returns P (fetch_employee svc intr st)" "only_returns P (plan_deprovisioning svc intr st)"
    "only_returns P (await_hr_approval svc intr st)" "only_returns P (revoke_access svc intr st)"
    "only_returns P (send_exit_paperwork svc intr st)" "only_returns P (await_signed_document svc intr st)"
    "only_returns P (finalize svc intr st)"
proof -
  note rules = returns_seq returns_bind returns_lift returns_ret
  show "only_returns P (fetch_employee svc intr st)" unfolding fetch_employee_def Let_def
    by (intro rules) (auto simp: P_def note_event_def sum_bind_Inr)
  show "only_returns P (plan_deprovisioning svc intr st)" unfolding plan_deprovisioning_def Let_def
    by (intro rules) (auto simp: P_def note_event_def intro!: rules)
  show "only_returns P (await_hr_approval svc intr st)" unfolding await_hr_approval_def
    by (intro rules) (auto simp: P_def note_event_def sum_bind_Inr)
  show "only_returns P (revoke_access svc intr st)" unfolding revoke_access_def
    by (intro rules) (auto simp: P_def note_event_def sum_bind_Inr)
  show "only_returns P (send_exit_paperwork svc intr st)" unfolding send_exit_paperwork_def
    by (intro rules) (auto simp: P_def note_event_def sum_bind_Inr)
  show "only_returns P (await_signed_document svc intr st)" unfolding await_signed_document_def
    by (intro rules) (auto simp: P_def note_event_def sum_bind_Inr)
  show "only_returns P (finalize svc intr st)" unfolding finalize_def
    by (intro rules) (auto simp: P_def note_event_def sum_bind_Inr)
qed

text \<open>A gate does not complete without a resume value.\<close>

lemma gate_waits:
  "only_returns (\<lambda>_. r \<noteq> None) (await_hr_approval svc (interrupt_with r) st)"
  "only_returns (\<lambda>_. r \<noteq> None) (await_signed_document svc (interrupt_with r) st)"
proof -
  have wait: "only_returns (\<lambda>_. r \<noteq> None) (mbind (lift_sum (interrupt_with r p)) k)" for p k
    by (intro returns_first returns_lift) (auto simp: interrupt_with_def split: option.splits)
  show "only_returns (\<lambda>_. r \<noteq> None) (await_hr_approval svc (interrupt_with r) st)"
    unfolding await_hr_approval_def by (rule returns_seq returns_bind wait)+
  show "only_returns (\<lambda>_. r \<noteq> None) (await_signed_document svc (interrupt_with r) st)"
    unfolding await_signed_document_def by (rule returns_seq returns_bind wait)+
qed

text \<open>The approval gate does not complete with a rejection either.\<close>

lemma span_fails: "only_returns (\<lambda>_. False) body \<Longrightarrow> only_returns (\<lambda>_. False) (step_span rid s t body)"
  unfolding step_span_def
  by (rule returns_bind) (auto simp: only_returns_def close_span_def mseq_apply split: prod.splits sum.splits, metis fst_conv)

lemma gate_refuses:
  assumes "py_get d ''approved'' PNone = Inr v" and "\<not> truthy v"
  shows "only_returns (\<lambda>_. False) (await_hr_approval svc (interrupt_with (Some d)) st)"
proof -
  have "only_returns (\<lambda>_. False) (record_decision d)"
    unfolding record_decision_def using assms
    by (auto simp: mbind_lift intro!: returns_bind returns_seq) (simp add: only_returns_def)
  then have refuse: "only_returns (\<lambda>_. False) (mbind (lift_sum (interrupt_with (Some d) p)) (\<lambda>d.
      mseq (step_span rid s None (record_decision d)) (k d)))" for p rid s and k :: "pyval \<Rightarrow> 'b py"
    by (simp add: interrupt_with_def mbind_lift mseq_def returns_first span_fails)
  show ?thesis unfolding await_hr_approval_def by (rule refuse returns_seq returns_bind)+
qed

lemma node_update:
  assumes "(s, fn) \<in> set WORKFLOW" and "fn svc intr st w = (Inr upd, w')"
  shows "''run_id'' \<notin> fst ` set upd"
proof -
  have "only_returns (\<lambda>upd. ''run_id'' \<notin> fst ` set upd) (fn svc intr st)"
    using assms(1) node_returns by (auto simp: WORKFLOW_def)
  moreover have "fst (fn svc intr st w) = Inr upd" using assms(2) by simp
  ultimately show ?thesis unfolding only_returns_def by blast
qed

lemma map_of_merge: "k \<notin> fst ` set upd \<Longrightarrow> map_of (fold merge_field upd d) k = map_of d k"
  by (induction upd arbitrary: d) (auto simp: merge_field_def map_of_dict_set)

lemma state_run_id_merge: "state_run_id v = Inr rid \<Longrightarrow> ''run_id'' \<notin> fst ` set upd \<Longrightarrow>
    state_run_id (merge_state v upd) = Inr rid"
  by (cases v) (auto simp: state_run_id_def merge_state_def py_item_def map_of_merge)

section \<open>The approval gate\<close>

definition approved_row :: "string \<Rightarrow> world \<Rightarrow> bool" where
  "approved_row rid w \<longleftrightarrow> (\<exists>a \<in> set (trace_tbl w). att_run a = rid \<and> att_step a = step_value AWAIT_HR_APPROVAL
     \<and> att_status a = SCompleted \<and> (\<exists>d. detail a = PDict d \<and> map_of d ''approved'' = Some (PBool True)))"

lemma approved_row_extends:
  assumes "trace_extends w w'" and "approved_row rid w"
  shows "approved_row rid w'"
proof -
  obtain a where a: "a \<in> set (trace_tbl w)" "att_run a = rid" "att_step a = step_value AWAIT_HR_APPROVAL"
      "att_status a = SCompleted" "\<exists>d. detail a = PDict d \<and> map_of d ''approved'' = Some (PBool True)"
    using assms(2) by (auto simp: approved_row_def)
  obtain old new where tbl: "trace_tbl w' = old @ new" "list_all2 row_evolves (trace_tbl w) old"
    using assms(1) by (auto simp: trace_extends_def)
  obtain i where i: "i < length (trace_tbl w)" "trace_tbl w ! i = a" using a(1) by (auto simp: in_set_conv_nth)
  then have "row_evolves a (old ! i)" "old ! i \<in> set old"
    using tbl(2) by (auto simp: list_all2_conv_all_nth)
  then have "a \<in> set (trace_tbl w')" using a(4) tbl(1) by (auto simp: row_evolves_def)
  with a show ?thesis by (auto simp: approved_row_def)
qed

text \<open>The gate completes only by recording the approval.\<close>

lemma gate_completes:
  assumes "trace_wf w" and "state_run_id st = Inr rid" and "await_hr_approval svc intr st w = (Inr upd, w')"
  shows "approved_row rid w'"
proof -
  obtain wa where g: "guard st AWAIT_HR_APPROVAL w = (Inr (), wa)"
    using assms(3) by (auto simp: await_hr_approval_def mseq_apply split: prod.splits sum.splits)
  have "safe_step w wa" using guarD' [OF guard_safe g] .
  then have wfa: "trace_wf wa" using assms(1) by (rule safe_stepD)
  define det where "det = sum_bind (py_get st ''checklist'' (PList [])) (\<lambda>c. sum_bind (py_len c) (\<lambda>n.
                 Inr (PDict [(''item_count'', PInt n)])))"
  obtain wb where p: "pause_once rid AWAIT_HR_APPROVAL HR_APPROVAL det wa = (Inr (), wb)"
    using assms(2,3) g by (auto simp: await_hr_approval_def mseq_apply det_def split: prod.splits sum.splits)
  have wfb: "trace_wf wb" using guarD' [OF pause_once_safe p] wfa by (rule safe_stepD)
  obtain request where request: "approval_request st rid = Inr request"
    using assms(2,3) g p by (cases "approval_request st rid")
      (auto simp: await_hr_approval_def mseq_apply det_def [symmetric])
  obtain decision where decision: "intr request = Inr decision"
    using assms(2,3) g p request by (cases "intr request")
      (auto simp: await_hr_approval_def mseq_apply det_def [symmetric])
  obtain wc where span: "step_span rid (step_value AWAIT_HR_APPROVAL) None (record_decision decision) wb = (Inr (), wc)"
      "w' = wc"
    using assms(2,3) g p request decision
    by (auto simp: await_hr_approval_def mseq_apply det_def [symmetric] split: prod.splits sum.splits)
  have run: "lookup_run wb rid \<noteq> None"
    using span(1) by (auto simp: step_span_def mbind_apply start_attempt_eq [OF wfb] split: if_splits)
  from wfb run record_decision_same record_decision_error obtain wd r we dd row wf where s:
    "record_decision decision (wd, []) = (r, (we, dd))"
    "step_span rid (step_value AWAIT_HR_APPROVAL) None (record_decision decision) wb = (r, wf)"
    "trace_tbl wf = trace_tbl wb @ [row]" "att_run row = rid" "att_step row = step_value AWAIT_HR_APPROVAL"
    "case r of Inl e \<Rightarrow> att_status row = SFailed \<and> error_type row = Some (type_name e) | Inr a \<Rightarrow> att_status row = SCompleted"
    "detail row = redact (PDict dd)"
    by (rule step_span_run [where body = "record_decision decision"])
  have r: "r = Inr ()" "wf = wc" using s(2) span(1) by simp_all
  obtain d where d: "decision = PDict d"
    using s(1) r(1) by (cases decision) (auto simp: record_decision_def py_get_def)
  have "truthy (decided d ''approved'')" "dd = [(''approved'', PBool True), (''approver'', decided d ''approver''),
      (''note'', decided d ''note'')]"
    using s(1) r(1) by (auto simp: d record_decision_eq split: if_splits)
  moreover have "\<not> is_sensitive ''approved''" by code_simp
  ultimately have "\<exists>d'. detail row = PDict d' \<and> map_of d' ''approved'' = Some (PBool True)"
    using s(7) by simp
  then show ?thesis using s r span(2) by (auto simp: approved_row_def)
qed

end
