(* ===== verification/Service_Safety.thy ===== *)
theory Service_Safety
  imports Node_Outcomes
begin

text \<open>
  The invariant of the whole service and what follows from it: whatever requests are served in
  whatever order, with processes dying inside the graph and being replaced, run statuses agree
  with the engine's checkpoints, and no access is revoked for a run whose approval is not on
  record.
\<close>

section \<open>What each node may touch\<close>

lemma lifecycle_calls: "t \<in> set APP_TOOLS \<Longrightarrow> lifecycle_steps.call_within t kw key"
  using guar_mono [OF app_tools_guar(1), of t lifecycle_kept]
  by (auto simp: lifecycle_steps.call_within_def only_provider_def intro: lifecycle_same)

lemma other_record_untouched: "p \<noteq> ''iam'' \<Longrightarrow> guar iam_untouched (provider_record p key v)"
  by (simp add: guar_def iam_untouched_def lookup_provider_record)

lemma modify_untouched: "guar iam_untouched (modify (\<lambda>w. w\<lparr>paperwork_failures := n\<rparr>))"
  "guar iam_untouched (provider_lookup p key)"
  by (simp_all add: guar_def iam_untouched_def)

lemma iam_untouched_calls: "t \<in> {hr_tool, send_paperwork_tool, archive_tool} \<Longrightarrow> iam_steps.call_within t kw key"
  by (auto simp: iam_steps.call_within_def APP_TOOLS_def hr_call_def send_paperwork_call_def archive_call_def Let_def
      intro!: iam_steps.guar_intros other_record_untouched modify_untouched split: option.splits)

lemma iam_only_calls: "iam_key_steps.call_within key iam_tool kw key"
proof -
  have "lookup_provider w' ''iam'' k = lookup_provider w ''iam'' k"
    if run: "iam_call (kw @ [(''idempotency_key'', PStr key)]) w = (r, w')" and "k \<noteq> key" for w r w' k
  proof (cases "check_kwargs [''employee_id'', ''systems'', ''idempotency_key''] (kw @ [(''idempotency_key'', PStr key)])")
    case (Inl e)
    then show ?thesis using run by (simp add: iam_call_def mseq_apply)
  next
    case (Inr u)
    have "arg_str (arg (kw @ [(''idempotency_key'', PStr key)]) ''idempotency_key'') = key"
      by (rule arg_key) (use Inr in simp)
    then show ?thesis using run Inr \<open>k \<noteq> key\<close>
      by (auto simp: iam_call_def eff_apply Let_def provider_record_eq lookup_provider_def tfind_append tfind_Cons
          effect_id_def split: option.splits sum.splits prod.splits if_splits)
  qed
  then have "guar (iam_only key) (iam_call (kw @ [(''idempotency_key'', PStr key)]))"
    by (auto simp: guar_def iam_only_def) (metis surj_pair snd_conv)
  then show ?thesis by (simp add: iam_key_steps.call_within_def APP_TOOLS_def)
qed

definition revoke_key :: "string \<Rightarrow> string" where
  "revoke_key rid = build_key rid (step_value REVOKE_ACCESS) ''revoke_all_systems''"

lemma revoke_key_inject [simp]: "revoke_key a = revoke_key b \<longleftrightarrow> a = b"
  by (simp add: revoke_key_def build_key_def)

lemma node_lane:
  assumes "app_services svc" and "(s, fn) \<in> set WORKFLOW" and "fn svc intr st w = (res, w')"
  shows "lifecycle_kept w w'
    \<and> (if s = REVOKE_ACCESS then \<forall>rid. state_run_id st = Inr rid \<longrightarrow> iam_only (revoke_key rid) w w'
       else iam_untouched w w')"
proof -
  have app: "ex_registry (svc_executor svc) = app_registry" and llm: "llm_safe (svc_llm svc)"
    using assms(1) by (simp_all add: app_services_def)
  have own: "lifecycle_steps.own st" "iam_steps.own st" "iam_key_steps.own st"
    by (simp_all add: lifecycle_steps.own_def iam_steps.own_def iam_key_steps.own_def)
  have "guar lifecycle_kept (fn svc intr st)"
    using assms(2) lifecycle_steps.guar_gates [OF llm own(1)] lifecycle_steps.guar_tool_nodes [OF app own(1)] lifecycle_calls
    by (auto simp: WORKFLOW_def APP_TOOLS_def)
  moreover have "guar iam_untouched (fn svc intr st)" if "s \<noteq> REVOKE_ACCESS"
    using assms(2) that iam_steps.guar_gates [OF llm own(2)] iam_steps.guar_tool_nodes [OF app own(2)] iam_untouched_calls
    by (auto simp: WORKFLOW_def)
  moreover have "guar (iam_only (revoke_key rid)) (fn svc intr st)" if "s = REVOKE_ACCESS" "state_run_id st = Inr rid" for rid
  proof -
    have "fn = revoke_access" using assms(2) that(1) by (auto simp: WORKFLOW_def)
    then show ?thesis
      using iam_key_steps.guar_tool_nodes(4) [OF app own(3), of "revoke_key rid"] that(2) iam_only_calls
      by (auto simp: revoke_key_def)
  qed
  ultimately show ?thesis using guarD' assms(3) by fastforce
qed

text \<open>
  C29. Nodes stay in their lane: whatever a node of the application does and however it ends, the
  status, pause reason, failure and cancellation flag of every run are as before (only
  \<open>_advance\<close> sets a status), and no step but \<open>revoke_access\<close> changes anything recorded at the IAM
  provider, that one only under the idempotency key of its own run.
\<close>

theorem nodes_stay_in_their_lane:
  assumes "app_services svc" and "(s, fn) \<in> set WORKFLOW" and "fn svc intr st w = (res, w')"
    and "state_run_id st = Inr rid"
  shows "map_option lifecycle (lookup_run w' x) = map_option lifecycle (lookup_run w x)
    \<and> (lookup_provider w' ''iam'' key \<noteq> lookup_provider w ''iam'' key \<longrightarrow> s = REVOKE_ACCESS \<and> key = revoke_key rid)"
  using node_lane [OF assms(1-3)] assms(4)
  by (auto simp: lifecycle_kept_def iam_only_def iam_untouched_def split: if_splits)

lemma sum_raises_sorted: "sum_raises ordinary (py_sorted vs)"
  by (simp add: py_sorted_def sum_raises_def split: if_splits)

lemma validate_plan_raises: "sum_raises ordinary (validate_plan p emp)"
  by (auto simp: validate_plan_def invalid_plan_def Let_def intro!: sum_rules sum_raises_sorted)

lemma fake_llm_raises:
  assumes "\<And>v a r. sum_raises ordinary (new_item lib v a r)"
  shows "only_raises ordinary (generate_plan (fake_llm lib) emp)"
  using assms by (auto simp: fake_llm_def fake_plan_def fake_item_def intro!: raises_lift sum_rules validate_plan_raises)

lemma sample_app_services [simp]: "app_services sample_services"
proof -
  have "sum_raises ordinary (new_item documented_pydantic v a r)" for v a r
    by (auto simp: documented_pydantic_def schema_item_def sum_raises_def split: pyval.splits option.splits)
  then show ?thesis by (simp add: app_services_def fake_llm_raises)
qed

theorem nodes_stay_in_their_lane_witness:
  "\<exists>res w'. revoke_access sample_services Inr sample_state sample_world = (res, w')
    \<and> map_option lifecycle (lookup_run w' ''r1'') = map_option lifecycle (lookup_run sample_world ''r1'')
    \<and> lookup_provider w' ''iam'' ''other'' = lookup_provider sample_world ''iam'' ''other''"
proof -
  obtain res w' where run: "revoke_access sample_services Inr sample_state sample_world = (res, w')" by (metis surj_pair)
  have "(REVOKE_ACCESS, revoke_access) \<in> set WORKFLOW" by (simp add: WORKFLOW_def)
  note lane = nodes_stay_in_their_lane [OF sample_app_services this run sample_state_facts(1)]
  have "''other'' \<noteq> revoke_key ''r1''" by (simp add: revoke_key_def build_key_def)
  with lane [of "''r1''"] lane [of _ "''other''"] run show ?thesis by blast
qed

end
