(* ===== verification/Step_Evidence.thy ===== *)
theory Step_Evidence
  imports Service_Safety
begin

text \<open>
  A node of the workflow that completes leaves a completed attempt of its step in the trace: by a
  small logic of partial correctness over the database, where the evidence, once written, is
  stable because closed attempts are final.
\<close>

section \<open>Evidence\<close>

definition done_row :: "string \<Rightarrow> string \<Rightarrow> world \<Rightarrow> bool" where
  "done_row rid s w \<longleftrightarrow> (\<exists>a \<in> set (trace_tbl w). att_run a = rid \<and> att_step a = s \<and> att_status a = SCompleted)"

definition has_row :: "string \<Rightarrow> string \<Rightarrow> nat \<Rightarrow> world \<Rightarrow> bool" where
  "has_row rid s aid w \<longleftrightarrow> (\<exists>a \<in> set (trace_tbl w). att_id a = aid \<and> att_run a = rid \<and> att_step a = s)"

definition lasting :: "(world \<Rightarrow> bool) \<Rightarrow> bool" where
  "lasting P \<longleftrightarrow> (\<forall>w w'. trace_extends w w' \<longrightarrow> P w \<longrightarrow> P w')"

lemma row_kept:
  assumes ext: "trace_extends w w'" and row: "a \<in> set (trace_tbl w)"
  obtains b where "b \<in> set (trace_tbl w')" "row_evolves a b"
proof -
  obtain old new where tbl: "trace_tbl w' = old @ new" "list_all2 row_evolves (trace_tbl w) old"
    using ext by (auto simp: trace_extends_def)
  obtain i where i: "i < length (trace_tbl w)" "trace_tbl w ! i = a" using row by (auto simp: in_set_conv_nth)
  then have "row_evolves a (old ! i)" "old ! i \<in> set old" using tbl(2) by (auto simp: list_all2_conv_all_nth)
  then show ?thesis using tbl(1) by (intro that [of "old ! i"]) simp_all
qed

lemma lasting_rows: "lasting (done_row rid s)" "lasting (has_row rid s aid)" "lasting (\<lambda>w. True)"
  unfolding lasting_def done_row_def has_row_def by (fastforce elim: row_kept simp: row_evolves_def)+

section \<open>The logic\<close>

definition establishes :: "(world \<Rightarrow> bool) \<Rightarrow> 'a py \<Rightarrow> (world \<Rightarrow> bool) \<Rightarrow> bool" where
  "establishes P m Q \<longleftrightarrow> (\<forall>w a w'. trace_wf w \<longrightarrow> P w \<longrightarrow> m w = (Inr a, w') \<longrightarrow> Q w')"

lemma establishesI: "(\<And>w a w'. trace_wf w \<Longrightarrow> P w \<Longrightarrow> m w = (Inr a, w') \<Longrightarrow> Q w') \<Longrightarrow> establishes P m Q"
  by (simp add: establishes_def)

lemma est_later:
  assumes "guar trace_safe m" "lasting P" "\<And>a. establishes P (k a) Q"
  shows "establishes P (mbind m k) Q"
proof (rule establishesI)
  fix w b w' assume w: "trace_wf w" "P w" "mbind m k w = (Inr b, w')"
  obtain r w1 where m: "m w = (r, w1)" by (meson surj_pair)
  with w(3) obtain a where "r = Inr a" "k a w1 = (Inr b, w')" by (cases r) (auto simp: mbind_apply)
  moreover have "trace_wf w1" "P w1"
    using guarD' [OF assms(1) m] w(1,2) assms(2) by (auto simp: trace_safe_def lasting_def)
  ultimately show "Q w'" using assms(3) [of a] unfolding establishes_def by blast
qed

lemma est_now:
  assumes "establishes P m Q" "lasting Q" "guar trace_safe m" "\<And>a. guar trace_safe (k a)"
  shows "establishes P (mbind m k) Q"
proof (rule establishesI)
  fix w b w' assume w: "trace_wf w" "P w" "mbind m k w = (Inr b, w')"
  obtain r w1 where m: "m w = (r, w1)" by (meson surj_pair)
  with w(3) obtain a where a: "r = Inr a" "k a w1 = (Inr b, w')" by (cases r) (auto simp: mbind_apply)
  have "Q w1" using assms(1) w(1,2) m a(1) unfolding establishes_def by blast
  moreover have "trace_wf w1" using guarD' [OF assms(3) m] w(1) by (simp add: trace_safe_def)
  ultimately show "Q w'" using guarD' [OF assms(4) a(2)] assms(2) by (auto simp: trace_safe_def lasting_def)
qed

lemma est_seq: "guar trace_safe m \<Longrightarrow> lasting P \<Longrightarrow> establishes P k Q \<Longrightarrow> establishes P (mseq m k) Q"
  "establishes P m Q \<Longrightarrow> lasting Q \<Longrightarrow> guar trace_safe m \<Longrightarrow> guar trace_safe k \<Longrightarrow> establishes P (mseq m k) Q"
  by (simp_all add: mseq_def est_later est_now)

lemma est_weaken: "establishes (\<lambda>w. True) m Q \<Longrightarrow> establishes P m Q"
  by (simp add: establishes_def)

section \<open>What writes the evidence\<close>

lemma est_complete: "establishes (has_row rid s aid) (complete_attempt aid det tool) (done_row rid s)"
proof (rule establishesI)
  fix w a w' assume wf: "trace_wf w" and row: "has_row rid s aid w" and run: "complete_attempt aid det tool w = (Inr a, w')"
  obtain r where r: "r \<in> set (trace_tbl w)" "att_id r = aid" "att_run r = rid" "att_step r = s"
    using row by (auto simp: has_row_def)
  then have found: "tfind att_id aid (trace_tbl w) = Some r" using trace_wf_find [OF wf] by blast
  let ?f = "close_row SCompleted None None None det tool (clock w (clock_reads w))"
  have "trace_tbl w' = tupdate att_id aid ?f (trace_tbl w)"
    using run found by (auto simp: complete_attempt_def close_attempt_eq Let_def split: sum.splits)
  moreover have "?f r \<in> set (tupdate att_id aid ?f (trace_tbl w))"
    using r by (force simp: tupdate_def)
  moreover have "att_run (?f r) = rid" "att_step (?f r) = s" "att_status (?f r) = SCompleted" using r by simp_all
  ultimately show "done_row rid s w'" unfolding done_row_def by metis
qed

lemma est_start:
  assumes "\<And>row. att_run row = rid \<Longrightarrow> att_step row = s \<Longrightarrow> establishes (has_row rid s (att_id row)) (k row) Q"
  shows "establishes P (mbind (start_attempt rid s tool) k) Q"
proof (rule establishesI)
  fix w b w' assume wf: "trace_wf w" and run: "mbind (start_attempt rid s tool) k w = (Inr b, w')"
  have "lookup_run w rid \<noteq> None" using run by (cases "lookup_run w rid = None") (simp_all add: mbind_apply start_attempt_eq [OF wf])
  from wf this obtain row w1 where start: "start_attempt rid s tool w = (Inr row, w1)" "trace_tbl w1 = trace_tbl w @ [row]"
    "att_run row = rid" "att_step row = s" "trace_wf w1"
    by (rule start_attempt_opens)
  have "has_row rid s (att_id row) w1" using start by (simp add: has_row_def)
  moreover have "k row w1 = (Inr b, w')" using run start(1) by (simp add: mbind_apply)
  ultimately show "Q w'" using assms [OF start(3,4)] start(5) unfolding establishes_def by blast
qed


lemma safe_trace_safe: "guar safe_step m \<Longrightarrow> guar trace_safe m"
  by (erule guar_mono) (simp add: safe_step_def)

lemma bump_trace_safe: "guar trace_safe (bump_counters rid a b)"
proof (rule guar_mono [OF bump_counters_only_runs])
  fix w w' assume only: "only_runs w w'"
  then have "trace_extends w w'" by (intro trace_extends_same) (simp add: only_runs_def)
  then show "trace_safe w w'" using only_runs_trace(2) [OF only] by (simp add: trace_safe_def)
qed

lemma est_span:
  assumes "span_same body"
  shows "establishes P (step_span rid s tool body) (done_row rid s)"
  unfolding step_span_def
proof (rule est_start, rule establishesI)
  fix row w b w'
  assume wf: "trace_wf w" and row: "has_row rid s (att_id row) w"
    and run: "(case body (w, []) of (r, w', d) \<Rightarrow> close_span (att_id row) r d w') = (Inr b, w')"
  obtain r w1 d where body: "body (w, []) = (r, (w1, d))" by (metis surj_pair)
  have "same_db w w1" using assms body unfolding span_same_def by (metis fst_conv snd_conv)
  then have w1: "trace_wf w1" "has_row rid s (att_id row) w1"
    using wf row trace_wf_cong [of w1 w] by (auto simp: same_db_def has_row_def)
  obtain x where r: "r = Inr x" using run body by (cases r) (auto simp: close_span_def mseq_apply split: if_splits prod.splits sum.splits)
  then obtain y where "complete_attempt (att_id row) (span_detail d) None w1 = (Inr y, w')"
    using run body by (auto simp: close_span_def mseq_apply split: prod.splits sum.splits)
  then show "done_row rid s w'" using est_complete w1 unfolding establishes_def by blast
qed

lemma est_call:
  assumes "tools_safe reg" "map_of reg name = Some t"
  shows "establishes (has_row rid s aid) (call_and_close ex rid s t kw operation n aid) (done_row rid s)"
proof (rule establishesI)
  fix w a w'
  assume w: "trace_wf w" "has_row rid s aid w" and run: "call_and_close ex rid s t kw operation n aid w = (Inr a, w')"
  obtain r w1 where call: "invoke_tool rid s t kw operation w = (r, w1)" by (meson surj_pair)
  have "trace_safe w w1" using guarD' [OF safe_trace_safe [OF invoke_tool_safe [OF assms]] call] .
  then have w1: "trace_wf w1" "has_row rid s aid w1"
    using w lasting_rows(2) by (auto simp: trace_safe_def lasting_def)
  obtain v repl reco where "r = Inr (v, repl, reco)"
    using run call by (cases r) (auto simp: call_and_close_def mtry_apply mseq_apply split: if_splits prod.splits sum.splits)
  then obtain y where "complete_attempt aid (Some (redact (success_detail n repl reco v))) None w1 = (Inr y, w')"
    using run call by (auto simp: call_and_close_def mtry_apply mseq_apply split: prod.splits sum.splits)
  then show "done_row rid s w'" using est_complete w1 unfolding establishes_def by blast
qed

lemma est_attempt:
  assumes "tools_safe reg" "map_of reg name = Some t"
  shows "establishes P (run_attempt ex rid s tname t kw operation n) (done_row rid s)"
  unfolding run_attempt_def
  by (rule est_weaken, intro est_seq(1) est_start est_call [OF assms] lasting_rows bump_trace_safe
      safe_trace_safe check_budget_safe)

lemma est_loop:
  assumes "\<And>n. establishes (\<lambda>w. True) (body n) Q" and "\<And>n. guar trace_safe (body n)"
  shows "establishes (\<lambda>w. True) (attempt_loop fuel af p body n) Q"
proof (induction fuel arbitrary: n)
  case (Suc fuel)
  show ?case
  proof (rule establishesI)
    fix w a w' assume wf: "trace_wf w" and run: "attempt_loop (Suc fuel) af p body n w = (Inr a, w')"
    obtain r w1 where b: "body n w = (r, w1)" by (meson surj_pair)
    have wf1: "trace_wf w1" using guarD' [OF assms(2) b] wf by (simp add: trace_safe_def)
    show "Q w'"
    proof (cases r)
      case (Inr x)
      then show ?thesis using run b assms(1) [of n] wf by (auto simp: mtry_apply establishes_def)
    next
      case (Inl e)
      then have "attempt_loop fuel af p body (Suc n) w1 = (Inr a, w')"
        using run b by (auto simp: mtry_apply split: option.splits)
      then show ?thesis using Suc.IH [of "Suc n"] wf1 by (auto simp: establishes_def)
    qed
  qed
qed (simp add: establishes_def)

lemma est_execute:
  assumes "tools_safe (ex_registry ex)"
  shows "establishes P (execute ex rid s tname allow kw operation) (done_row rid s)"
proof (cases "resolve (ex_registry ex) tname allow")
  case (Inl e)
  then show ?thesis by (auto simp: execute_def establishes_def mseq_apply split: prod.splits sum.splits)
next
  case (Inr t)
  then have t: "map_of (ex_registry ex) tname = Some t" by (simp add: resolve_Inr_iff)
  have loop: "establishes P (attempt_loop m af p (run_attempt ex rid s tname t kw operation) 1) (done_row rid s)" for m af p
    by (rule est_weaken, rule est_loop) (intro est_attempt [OF assms t] safe_trace_safe run_attempt_safe [OF assms t])+
  have refuse: "establishes P (raise e) (done_row rid s)" for e by (simp add: establishes_def)
  show ?thesis
  proof (cases "side_effecting (spec t) \<and> operation = None")
    case True
    then show ?thesis by (simp only: execute_def Inr sum.case if_True refuse simp_thms)
  next
    case False
    then show ?thesis by (simp only: execute_def Inr sum.case if_False loop)
  qed
qed

section \<open>Every node\<close>

lemma node_leaves_evidence:
  assumes svc: "services_safe svc" and node: "(s, fn) \<in> set WORKFLOW" and st: "state_run_id st = Inr rid"
  shows "establishes (\<lambda>w. True) (fn svc intr st) (done_row rid (step_value s))"
proof -
  let ?T = "\<lambda>w :: world. True"
  have tools: "tools_safe (ex_registry (svc_executor svc))" and llm: "\<And>e. guar same_db (generate_plan (svc_llm svc) e)"
    using svc by (simp_all add: services_safe_def llm_safe_def)
  have trail: "guar trace_safe (lift_sum r)" for r :: "exc + (string \<times> pyval) list"
    by (simp add: trace_keeping.guar_intros)
  note front = est_seq(1) [OF safe_trace_safe [OF guard_safe] lasting_rows(3)]
    est_seq(1) [OF safe_trace_safe [OF pause_once_safe] lasting_rows(3)]
    est_later [where m = "lift_sum x" for x, OF trace_keeping.guar_lift_sum lasting_rows(3)]
  note exec = est_now [OF est_execute [OF tools] lasting_rows(1) safe_trace_safe [OF execute_safe [OF tools]] trail]
  note gate = est_seq(2) [OF est_span lasting_rows(1) safe_trace_safe [OF span_safe] trail]
  note rules = front exec gate record_decision_same record_signature_same
  note here = mbind_lift Let_def
  have "establishes ?T (fetch_employee svc intr st) (done_row rid (step_value FETCH_EMPLOYEE))"
    unfolding fetch_employee_def st here by (intro rules)
  moreover have "establishes ?T (plan_deprovisioning svc intr st) (done_row rid (step_value PLAN_DEPROVISIONING))"
    unfolding plan_deprovisioning_def st here
    by (intro front est_now [OF est_span lasting_rows(1) safe_trace_safe [OF span_safe]] span_same_intros llm)
      (auto intro: trace_keeping.guar_ret)
  moreover have "establishes ?T (await_hr_approval svc intr st) (done_row rid (step_value AWAIT_HR_APPROVAL))"
    unfolding await_hr_approval_def st here by (intro rules)
  moreover have "establishes ?T (revoke_access svc intr st) (done_row rid (step_value REVOKE_ACCESS))"
    unfolding revoke_access_def st here by (intro rules)
  moreover have "establishes ?T (send_exit_paperwork svc intr st) (done_row rid (step_value SEND_EXIT_PAPERWORK))"
    unfolding send_exit_paperwork_def st here by (intro rules)
  moreover have "establishes ?T (await_signed_document svc intr st) (done_row rid (step_value AWAIT_SIGNED_DOCUMENT))"
    unfolding await_signed_document_def st here by (intro rules)
  moreover have "establishes ?T (finalize svc intr st) (done_row rid (step_value FINALIZE))"
    unfolding finalize_def st here by (intro rules)
  ultimately show ?thesis using node by (auto simp: WORKFLOW_def simp del: step_value.simps)
qed

end
