(* ===== verification/Request_Parts.thy ===== *)
theory Request_Parts
  imports Run_Service
begin

text \<open>
  Each operation of the run service cut into its atomic parts: a read, one transaction, one
  invocation of the graph.  Run alone, the parts are the operation; a process that dies leaves what
  the first of them did.  \<open>happens\<close> is what can happen to a database, one request at a time.
\<close>

section \<open>The parts of a request\<close>

text \<open>What a request holds between two parts: the row it last read, the outcome of the graph.\<close>

datatype phase =
    Fresh
  | Decided run
  | Flagging run
  | Claimed run
  | Invoked run "exc + invoke_result"
  | Recorded run
  | Returned "exc + run"

fun first_part :: "request \<Rightarrow> ('c, phase) serviced" where
  "first_part (Start emp msteps mcalls) = mbind (on_db (runs_create emp None msteps mcalls)) (\<lambda>r. ret (Decided r))"
| "first_part (Approve rid approver nte) =
     mbind (on_db (runs_get rid)) (\<lambda>r. mseq (lift_sum (require_paused_for r HR_APPROVAL)) (ret (Decided r)))"
| "first_part (Reject rid approver nte) =
     mbind (on_db (runs_get rid)) (\<lambda>r. mseq (lift_sum (require_paused_for r HR_APPROVAL)) (ret (Decided r)))"
| "first_part (Sign rid doc signed) =
     mbind (on_db (runs_get rid)) (\<lambda>r. mseq (lift_sum (require_paused_for r SIGNED_DOCUMENT)) (ret (Decided r)))"
| "first_part (ResumeRun rid) =
     mbind (on_db (runs_get rid)) (\<lambda>r. if status r \<noteq> RRunning then raise (not_running r) else ret (Claimed r))"
| "first_part (Cancel rid) =
     mbind (on_db (runs_get rid)) (\<lambda>r. if run_is_terminal r then raise (already_over r)
       else if status r \<in> {RPending, RPaused} then ret (Decided r) else ret (Flagging r))"

text \<open>What the graph is invoked with, for the requests that invoke it.\<close>

fun graph_input_of :: "services \<Rightarrow> request \<Rightarrow> run \<Rightarrow> graph_input py" where
  "graph_input_of svc (Start emp msteps mcalls) r =
     ret (Input [(''run_id'', PStr (run_id r)), (''employee_id'', PStr emp), (''events'', PList [])])"
| "graph_input_of svc (Approve rid approver nte) r =
     ret (Resume (PDict [(''approved'', PBool True), (''approver'', PStr approver), (''note'', opt_val nte)]))"
| "graph_input_of svc (Reject rid approver nte) r =
     ret (Resume (PDict [(''approved'', PBool False), (''approver'', PStr approver), (''note'', opt_val nte)]))"
| "graph_input_of svc (Sign rid doc signed) r =
     mbind (signing_time svc signed) (\<lambda>time. ret (Resume (PDict [(''document_id'', PStr doc), (''signed_at'', PStr time)])))"
| "graph_input_of svc (ResumeRun rid) r = ret Continue"
| "graph_input_of svc (Cancel rid) r = ret Continue"

text \<open>The rest of \<open>_advance\<close> once the graph has returned or raised.\<close>

definition record_outcome :: "run \<Rightarrow> exc + invoke_result \<Rightarrow> unit py" where
  "record_outcome r out = (case out of
     Inl e \<Rightarrow>
       if is_instance e RunCancelled then mseq (set_status (run_id r) RCancelled None None None) (ret ())
       else (case failure_for e of Some reason \<Rightarrow> fail_run r reason e | None \<Rightarrow> raise e)
   | Inr res \<Rightarrow> (case res_interrupts res of
       first # _ \<Rightarrow> mbind (lift_sum (requested_pause first)) (\<lambda>reason.
         mseq (set_status (run_id r) RPaused (Some reason) None None) (ret ()))
     | [] \<Rightarrow> mseq (set_status (run_id r) RCompleted None None None) (ret ())))"

definition invocation :: "'c langgraph \<Rightarrow> services \<Rightarrow> run \<Rightarrow> graph_input \<Rightarrow> ('c, phase) serviced" where
  "invocation lg svc r inp = (\<lambda>s. case lg_invoke lg (build_graph svc) inp (thread_id r) s of (out, s') \<Rightarrow> (Inr (Invoked r out), s'))"

text \<open>The parts on the database, and with the invocation of the graph all parts.\<close>

fun service_part :: "request \<Rightarrow> phase \<Rightarrow> ('c, phase) serviced" where
  "service_part req Fresh = first_part req"
| "service_part req (Decided r) = (case req of
     Cancel rid \<Rightarrow> mbind (on_db (set_status (run_id r) RCancelled None None None)) (\<lambda>r. ret (Returned (Inr r)))
   | _ \<Rightarrow> mbind (on_db (set_status (run_id r) RRunning None None None)) (\<lambda>r. ret (Claimed r)))"
| "service_part req (Flagging r) = mbind (on_db (request_cancel (run_id r))) (\<lambda>r. ret (Returned (Inr r)))"
| "service_part req (Claimed r) = ret (Claimed r)"
| "service_part req (Invoked r out) = mseq (on_db (record_outcome r out)) (ret (Recorded r))"
| "service_part req (Recorded r) = mbind (on_db (runs_get (run_id r))) (\<lambda>r. ret (Returned (Inr r)))"
| "service_part req (Returned res) = ret (Returned res)"

fun next_part :: "'c langgraph \<Rightarrow> services \<Rightarrow> request \<Rightarrow> phase \<Rightarrow> ('c, phase) serviced" where
  "next_part lg svc req (Claimed r) = mbind (on_db (graph_input_of svc req r)) (invocation lg svc r)"
| "next_part lg svc req ph = service_part req ph"

lemmas part_simps = next_part.simps service_part.simps

text \<open>An exception of any part is what the request returns.\<close>

definition micro :: "'c langgraph \<Rightarrow> services \<Rightarrow> request \<Rightarrow> phase \<Rightarrow> world \<times> 'c \<Rightarrow> phase \<times> (world \<times> 'c)" where
  "micro lg svc req ph s = (case next_part lg svc req ph s of
     (r, s') \<Rightarrow> (case r of Inl e \<Rightarrow> (Returned (Inl e), s') | Inr ph' \<Rightarrow> (ph', s')))"

fun alone :: "nat \<Rightarrow> 'c langgraph \<Rightarrow> services \<Rightarrow> request \<Rightarrow> phase \<Rightarrow> world \<times> 'c \<Rightarrow> phase \<times> (world \<times> 'c)" where
  "alone 0 lg svc req ph s = (ph, s)"
| "alone (Suc n) lg svc req ph s = (case micro lg svc req ph s of (ph', s') \<Rightarrow> alone n lg svc req ph' s')"

lemma advance_parts: "advance lg svc r inp s =
    (case lg_invoke lg (build_graph svc) inp (thread_id r) s of (out, s') \<Rightarrow> on_db (record_outcome r out) s')"
  by (auto simp: advance_def mtry_apply record_outcome_def on_db_def mbind_apply split: prod.splits sum.splits option.splits list.splits)

text \<open>\<open>becomes n ph m\<close>: from phase \<open>ph\<close>, \<open>n\<close> parts or more are the operation \<open>m\<close>.\<close>

definition becomes :: "'c langgraph \<Rightarrow> services \<Rightarrow> request \<Rightarrow> nat \<Rightarrow> phase \<Rightarrow> ('c, run) serviced \<Rightarrow> bool" where
  "becomes lg svc req n ph m \<longleftrightarrow> (\<forall>k s. n \<le> k \<longrightarrow> alone k lg svc req ph s = (Returned (fst (m s)), snd (m s)))"

lemma becomesD: "becomes lg svc req n ph m \<Longrightarrow> n \<le> k \<Longrightarrow> alone k lg svc req ph s = (Returned (fst (m s)), snd (m s))"
  unfolding becomes_def by blast

lemma alone_Returned [simp]: "alone n lg svc req (Returned r) s = (Returned r, s)"
  by (induction n) (simp_all add: micro_def)

lemma becomes_Returned: "becomes lg svc req 0 (Returned (Inr r)) (ret r)"
  by (simp add: becomes_def)

lemma becomes_part:
  assumes "next_part lg svc req ph = mbind p (\<lambda>a. ret (f a))" and "\<And>a. becomes lg svc req n (f a) (g a)"
  shows "becomes lg svc req (Suc n) ph (mbind p g)"
  unfolding becomes_def
proof (intro allI impI)
  fix k s assume "Suc n \<le> k"
  then obtain j where j: "k = Suc j" "n \<le> j" by (cases k) auto
  obtain r s' where p: "p s = (r, s')" by (metis surj_pair)
  show "alone k lg svc req ph s = (Returned (fst (mbind p g s)), snd (mbind p g s))"
    using becomesD [OF assms(2) j(2)] j(1) p by (cases r) (simp_all add: micro_def assms(1) mbind_apply)
qed

lemma mbind_assoc: "mbind (mbind m k) h = mbind m (\<lambda>a. mbind (k a) h)"
  by (auto simp: mbind_def fun_eq_iff split: prod.splits sum.splits)

lemma mbind_ret [simp]: "mbind (ret a) k = k a" "mbind (raise e) h = raise e" "mbind m ret = m"
  by (auto simp: mbind_def ret_def raise_def fun_eq_iff split: prod.splits sum.splits)

lemmas monad_laws = mbind_assoc mseq_def

lemma becomes_recorded: "becomes lg svc req 1 (Recorded r) (on_db (runs_get (run_id r)))"
  using becomes_part [of lg svc req "Recorded r" "on_db (runs_get (run_id r))" "\<lambda>r. Returned (Inr r)" 0 ret, OF _ becomes_Returned]
  by simp

lemma becomes_claimed:
  "becomes lg svc req 3 (Claimed r)
     (mbind (on_db (graph_input_of svc req r)) (\<lambda>inp. mseq (advance lg svc r inp) (on_db (runs_get (run_id r)))))"
proof -
  have invoked: "becomes lg svc req 2 (Invoked r out) (mbind (on_db (record_outcome r out)) (\<lambda>_. on_db (runs_get (run_id r))))" for out
    using becomes_part [of lg svc req "Invoked r out" "on_db (record_outcome r out)" "\<lambda>_. Recorded r" 1, OF _ becomes_recorded]
    by (simp add: mseq_def numeral_2_eq_2)
  define call where "call = (\<lambda>inp s. case lg_invoke lg (build_graph svc) inp (thread_id r) s of (out, s') \<Rightarrow> (Inr out :: exc + _, s'))"
  have split: "invocation lg svc r = (\<lambda>inp. mbind (call inp) (\<lambda>out. ret (Invoked r out)))"
    by (auto simp: call_def invocation_def mbind_apply fun_eq_iff split: prod.splits)
  have joined: "mbind (call inp) (\<lambda>out. mbind (on_db (record_outcome r out)) k) = mbind (advance lg svc r inp) k" for inp k
    by (auto simp: call_def mbind_apply advance_parts fun_eq_iff split: prod.splits)
  have "becomes lg svc req (Suc 2) (Claimed r)
      (mbind (mbind (on_db (graph_input_of svc req r)) call) (\<lambda>out. mbind (on_db (record_outcome r out)) (\<lambda>_. on_db (runs_get (run_id r)))))"
    by (rule becomes_part [where f = "Invoked r"]) (simp_all only: part_simps split mbind_assoc invoked)
  then show ?thesis by (simp only: mbind_assoc joined mseq_def numeral_3_eq_3 numeral_2_eq_2)
qed

lemma becomes_decided:
  assumes "\<And>rid. req \<noteq> Cancel rid"
  shows "becomes lg svc req 4 (Decided r) (mbind (on_db (set_status (run_id r) RRunning None None None)) (\<lambda>r.
     mbind (on_db (graph_input_of svc req r)) (\<lambda>inp. mseq (advance lg svc r inp) (on_db (runs_get (run_id r))))))"
proof -
  have "becomes lg svc req (Suc 3) (Decided r) (mbind (on_db (set_status (run_id r) RRunning None None None)) (\<lambda>r.
     mbind (on_db (graph_input_of svc req r)) (\<lambda>inp. mseq (advance lg svc r inp) (on_db (runs_get (run_id r))))))"
  proof (rule becomes_part)
    show "next_part lg svc req (Decided r) = mbind (on_db (set_status (run_id r) RRunning None None None)) (\<lambda>r. ret (Claimed r))"
      using assms by (cases req) auto
  qed (rule becomes_claimed)
  then show ?thesis by (simp add: eval_nat_numeral)
qed

lemma becomes_cancelled:
  "becomes lg svc (Cancel rid) 1 (Decided r) (on_db (set_status (run_id r) RCancelled None None None))"
  "becomes lg svc (Cancel rid) 1 (Flagging r) (on_db (request_cancel (run_id r)))"
  using becomes_part [of lg svc "Cancel rid" "Decided r" "on_db (set_status (run_id r) RCancelled None None None)" "\<lambda>r. Returned (Inr r)" 0 ret,
      OF _ becomes_Returned]
    becomes_part [of lg svc "Cancel rid" "Flagging r" "on_db (request_cancel (run_id r))" "\<lambda>r. Returned (Inr r)" 0 ret, OF _ becomes_Returned]
  by simp_all

lemma becomes_mono: "becomes lg svc req n ph m \<Longrightarrow> n \<le> n' \<Longrightarrow> becomes lg svc req n' ph m"
  by (simp add: becomes_def)

lemma on_db_ret [simp]: "on_db (ret a) = ret a"
  by (simp add: on_db_def ret_def fun_eq_iff)

lemma on_db_mbind: "on_db (mbind m k) = mbind (on_db m) (\<lambda>a. on_db (k a))"
  by (auto simp: on_db_def mbind_def fun_eq_iff split: prod.splits sum.splits)

text \<open>A request that decides, claims the run and drives the graph, over its first part.\<close>

definition driving :: "'c langgraph \<Rightarrow> services \<Rightarrow> request \<Rightarrow> run \<Rightarrow> ('c, run) serviced" where
  "driving lg svc req r = mbind (on_db (set_status (run_id r) RRunning None None None)) (\<lambda>r.
     mbind (on_db (graph_input_of svc req r)) (\<lambda>inp. mseq (advance lg svc r inp) (on_db (runs_get (run_id r)))))"

lemma becomes_driving:
  assumes "\<And>rid. req \<noteq> Cancel rid" and "first_part req = mbind p (\<lambda>r. ret (Decided r))" and "m = mbind p (driving lg svc req)"
  shows "becomes lg svc req 5 Fresh m"
proof -
  have "becomes lg svc req (Suc 4) Fresh (mbind p (driving lg svc req))"
    using assms(1,2) by (intro becomes_part [where f = Decided]) (simp_all add: driving_def becomes_decided)
  then show ?thesis by (simp add: assms(3) eval_nat_numeral)
qed

abbreviation checked :: "string \<Rightarrow> pause_reason \<Rightarrow> ('c, run) serviced" where
  "checked rid reason \<equiv> mbind (on_db (runs_get rid)) (\<lambda>r. mbind (lift_sum (require_paused_for r reason)) (\<lambda>_. ret r))"

lemma becomes_served: "becomes lg svc req 5 Fresh (serve lg svc req)"
proof (cases req)
  case (Start emp ms mc)
  show ?thesis unfolding Start
    by (rule becomes_driving [where p = "on_db (runs_create emp None ms mc)"])
      (simp_all add: start_run_def driving_def [abs_def] mseq_def)
next
  case (Approve rid who nte)
  show ?thesis unfolding Approve
    by (rule becomes_driving [where p = "checked rid HR_APPROVAL"])
      (simp_all only: request.distinct not_False_eq_True first_part.simps serve.simps approve_def resolve_approval_def
         driving_def [abs_def] graph_input_of.simps mseq_def mbind_assoc mbind_ret on_db_ret)
next
  case (Reject rid who nte)
  show ?thesis unfolding Reject
    by (rule becomes_driving [where p = "checked rid HR_APPROVAL"])
      (simp_all only: request.distinct not_False_eq_True first_part.simps serve.simps reject_def resolve_approval_def
         driving_def [abs_def] graph_input_of.simps mseq_def mbind_assoc mbind_ret on_db_ret)
next
  case (Sign rid doc signed)
  show ?thesis unfolding Sign
    by (rule becomes_driving [where p = "checked rid SIGNED_DOCUMENT"])
      (simp_all only: request.distinct not_False_eq_True first_part.simps serve.simps submit_signed_document_def
         driving_def [abs_def] graph_input_of.simps mseq_def mbind_assoc mbind_ret on_db_ret on_db_mbind)
next
  case (ResumeRun rid)
  let ?p = "mbind (on_db (runs_get rid)) (\<lambda>r. if status r \<noteq> RRunning then raise (not_running r) else ret r)"
  let ?k = "\<lambda>r. mbind (on_db (graph_input_of svc (ResumeRun rid) r)) (\<lambda>inp. mseq (advance lg svc r inp) (on_db (runs_get (run_id r))))"
  have first: "(\<lambda>r. if status r \<noteq> RRunning then raise (not_running r) else ret (Claimed r)) =
      (\<lambda>r. mbind (if status r \<noteq> RRunning then raise (not_running r) else ret r) (\<lambda>r. ret (Claimed r)))"
    and whole: "(\<lambda>r. if status r \<noteq> RRunning then raise (not_running r) else mseq (advance lg svc r Continue) (on_db (runs_get (run_id r)))) =
      (\<lambda>r. mbind (if status r \<noteq> RRunning then raise (not_running r) else ret r) ?k)"
    by (rule ext, simp del: ret_apply)+
  have "becomes lg svc (ResumeRun rid) (Suc 3) Fresh (mbind ?p ?k)"
    by (rule becomes_part [where f = Claimed]) (simp_all only: part_simps first_part.simps first mbind_assoc becomes_claimed)
  moreover have "serve lg svc (ResumeRun rid) = mbind ?p ?k" by (simp only: serve.simps resume_run_def whole mbind_assoc)
  ultimately show ?thesis using ResumeRun becomes_mono [of lg svc req "Suc 3" Fresh _ 5] by simp
next
  case (Cancel rid)
  let ?p = "mbind (on_db (runs_get rid)) (\<lambda>r. if run_is_terminal r then raise (already_over r) else ret r)"
  let ?f = "\<lambda>r. if status r \<in> {RPending, RPaused} then Decided r else Flagging r"
  let ?g = "\<lambda>r. if status r \<in> {RPending, RPaused} then on_db (set_status (run_id r) RCancelled None None None)
      else on_db (request_cancel (run_id r))"
  have first: "(\<lambda>r. if run_is_terminal r then raise (already_over r)
        else if status r \<in> {RPending, RPaused} then ret (Decided r) else ret (Flagging r)) =
      (\<lambda>r. mbind (if run_is_terminal r then raise (already_over r) else ret r) (\<lambda>r. ret (?f r)))"
    and whole: "(\<lambda>r. if run_is_terminal r then raise (already_over r)
        else if status r \<in> {RPending, RPaused} then on_db (set_status (run_id r) RCancelled None None None)
        else on_db (request_cancel (run_id r))) =
      (\<lambda>r. mbind (if run_is_terminal r then raise (already_over r) else ret r) ?g)"
    by (rule ext, simp del: ret_apply)+
  have "becomes lg svc (Cancel rid) (Suc 1) Fresh (mbind ?p ?g)"
  proof (rule becomes_part [where f = ?f])
    show "becomes lg svc (Cancel rid) 1 (?f r) (?g r)" for r by (simp add: becomes_cancelled [simplified])
  qed (simp only: part_simps first_part.simps first mbind_assoc)
  moreover have "serve lg svc (Cancel rid) = mbind ?p ?g" by (simp only: serve.simps cancel_run_def whole mbind_assoc)
  ultimately show ?thesis using Cancel becomes_mono [of lg svc req "Suc 1" Fresh _ 5] by simp
qed

text \<open>
  The parts are the program: a request whose parts follow each other without another's in
  between does exactly what the operation of the run service does, returns what it returns and
  leaves the state it leaves.
\<close>

theorem parts_make_the_request:
  "alone 5 lg svc req Fresh s = (Returned (fst (serve lg svc req s)), snd (serve lg svc req s))"
  using becomes_served by (rule becomesD) simp

section \<open>What can happen to a database\<close>

text \<open>
  A request is served, to its end or its exception; or the process dies after some of its parts, the
  transactions committed so far standing; or it is replaced by one with other fault settings.  With an
  engine that may be killed before any node or between a node and its checkpoint (\<open>drives.died\<close>,
  \<open>drives.lost\<close>) this includes processes dying inside the graph; a death between the provider's effect
  and the ledger's record of it is \<open>iam.py\<close>'s \<open>SimulatedProcessDeath\<close>.
\<close>

inductive happens :: "'c langgraph \<Rightarrow> services \<Rightarrow> world \<times> 'c \<Rightarrow> world \<times> 'c \<Rightarrow> bool" for lg svc where
  serving: "serve lg svc req s = (r, s') \<Longrightarrow> happens lg svc s s'"
| killing: "alone n lg svc req Fresh s = (ph, s') \<Longrightarrow> happens lg svc s s'"
| restarting: "happens lg svc (w, c) (w\<lparr>iam := faults, paperwork_failures := n\<rparr>, c)"

inductive reachable :: "'c langgraph \<Rightarrow> services \<Rightarrow> 'c \<Rightarrow> world \<times> 'c \<Rightarrow> bool" for lg svc c0 where
  new_database: "reachable lg svc c0 (empty_world clk ids, c0)"
| happened: "reachable lg svc c0 s \<Longrightarrow> happens lg svc s s' \<Longrightarrow> reachable lg svc c0 s'"

lemmas served = happened [OF _ serving]
lemmas killed = happened [OF _ killing]
lemmas restarted = happened [OF _ restarting]

lemma play_reachable: "reachable lg svc c0 s \<Longrightarrow> reachable lg svc c0 (snd (play lg svc es s))"
proof (induction lg svc es s rule: play.induct)
  case (2 lg svc req es s)
  obtain r s' where run: "serve lg svc req s = (r, s')" by (meson surj_pair)
  then show ?case using 2 served [OF 2(2) run] by (simp add: case_prod_beta)
qed (simp_all add: restarted)

text \<open>A request that is served is one that is killed after its last part.\<close>

lemma happens_cases:
  assumes "happens lg svc s s'"
  obtains (parts) n req ph where "alone n lg svc req Fresh s = (ph, s')"
  | (restart) w c faults n where "s = (w, c)" "s' = (w\<lparr>iam := faults, paperwork_failures := n\<rparr>, c)"
  using assms
proof cases
  case (serving req r)
  then have "alone 5 lg svc req Fresh s = (Returned r, s')" by (simp add: parts_make_the_request)
  then show ?thesis by (rule parts)
next
  case (killing n req ph)
  then show ?thesis by (intro parts)
next
  case (restarting w c faults n)
  then show ?thesis by (intro restart)
qed

end
