(* ===== verification/Service_Invariant.thy ===== *)
theory Service_Invariant
  imports Step_Evidence Request_Parts
begin

text \<open>
  The invariant of the service over the database and the engine's checkpoints, and its
  preservation: by a drive of the graph, by one invocation of the engine, by every atomic part of a
  request, so by every request, served to its end or killed after any of its parts.
  \<open>reachable_inv\<close> gives it for every state that requests, deaths and restarts can reach.
\<close>

section \<open>Driving the graph\<close>

definition after_gate :: "string set" where
  "after_gate = {step_value REVOKE_ACCESS, step_value SEND_EXIT_PAPERWORK, step_value AWAIT_SIGNED_DOCUMENT,
     step_value FINALIZE, END}"

definition gate_kept :: "world \<Rightarrow> bool" where
  "gate_kept w \<longleftrightarrow> (\<forall>rid. lookup_provider w ''iam'' (revoke_key rid) \<noteq> None \<longrightarrow> approved_row rid w)"

text \<open>What is known of a thread of run \<open>rid\<close> about to enter node \<open>s\<close> with state \<open>v\<close>.\<close>

definition steps_before :: "string \<Rightarrow> string set" where
  "steps_before s = set (takeWhile (\<lambda>x. x \<noteq> s) (map (\<lambda>(s, fn). step_value s) WORKFLOW))"

definition on_track :: "string \<Rightarrow> string \<Rightarrow> ostate \<Rightarrow> world \<Rightarrow> bool" where
  "on_track rid s v w \<longleftrightarrow> state_run_id v = Inr rid \<and> (s \<in> after_gate \<longrightarrow> approved_row rid w)
     \<and> (\<forall>x \<in> steps_before s. done_row rid x w)"

lemma steps_before_simps [simp]:
  "steps_before (step_value FETCH_EMPLOYEE) = {}"
  "steps_before END = step_value ` set (map fst WORKFLOW)"
  by (auto simp: steps_before_def WORKFLOW_def END_def)

lemma steps_before_next:
  "map_of (g_edges (build_graph svc)) (step_value sn) = Some t \<Longrightarrow> steps_before t = insert (step_value sn) (steps_before (step_value sn))"
  by (cases sn) (auto simp: steps_before_def WORKFLOW_def END_def build_graph_def START_def)

lemma on_track_mono: "on_track rid s v w \<Longrightarrow> trace_extends w w' \<Longrightarrow> on_track rid s v w'"
  using lasting_rows(1) approved_row_extends by (auto simp: on_track_def lasting_def)

lemma node_keeps_gate:
  assumes svc: "app_services svc" and node: "(s, fn) \<in> set WORKFLOW" and run: "fn svc intr v w = (res, w1)"
    and wf: "trace_wf w" and gate: "gate_kept w" and track: "on_track rid (step_value s) v w"
  shows "trace_wf w1" "gate_kept w1" "safe_step w w1" "lifecycle_kept w w1"
    and "res = Inr upd \<Longrightarrow> map_of (g_edges (build_graph svc)) (step_value s) = Some t \<Longrightarrow>
      on_track rid t (merge_state v upd) w1"
    and "on_track rid (step_value s) v w1"
proof -
  have rid: "state_run_id v = Inr rid" using track by (simp add: on_track_def)
  show safe: "safe_step w w1"
    using guarD' [OF workflow_safe [OF app_services_safe [OF svc] node] run] .
  then show "trace_wf w1" using wf by (rule safe_stepD)
  have ext: "trace_extends w w1" using safe_stepD(3) [OF safe wf] .
  have keep: "approved_row x w1" if "approved_row x w" for x using approved_row_extends [OF ext that] .
  note lane = node_lane [OF svc node run]
  show "lifecycle_kept w w1" using lane by simp
  show "gate_kept w1"
    unfolding gate_kept_def
  proof (intro allI impI)
    fix x assume eff: "lookup_provider w1 ''iam'' (revoke_key x) \<noteq> None"
    show "approved_row x w1"
    proof (cases "s = REVOKE_ACCESS \<and> x = rid")
      case True
      then have "approved_row rid w" using track by (simp add: on_track_def after_gate_def)
      with keep True show ?thesis by simp
    next
      case False
      then have "lookup_provider w ''iam'' (revoke_key x) \<noteq> None"
        using lane rid eff by (auto simp: iam_only_def iam_untouched_def split: if_splits)
      then show ?thesis using gate keep by (simp add: gate_kept_def)
    qed
  qed
  show "on_track rid (step_value s) v w1" using on_track_mono [OF track ext] .
  show "on_track rid t (merge_state v upd) w1"
    if res: "res = Inr upd" and edge: "map_of (g_edges (build_graph svc)) (step_value s) = Some t"
  proof -
    have "state_run_id (merge_state v upd) = Inr rid"
      using state_run_id_merge [OF rid node_update [OF node run [unfolded res]]] .
    moreover have "approved_row rid w1" if "t \<in> after_gate"
    proof (cases "s = AWAIT_HR_APPROVAL")
      case True
      then have "fn = await_hr_approval" using node by (auto simp: WORKFLOW_def)
      then show ?thesis using gate_completes [OF wf rid] run res by simp
    next
      case False
      have "step_value s \<in> after_gate"
        using that edge node False by (auto simp: WORKFLOW_def after_gate_def END_def build_graph_def chain_edges.simps START_def)
      then show ?thesis using track keep by (simp add: on_track_def)
    qed
    moreover have "done_row rid x w1" if "x \<in> steps_before t" for x
    proof (cases "x = step_value s")
      case True
      then show ?thesis
        using node_leaves_evidence [OF app_services_safe [OF svc] node rid] run res wf unfolding establishes_def by blast
    next
      case False
      then have "done_row rid x w" using that steps_before_next [OF edge] track by (simp add: on_track_def)
      then show ?thesis using ext lasting_rows(1) unfolding lasting_def by blast
    qed
    ultimately show ?thesis by (simp add: on_track_def)
  qed
qed

text \<open>How a drive may end, and where it leaves the thread.\<close>

definition ends_well :: "outcome \<Rightarrow> string \<Rightarrow> bool" where
  "ends_well out s \<longleftrightarrow> (case out of
     Finished v \<Rightarrow> s = END
   | Interrupted p v \<Rightarrow> (\<exists>reason. requested_pause p = Inr reason \<and> s = step_value (gate_of reason))
   | Raised e \<Rightarrow> \<exists>sn. s = step_value sn)"

lemma drives_on_track:
  assumes svc: "app_services svc"
  shows "drives (build_graph svc) s r v w out ck w' \<Longrightarrow> trace_wf w \<Longrightarrow> gate_kept w \<Longrightarrow> on_track rid s v w \<Longrightarrow>
    gate_kept w' \<and> safe_step w w' \<and> lifecycle_kept w w' \<and> on_track rid (ck_next ck) (ck_values ck) w'
    \<and> ends_well out (ck_next ck)"
proof (induction rule: drives.induct)
  case (finish r v w)
  then show ?case by (simp add: safety.rel_refl lifecycle_steps.rel_refl ends_well_def)
next
  case (step s n r v w upd w1 t out ck w2)
  obtain sn fn where node: "(sn, fn) \<in> set WORKFLOW" "s = step_value sn" "n = fn svc"
    by (rule build_graph_nodes [OF step(1)])
  note keeps = node_keeps_gate [OF svc node(1) step(2) [unfolded node(3)] step.prems(1,2) step.prems(3) [unfolded node(2)]]
  have "on_track rid t (merge_state v upd) w1" using keeps(5) step(3) node(2) by simp
  with step.IH keeps(1,2) have "gate_kept w2 \<and> safe_step w1 w2 \<and> lifecycle_kept w1 w2
      \<and> on_track rid (ck_next ck) (ck_values ck) w2 \<and> ends_well out (ck_next ck)"
    by blast
  with keeps(3,4) show ?case by (blast intro: safety.rel_trans lifecycle_steps.rel_trans)
next
  case (pause s n r v w p w1)
  obtain sn fn where node: "(sn, fn) \<in> set WORKFLOW" "s = step_value sn" "n = fn svc"
    by (rule build_graph_nodes [OF pause(1)])
  note keeps = node_keeps_gate [OF svc node(1) pause(2) [unfolded node(3)] pause.prems(1,2) pause.prems(3) [unfolded node(2)]]
  have "\<exists>reason. requested_pause p = Inr reason \<and> sn = gate_of reason"
    using node_raises [OF svc node(1) pause(2) [unfolded node(3)]] by (auto simp: ordinary_def)
  with keeps(2-4,6) node(2) show ?case by (auto simp: ends_well_def)
next
  case (raised s n r v w c m w1 kept)
  obtain sn fn where node: "(sn, fn) \<in> set WORKFLOW" "s = step_value sn" "n = fn svc"
    by (rule build_graph_nodes [OF raised(1)])
  note keeps = node_keeps_gate [OF svc node(1) raised(2) [unfolded node(3)] raised.prems(1,2) raised.prems(3) [unfolded node(2)]]
  then show ?case using node(2) by (auto simp: ends_well_def)
next
  case (died s n kept r v w m)
  obtain sn fn where "(sn, fn) \<in> set WORKFLOW" "s = step_value sn" "n = fn svc"
    by (rule build_graph_nodes [OF died(1)])
  then show ?case
    using died by (auto simp: ends_well_def safety.rel_refl lifecycle_steps.rel_refl)
next
  case (lost s n r v w res w1 kept m)
  obtain sn fn where node: "(sn, fn) \<in> set WORKFLOW" "s = step_value sn" "n = fn svc"
    by (rule build_graph_nodes [OF lost(1)])
  note keeps = node_keeps_gate [OF svc node(1) lost(2) [unfolded node(3)] lost.prems(1,2) lost.prems(3) [unfolded node(2)]]
  then show ?case using node(2) by (auto simp: ends_well_def)
qed

section \<open>The service invariant\<close>

text \<open>
  The run's row and the engine's checkpoint of its thread agree: a run that does not exist or is
  PENDING has no thread, a paused run waits at the gate of its pause reason, a completed one is at the
  end.  A RUNNING run that a dead process left behind may have no thread yet, or one at any node or at
  the end.  Wherever a thread is, what lies behind it is on record.
\<close>

definition in_place :: "string \<Rightarrow> checkpoint \<Rightarrow> world \<Rightarrow> bool" where
  "in_place rid ck w \<longleftrightarrow> on_graph (ck_next ck) \<and> on_track rid (ck_next ck) (ck_values ck) w"

lemma in_place_mono: "in_place rid ck w \<Longrightarrow> trace_extends w w' \<Longrightarrow> in_place rid ck w'"
  using on_track_mono by (auto simp: in_place_def)

definition thread_ok :: "'c langgraph \<Rightarrow> world \<Rightarrow> 'c \<Rightarrow> string \<Rightarrow> bool" where
  "thread_ok lg w c rid \<longleftrightarrow> (case lookup_run w rid of
     None \<Rightarrow> lg_view lg c (thread_of rid) = None
   | Some r \<Rightarrow>
       (status r = RPending \<longrightarrow> lg_view lg c (thread_of rid) = None)
     \<and> (status r = RPaused \<longrightarrow> (\<exists>ck reason. lg_view lg c (thread_of rid) = Some ck \<and> pause_reason r = Some reason
          \<and> ck_next ck = step_value (gate_of reason)))
     \<and> (status r = RCompleted \<longrightarrow> (\<exists>ck. lg_view lg c (thread_of rid) = Some ck \<and> ck_next ck = END))
     \<and> (\<forall>ck. lg_view lg c (thread_of rid) = Some ck \<longrightarrow> in_place rid ck w))"

definition service_inv :: "'c langgraph \<Rightarrow> world \<times> 'c \<Rightarrow> bool" where
  "service_inv lg s \<longleftrightarrow> (case s of (w, c) \<Rightarrow> db_inv w \<and> gate_kept w \<and> (\<forall>rid. thread_ok lg w c rid))"

lemma service_invI: "db_inv w \<Longrightarrow> gate_kept w \<Longrightarrow> (\<And>x. thread_ok lg w c x) \<Longrightarrow> service_inv lg (w, c)"
  unfolding service_inv_def prod.case by blast

lemma service_invD:
  assumes "service_inv lg (w, c)"
  shows "db_inv w" "gate_kept w" "thread_ok lg w c x"
  using assms by (auto simp: service_inv_def)

lemma approved_row_same: "trace_tbl w' = trace_tbl w \<Longrightarrow> approved_row rid w' = approved_row rid w"
  by (simp add: approved_row_def)

text \<open>A run nobody touched keeps its thread in order.\<close>

lemma thread_ok_kept:
  assumes "thread_ok lg w c rid" and "map_option lifecycle (lookup_run w' rid) = map_option lifecycle (lookup_run w rid)"
    and "lg_view lg c' (thread_of rid) = lg_view lg c (thread_of rid)"
    and "trace_extends w w'"
  shows "thread_ok lg w' c' rid"
proof (cases "lookup_run w rid")
  case None
  with assms(1-3) show ?thesis by (simp add: thread_ok_def)
next
  case (Some r)
  then obtain r' where r': "lookup_run w' rid = Some r'" "lifecycle r' = lifecycle r"
    using assms(2) by (cases "lookup_run w' rid") auto
  then have "status r' = status r" "pause_reason r' = pause_reason r" by (simp_all add: lifecycle_def)
  with assms(1,3) Some r' show ?thesis
    using in_place_mono [OF _ assms(4)] by (auto simp: thread_ok_def)
qed

lemma set_status_allowed:
  assumes "lookup_run w rid = Some r" and "target \<in> ALLOWED_RUN_TRANSITIONS (status r)"
  obtains r' w' where "set_status rid target p f d w = (Inr r', w')" "lookup_run w' = (lookup_run w)(rid \<mapsto> r')"
    "only_runs w w'" "status r' = target" "pause_reason r' = p" "run_id r' = rid" "thread_id r' = thread_id r"
    "failure_reason r' = (if f = None then failure_reason r else f)"
    "failure_detail r' = (if d = None then failure_detail r else d)"
proof -
  let ?t = "clock w (clock_reads w)"
  let ?w' = "w\<lparr>clock_reads := Suc (clock_reads w),
      runs_tbl := tupdate run_id rid (write_status target p f d ?t) (runs_tbl w)\<rparr>"
  have "set_status rid target p f d w = (Inr (write_status target p f d ?t r), ?w')"
    using assms run_cycle.accepts by (simp add: set_status_eq Let_def)
  moreover have "lookup_run ?w' = (lookup_run w)(rid \<mapsto> write_status target p f d ?t r)"
    using assms(1) by (auto simp: lookup_run_def fun_eq_iff tfind_tupdate)
  moreover have "only_runs w ?w'" by (simp add: only_runs_def)
  ultimately show ?thesis
    using lookup_run_id [OF assms(1)]
    by (intro that [of "write_status target p f d ?t r" ?w']) (auto simp: coalesce_def split: option.splits)
qed

lemma only_runs_keeps:
  assumes "only_runs w w'"
  shows "approved_row x w' = approved_row x w" "gate_kept w' = gate_kept w" "trace_wf w' = trace_wf w" "trace_extends w w'"
  using assms trace_extends_same [of w' w] approved_row_same [of w' w] only_runs_trace(2) [OF assms]
  by (auto simp: only_runs_def gate_kept_def lookup_provider_def)

text \<open>Moving one run to a status that its checkpoint, if it has one, agrees with.\<close>

lemma service_inv_set_status:
  assumes inv: "service_inv lg (w, c)"
    and r: "lookup_run w rid = Some r" and move: "target \<in> ALLOWED_RUN_TRANSITIONS (status r)"
    and reasons: "p \<noteq> None \<longleftrightarrow> target = RPaused" "f \<noteq> None \<longleftrightarrow> target = RFailed"
    and paused: "\<And>reason. p = Some reason \<Longrightarrow>
      \<exists>ck. lg_view lg c (thread_of rid) = Some ck \<and> ck_next ck = step_value (gate_of reason)"
    and completed: "target = RCompleted \<Longrightarrow> \<exists>ck. lg_view lg c (thread_of rid) = Some ck \<and> ck_next ck = END"
  obtains r' w' where "set_status rid target p f d w = (Inr r', w')" "service_inv lg (w', c)"
    "lookup_run w' rid = Some r'" "status r' = target" "pause_reason r' = p" "run_id r' = rid" "thread_id r' = thread_id r"
    "failure_reason r' = (if f = None then failure_reason r else f)" "only_runs w w'"
    "lookup_run w' = (lookup_run w)(rid \<mapsto> r')" "safe_step w w'"
proof -
  from r move obtain r' w' where set: "set_status rid target p f d w = (Inr r', w')"
    "lookup_run w' = (lookup_run w)(rid \<mapsto> r')" "only_runs w w'" "status r' = target" "pause_reason r' = p"
    "run_id r' = rid" "thread_id r' = thread_id r" "failure_reason r' = (if f = None then failure_reason r else f)"
    by (rule set_status_allowed)
  have safe: "safe_step w w'" using guarD' [OF set_status_safe_step [OF reasons] set(1)] .
  note keeps = only_runs_keeps [OF set(3)]
  have "target \<noteq> RPending" using move by (cases "status r") auto
  then have "thread_ok lg w' c rid"
    using service_invD(3) [OF inv, of rid] r set(2,4,5) paused completed reasons(1) in_place_mono [OF _ keeps(4)]
    by (auto simp: thread_ok_def)
  moreover have "thread_ok lg w' c x" if "x \<noteq> rid" for x
    using service_invD(3) [OF inv, of x] set(2) keeps(4) that by (intro thread_ok_kept [of lg w c x w' c]) simp_all
  ultimately have "thread_ok lg w' c x" for x by (cases "x = rid") simp_all
  then have "service_inv lg (w', c)"
    using safe_stepD(5) [OF safe service_invD(1) [OF inv]] keeps(2) service_invD(2) [OF inv] by (intro service_invI) simp_all
  with set safe show ?thesis by (intro that) simp_all
qed

lemma request_cancel_keeps:
  assumes inv: "service_inv lg (w, c)" and run: "request_cancel rid w = (res, w')"
  shows "service_inv lg (w', c) \<and> safe_step w w'"
proof (cases "lookup_run w rid")
  case None
  then show ?thesis using inv run by (auto simp: request_cancel_eq safety.rel_refl)
next
  case (Some r)
  have safe: "safe_step w w'" using guarD' [OF request_cancel_safe_step run] .
  have only: "only_runs w w'" using guarD' [OF request_cancel_only_runs run] .
  have "lookup_run w' x = (if x = rid then Some (r\<lparr>cancel_requested := True, updated_at := clock w (clock_reads w)\<rparr>)
      else lookup_run w x)" for x
    using run Some by (auto simp: request_cancel_eq Let_def lookup_run_def tfind_tupdate)
  then have "thread_ok lg w' c x" for x
    using service_invD(3) [OF inv, of x] Some in_place_mono [OF _ only_runs_keeps(4) [OF only]]
    by (auto simp: thread_ok_def split: option.splits)
  then have "service_inv lg (w', c)"
    using safe_stepD(5) [OF safe service_invD(1) [OF inv]] only_runs_keeps(2) [OF only] service_invD(2) [OF inv]
    by (intro service_invI) simp_all
  then show ?thesis using safe by simp
qed

lemma service_inv_same:
  assumes "service_inv lg (w, c)" and "runs_tbl w' = runs_tbl w" "trace_tbl w' = trace_tbl w" "trace_seq w' = trace_seq w"
    "provider_tbl w' = provider_tbl w" "effects_tbl w' = effects_tbl w"
  shows "service_inv lg (w', c)" and "safe_step w w'"
proof -
  show safe: "safe_step w w'"
    using assms(2-5) refs_ok_same [OF assms(2,3,6,5)]
    by (intro tables_same_safe) (simp_all add: provider_keeps_def lookup_provider_def refs_kept_def)
  have "db_inv w'" using safe assms(1) by (auto simp: service_inv_def dest: safe_stepD(5))
  moreover have "gate_kept w'"
    using assms approved_row_same [OF assms(3)] by (simp add: service_inv_def gate_kept_def lookup_provider_def)
  moreover have "thread_ok lg w' c x" for x
    using assms(1,2) trace_extends_same [OF assms(3)]
    by (intro thread_ok_kept [of lg w c x w' c]) (simp_all add: service_inv_def lookup_run_def)
  then have "\<forall>x. thread_ok lg w' c x" by blast
  ultimately show "service_inv lg (w', c)" by (simp add: service_inv_def)
qed

lemma thread_id_of: "db_inv w \<Longrightarrow> lookup_run w rid = Some r \<Longrightarrow> thread_id r = thread_of rid"
  by (auto simp: db_inv_def runs_wf_def lookup_run_def dest: tfind_SomeD)

section \<open>One invocation\<close>

text \<open>An outcome of the graph and the checkpoint it leaves agree.\<close>

definition fits :: "'c langgraph \<Rightarrow> 'c \<Rightarrow> string \<Rightarrow> exc + invoke_result \<Rightarrow> bool" where
  "fits lg c rid out \<longleftrightarrow> (case out of
     Inl e \<Rightarrow> True
   | Inr res \<Rightarrow> (\<exists>ck. lg_view lg c (thread_of rid) = Some ck \<and> (case res_interrupts res of
         [] \<Rightarrow> ck_next ck = END
       | p # _ \<Rightarrow> (\<exists>reason. requested_pause p = Inr reason \<and> ck_next ck = step_value (gate_of reason)))))"

lemma ends_well_on_graph: "ends_well out s \<Longrightarrow> on_graph s"
  by (auto simp: ends_well_def on_graph_def split: outcome.splits)

lemma invocation_keeps:
  assumes svc: "app_services svc" and lg: "langgraph_ok lg (build_graph svc)" and inv: "service_inv lg (w, c)"
    and r: "lookup_run w rid = Some r0" "status r0 = RRunning"
    and start: "inp = Continue \<and> lg_view lg c (thread_of rid) = None
      \<or> (\<exists>s rv v. entry (build_graph svc) (lg_view lg c (thread_of rid)) inp = Some (s, rv, v) \<and> on_track rid s v w)"
    and run: "lg_invoke lg (build_graph svc) inp (thread_of rid) (w, c) = (out, (w1, c1))"
  shows "service_inv lg (w1, c1) \<and> safe_step w w1 \<and> fits lg c1 rid out \<and> (\<exists>r1. lookup_run w1 rid = Some r1 \<and> status r1 = RRunning)"
  using start
proof (elim disjE exE conjE)
  assume "inp = Continue" "lg_view lg c (thread_of rid) = None"
  then obtain m where m: "out = Inl (Exc LibraryError m)" "w1 = w" "\<And>u. lg_view lg c1 u = lg_view lg c u"
    using langgraph_ok_empty [OF lg] run by metis
  have "thread_ok lg w c1 x" for x
    using service_invD(3) [OF inv, of x] m(3) trace_extends_same [of w w] by (intro thread_ok_kept [of lg w c x w c1]) simp_all
  then have "service_inv lg (w1, c1)" unfolding m(2) by (rule service_invI [OF service_invD(1,2) [OF inv]])
  then show ?thesis using m r by (simp add: fits_def safety.rel_refl)
next
  fix s rv v
  assume entry: "entry (build_graph svc) (lg_view lg c (thread_of rid)) inp = Some (s, rv, v)" and track: "on_track rid s v w"
  obtain res ck where d: "drives (build_graph svc) s rv v w res ck w1" "out = deliver res"
    "lg_view lg c1 (thread_of rid) = Some ck" "\<And>u. u \<noteq> thread_of rid \<Longrightarrow> lg_view lg c1 u = lg_view lg c u"
    by (rule langgraph_okD [OF lg entry run]) blast
  have wf: "trace_wf w" using service_invD(1) [OF inv] by (simp add: db_inv_def)
  have ends: "gate_kept w1" "safe_step w w1" "lifecycle_kept w w1" "on_track rid (ck_next ck) (ck_values ck) w1"
      "ends_well res (ck_next ck)"
    using drives_on_track [OF svc d(1) wf service_invD(2) [OF inv] track] by simp_all
  have kept: "map_option lifecycle (lookup_run w1 x) = map_option lifecycle (lookup_run w x)" for x
    using ends(3) by (simp add: lifecycle_kept_def)
  obtain r1 where r1: "lookup_run w1 rid = Some r1" "status r1 = RRunning"
    using kept [of rid] r that by (cases "lookup_run w1 rid") (auto simp: lifecycle_def)
  have "thread_ok lg w1 c1 rid"
    using r1 d(3) ends(4) ends_well_on_graph [OF ends(5)] by (simp add: thread_ok_def in_place_def)
  moreover have "thread_ok lg w1 c1 x" if "x \<noteq> rid" for x
    using service_invD(3) [OF inv, of x] kept d(4) safe_stepD(3) [OF ends(2) wf] that
    by (intro thread_ok_kept [of lg w c x w1 c1]) simp_all
  ultimately have "thread_ok lg w1 c1 x" for x by (cases "x = rid") simp_all
  then have "service_inv lg (w1, c1)"
    using safe_stepD(5) [OF ends(2) service_invD(1) [OF inv]] ends(1) by (intro service_invI) simp_all
  moreover have "fits lg c1 rid out"
    using d(2,3) ends(5) by (auto simp: fits_def deliver_def ends_well_def split: outcome.splits)
  ultimately show ?thesis using ends(2) r1 by blast
qed

lemma record_keeps:
  assumes inv: "service_inv lg (w, c)" and r: "lookup_run w (run_id r) = Some r1" "status r1 = RRunning"
    and fit: "fits lg c (run_id r) out" and run: "record_outcome r out w = (res, w')"
  shows "service_inv lg (w', c) \<and> safe_step w w'"
proof -
  have put: "service_inv lg (w', c) \<and> safe_step w w'"
    if "set_status (run_id r) t p f d w = (rs, w')" and "t \<in> ALLOWED_RUN_TRANSITIONS RRunning"
      and "p \<noteq> None \<longleftrightarrow> t = RPaused" "f \<noteq> None \<longleftrightarrow> t = RFailed"
      and "\<And>reason. p = Some reason \<Longrightarrow> \<exists>ck. lg_view lg c (thread_of (run_id r)) = Some ck \<and> ck_next ck = step_value (gate_of reason)"
      and "t = RCompleted \<Longrightarrow> \<exists>ck. lg_view lg c (thread_of (run_id r)) = Some ck \<and> ck_next ck = END" for t p f d rs
  proof -
    have "t \<in> ALLOWED_RUN_TRANSITIONS (status r1)" using that(2) r(2) by simp
    from service_inv_set_status [OF inv r(1) this that(3-6)] that(1) show ?thesis by (metis Pair_inject)
  qed
  show ?thesis
  proof (cases out)
    case (Inr v)
    show ?thesis
    proof (cases "res_interrupts v")
      case Nil
      then show ?thesis using Inr run fit put [of RCompleted None None None]
        by (auto simp: record_outcome_def mseq_apply fits_def split: prod.splits sum.splits)
    next
      case (Cons p ps)
      then obtain reason where "requested_pause p = Inr reason"
          "\<exists>ck. lg_view lg c (thread_of (run_id r)) = Some ck \<and> ck_next ck = step_value (gate_of reason)"
        using Inr fit by (auto simp: fits_def)
      then show ?thesis using Inr Cons run put [of RPaused "Some reason" None None]
        by (auto simp: record_outcome_def mseq_apply split: prod.splits sum.splits)
    qed
  next
    case (Inl e)
    consider "is_instance e RunCancelled" | reason where "\<not> is_instance e RunCancelled" "failure_for e = Some reason"
      | "\<not> is_instance e RunCancelled" "failure_for e = None" by fastforce
    then show ?thesis
    proof cases
      case 1
      then show ?thesis using Inl run put [of RCancelled None None None]
        by (auto simp: record_outcome_def mseq_apply split: prod.splits sum.splits)
    next
      case 2
      then show ?thesis using Inl run put [of RFailed None "Some reason" "Some (exc_message e)"]
        by (auto simp: record_outcome_def fail_run_def mseq_apply split: prod.splits sum.splits)
    next
      case 3
      then show ?thesis using Inl run inv by (simp add: record_outcome_def safety.rel_refl)
    qed
  qed
qed

lemma on_db_get: "on_db (runs_get rid) (w, c) = (case lookup_run w rid of
    None \<Rightarrow> (Inl (run_not_found rid), (w, c)) | Some r \<Rightarrow> (Inr r, (w, c)))"
  by (simp add: on_db_apply runs_get_eq split: option.splits)

lemma then_get: "mseq m (on_db (runs_get rid)) s = (res, s') \<Longrightarrow> \<exists>r. m s = (r, s')"
  by (auto simp: mseq_apply on_db_apply runs_get_eq split: prod.splits sum.splits option.splits)

lemma signing_time_eq:
  obtains time n where "signing_time svc signed w = (Inr time, w\<lparr>clock_reads := n\<rparr>)"
proof (cases "or_else signed None")
  case None
  then show ?thesis using that by (simp add: signing_time_def mbind_apply)
next
  case (Some s)
  then show ?thesis using that [of s "clock_reads w"] by (simp add: signing_time_def)
qed

lemma new_row_safe:
  assumes "lookup_run w rid = None"
  shows "safe_step w (w\<lparr>uuid_reads := n, clock_reads := k, runs_tbl := runs_tbl w @ [new_run rid emp ms mc t]\<rparr>)"
    (is "safe_step w ?w")
proof (rule only_runs_safe)
  show "only_runs w ?w" by (simp add: only_runs_def)
  show "runs_evolve w ?w" by (auto simp: runs_evolve_def lookup_run_def tfind_append)
  show "runs_wf w \<longrightarrow> runs_wf ?w"
    using assms by (auto simp: runs_wf_def lookup_run_def tfind_None_iff)
  show "\<forall>r \<in> set (runs_tbl ?w). run_ok r" if "db_inv w"
    using that by (auto simp: db_inv_def run_ok_def)
qed

section \<open>The parts of a request\<close>

text \<open>Before the first checkpoint, at a node, or somewhere: what a request may invoke the graph with.\<close>

fun may_invoke :: "request \<Rightarrow> checkpoint option \<Rightarrow> bool" where
  "may_invoke (Start emp ms mc) view \<longleftrightarrow> view = None"
| "may_invoke (ResumeRun rid) view \<longleftrightarrow> True"
| "may_invoke (Cancel rid) view \<longleftrightarrow> False"
| "may_invoke req view \<longleftrightarrow> (\<exists>ck sn. view = Some ck \<and> ck_next ck = step_value sn)"

fun claimable :: "request \<Rightarrow> run_status set" where
  "claimable (Start emp ms mc) = {RPending}"
| "claimable (ResumeRun rid) = {}"
| "claimable (Cancel rid) = {RPending, RPaused}"
| "claimable req = {RPaused}"

text \<open>What a request about to take its next part knows.\<close>

fun phase_ok :: "'c langgraph \<Rightarrow> request \<Rightarrow> phase \<Rightarrow> world \<times> 'c \<Rightarrow> bool" where
  "phase_ok lg req (Decided r) (w, c) \<longleftrightarrow> lookup_run w (run_id r) = Some r \<and> status r \<in> claimable req"
| "phase_ok lg req (Claimed r) (w, c) \<longleftrightarrow> lookup_run w (run_id r) = Some r \<and> status r = RRunning
     \<and> may_invoke req (lg_view lg c (thread_of (run_id r)))"
| "phase_ok lg req (Invoked r out) (w, c) \<longleftrightarrow> (\<exists>r1. lookup_run w (run_id r) = Some r1 \<and> status r1 = RRunning)
     \<and> fits lg c (run_id r) out"
| "phase_ok lg req ph (w, c) \<longleftrightarrow> True"

abbreviation part_keeps :: "'c langgraph \<Rightarrow> request \<Rightarrow> world \<times> 'c \<Rightarrow> phase \<Rightarrow> world \<times> 'c \<Rightarrow> bool" where
  "part_keeps lg req s ph s' \<equiv> service_inv lg s' \<and> safe_step (fst s) (fst s') \<and> phase_ok lg req ph s'"

lemma new_row_keeps:
  assumes inv: "service_inv lg (w, c)" and new: "lookup_run w rid = None"
  shows "part_keeps lg (Start emp ms mc) (w, c) (Decided (new_run rid emp ms mc t))
    (w\<lparr>uuid_reads := n, clock_reads := k, runs_tbl := runs_tbl w @ [new_run rid emp ms mc t]\<rparr>, c)"
    (is "part_keeps lg _ _ _ (?w, c)")
proof -
  have safe: "safe_step w ?w" using new_row_safe [OF new] .
  have look: "lookup_run ?w = (lookup_run w)(rid \<mapsto> new_run rid emp ms mc t)"
    using new by (auto simp: fun_eq_iff lookup_run_def tfind_append tfind_Cons split: option.splits)
  have "lg_view lg c (thread_of rid) = None" using service_invD(3) [OF inv, of rid] new by (simp add: thread_ok_def)
  then have "thread_ok lg ?w c rid" using look by (simp add: thread_ok_def)
  moreover have "thread_ok lg ?w c x" if "x \<noteq> rid" for x
    using service_invD(3) [OF inv, of x] look that trace_extends_same [of ?w w] by (intro thread_ok_kept [of lg w c x ?w c]) simp_all
  ultimately have "thread_ok lg ?w c x" for x by (cases "x = rid") simp_all
  moreover have "gate_kept ?w"
    using service_invD(2) [OF inv] approved_row_same [of ?w w] by (simp add: gate_kept_def lookup_provider_def)
  ultimately have "service_inv lg (?w, c)"
    by (intro service_invI safe_stepD(5) [OF safe service_invD(1) [OF inv]])
  then show ?thesis using safe look by simp
qed

lemma fresh_keeps:
  assumes inv: "service_inv lg (w, c)" and run: "micro lg svc req Fresh (w, c) = (ph, s')"
  shows "part_keeps lg req (w, c) ph s'"
proof (cases "run_of req")
  case None
  then obtain emp ms mc where req: "req = Start emp ms mc" by (cases req) auto
  have "runs_wf w" using service_invD(1) [OF inv] by (simp add: db_inv_def)
  then show ?thesis
  proof (cases rule: runs_create_cases [where emp = emp and given = None and ms = ms and mc = mc])
    case (collision rid n w1)
    then have "\<exists>e. ph = Returned (Inl e)" "s' = (w1, c)"
      using run req by (auto simp: micro_def mbind_apply on_db_apply)
    moreover have "service_inv lg (w1, c)" "safe_step w w1"
      using collision(2) by (intro service_inv_same [OF inv, of w1]; simp)+
    ultimately show ?thesis by auto
  next
    case (created rid n t)
    then have "ph = Decided (new_run rid emp ms mc t)"
        "s' = (w\<lparr>uuid_reads := n, clock_reads := Suc (clock_reads w), runs_tbl := runs_tbl w @ [new_run rid emp ms mc t]\<rparr>, c)"
      using run req by (auto simp: micro_def mbind_apply on_db_apply)
    then show ?thesis using new_row_keeps [OF inv created(1)] req by simp
  qed
next
  case (Some rid)
  show ?thesis
  proof (cases "lookup_run w rid")
    case None
    then have "s' = (w, c)" "\<exists>e. ph = Returned (Inl e)"
      using run Some by (cases req; auto simp: micro_def mbind_apply on_db_get)+
    then show ?thesis using inv by (auto intro: safety.rel_refl)
  next
    case r: (Some r)
    note id = lookup_run_id [OF r]
    have "s' = (w, c) \<and> phase_ok lg req ph (w, c)"
      using run Some r id
      by (cases req; auto simp: micro_def mbind_apply mseq_apply on_db_get require_paused_for_def run_is_terminal_def
            raise_def split: if_splits)
    then show ?thesis using inv by (auto intro: safety.rel_refl)
  qed
qed

lemma decided_keeps:
  assumes inv: "service_inv lg (w, c)" and ok: "lookup_run w (run_id r) = Some r" "status r \<in> claimable req"
    and run: "micro lg svc req (Decided r) (w, c) = (ph, s')"
  shows "part_keeps lg req (w, c) ph s'"
proof -
  define t where "t = (case req of Cancel rid \<Rightarrow> RCancelled | _ \<Rightarrow> RRunning)"
  have move: "t \<in> ALLOWED_RUN_TRANSITIONS (status r)" using ok(2) by (cases req) (auto simp: t_def)
  have t: "t \<in> {RCancelled, RRunning}" by (simp add: t_def split: request.splits)
  obtain r' w' where set: "set_status (run_id r) t None None None w = (Inr r', w')" "service_inv lg (w', c)"
      "lookup_run w' (run_id r) = Some r'" "status r' = t" "run_id r' = run_id r" "safe_step w w'"
    by (rule service_inv_set_status [where p = None and f = None and d = None, OF inv ok(1) move]) (use t in auto)
  have "(ph, s') = (case req of Cancel rid \<Rightarrow> Returned (Inr r') | _ \<Rightarrow> Claimed r', (w', c))"
    using run set(1) by (cases req) (simp_all add: t_def micro_def mbind_apply on_db_apply)
  moreover have "may_invoke req (lg_view lg c (thread_of (run_id r)))" if "\<And>rid. req \<noteq> Cancel rid"
    using service_invD(3) [OF inv, of "run_id r"] ok that by (cases req) (auto simp: thread_ok_def)
  ultimately show ?thesis using set by (cases req) (auto simp: t_def)
qed

fun invokes_with :: "request \<Rightarrow> run \<Rightarrow> graph_input \<Rightarrow> bool" where
  "invokes_with (Start emp ms mc) r inp \<longleftrightarrow>
     inp = Input [(''run_id'', PStr (run_id r)), (''employee_id'', PStr emp), (''events'', PList [])]"
| "invokes_with (ResumeRun rid) r inp \<longleftrightarrow> inp = Continue"
| "invokes_with (Cancel rid) r inp \<longleftrightarrow> inp = Continue"
| "invokes_with req r inp \<longleftrightarrow> (\<exists>d. inp = Resume d)"

lemma graph_input_eq:
  obtains inp n where "graph_input_of svc req r w = (Inr inp, w\<lparr>clock_reads := n\<rparr>)" "invokes_with req r inp"
proof (cases "\<exists>rid doc signed. req = Sign rid doc signed")
  case True
  then obtain rid doc signed where req: "req = Sign rid doc signed" by blast
  obtain time n where "signing_time svc signed w = (Inr time, w\<lparr>clock_reads := n\<rparr>)" by (rule signing_time_eq)
  with req show ?thesis by (intro that) (auto simp: mbind_apply)
next
  case False
  then have "\<exists>inp. graph_input_of svc req r w = (Inr inp, w) \<and> invokes_with req r inp"
    by (cases req) auto
  then show ?thesis using that [where n = "clock_reads w"] by auto
qed

text \<open>An invocation that may be made starts where the thread stands, or finds no thread at all.\<close>

lemma may_invoke_entry:
  assumes inv: "service_inv lg (w, c)" and r: "lookup_run w rid = Some r" "run_id r = rid"
    and may: "may_invoke req (lg_view lg c (thread_of rid))"
    and inp: "invokes_with req r inp"
  shows "inp = Continue \<and> lg_view lg c (thread_of rid) = None
    \<or> (\<exists>s rv v. entry (build_graph svc) (lg_view lg c (thread_of rid)) inp = Some (s, rv, v) \<and> on_track rid s v w)"
proof (cases "lg_view lg c (thread_of rid)")
  case None
  then show ?thesis
    using inp may r steps_before_simps(1)
    by (cases req) (auto simp: entry_def on_track_def steps_before_def WORKFLOW_def after_gate_def END_def merge_state_def
        merge_field_def state_run_id_def py_item_def)
next
  case (Some ck)
  have track: "in_place rid ck w" using service_invD(3) [OF inv, of rid] r Some by (auto simp: thread_ok_def split: option.splits)
  have "ck_next ck = END \<or> ck_next ck \<in> fst ` set (g_nodes (build_graph svc))"
    using track unfolding in_place_def on_graph_def step_names_iff by blast
  moreover have "ck_next ck \<in> fst ` set (g_nodes (build_graph svc))" if "\<And>x. req \<noteq> ResumeRun x"
    using may Some that unfolding step_names_iff by (cases req) auto
  ultimately have "\<exists>rv. entry (build_graph svc) (Some ck) inp = Some (ck_next ck, rv, ck_values ck)"
    using inp may Some by (cases inp; cases req; simp add: entry_def)
  then show ?thesis using track Some unfolding in_place_def by auto
qed

lemma claimed_keeps:
  assumes svc: "app_services svc" and lg: "langgraph_ok lg (build_graph svc)" and inv: "service_inv lg (w, c)"
    and ok: "lookup_run w (run_id r) = Some r" "status r = RRunning" "may_invoke req (lg_view lg c (thread_of (run_id r)))"
    and run: "micro lg svc req (Claimed r) (w, c) = (ph, s')"
  shows "part_keeps lg req (w, c) ph s'"
proof -
  obtain inp n where inp: "graph_input_of svc req r w = (Inr inp, w\<lparr>clock_reads := n\<rparr>)"
    "invokes_with req r inp"
    by (rule graph_input_eq)
  let ?w = "w\<lparr>clock_reads := n\<rparr>"
  have inv1: "service_inv lg (?w, c)" and safe1: "safe_step w ?w" by (rule service_inv_same [OF inv]; simp)+
  have r1: "lookup_run ?w (run_id r) = Some r" using ok(1) by simp
  obtain out w' c' where call: "lg_invoke lg (build_graph svc) inp (thread_of (run_id r)) (?w, c) = (out, (w', c'))"
    by (metis surj_pair)
  have "service_inv lg (w', c') \<and> safe_step ?w w' \<and> fits lg c' (run_id r) out
      \<and> (\<exists>r1. lookup_run w' (run_id r) = Some r1 \<and> status r1 = RRunning)"
    by (rule invocation_keeps [OF svc lg inv1 r1 ok(2) may_invoke_entry [OF inv1 r1 refl ok(3) inp(2)] call])
  moreover have "(ph, s') = (Invoked r out, (w', c'))"
    using run inp(1) call thread_id_of [OF service_invD(1) [OF inv] ok(1)]
    by (simp add: micro_def mbind_apply on_db_apply invocation_def)
  ultimately show ?thesis using safe1 by (auto intro: safety.rel_trans)
qed

lemma micro_keeps:
  assumes svc: "app_services svc" and lg: "langgraph_ok lg (build_graph svc)" and inv: "service_inv lg s"
    and ok: "phase_ok lg req ph s" and run: "micro lg svc req ph s = (ph', s')"
  shows "part_keeps lg req s ph' s'"
proof -
  obtain w c where s: "s = (w, c)" by (cases s)
  note inv = inv [unfolded s] and ok = ok [unfolded s] and run = run [unfolded s]
  have "part_keeps lg req (w, c) ph' s'"
  proof (cases ph)
    case Fresh
    then show ?thesis using fresh_keeps [OF inv] run by blast
  next
    case (Decided r)
    then show ?thesis using decided_keeps [OF inv, of r req svc ph' s'] ok run by simp
  next
    case (Flagging r)
    then show ?thesis using request_cancel_keeps [OF inv] run
      by (auto simp: micro_def mbind_apply on_db_apply split: prod.splits sum.splits)
  next
    case (Claimed r)
    then show ?thesis using claimed_keeps [OF svc lg inv, of r req ph' s'] ok run by simp
  next
    case (Invoked r out)
    obtain res w' where rec: "record_outcome r out w = (res, w')" by (metis surj_pair)
    from ok Invoked obtain r1 where "lookup_run w (run_id r) = Some r1" "status r1 = RRunning" "fits lg c (run_id r) out" by auto
    from record_keeps [OF inv this rec] show ?thesis using run rec Invoked
      by (auto simp: micro_def mseq_apply on_db_apply split: sum.splits)
  next
    case (Recorded r)
    then have "s' = (w, c)" "\<exists>res. ph' = Returned res"
      using run by (auto simp: micro_def mbind_apply on_db_get split: option.splits)
    then show ?thesis using inv by (auto intro: safety.rel_refl)
  next
    case (Returned res)
    then show ?thesis using run inv by (auto simp: micro_def safety.rel_refl)
  qed
  then show ?thesis by (simp add: s)
qed

lemma alone_keeps:
  assumes svc: "app_services svc" and lg: "langgraph_ok lg (build_graph svc)"
  shows "service_inv lg s \<Longrightarrow> phase_ok lg req ph s \<Longrightarrow> alone n lg svc req ph s = (ph', s') \<Longrightarrow> part_keeps lg req s ph' s'"
proof (induction n arbitrary: ph s)
  case 0
  then show ?case by (auto intro: safety.rel_refl)
next
  case (Suc n)
  obtain ph1 s1 where one: "micro lg svc req ph s = (ph1, s1)" by (metis surj_pair)
  have "part_keeps lg req s ph1 s1" by (rule micro_keeps [OF svc lg Suc.prems(1,2) one])
  moreover from this have "part_keeps lg req s1 ph' s'" using Suc.IH [of s1 ph1] Suc.prems(3) one by simp
  ultimately show ?case by (blast intro: safety.rel_trans)
qed

section \<open>Requests, deaths, restarts\<close>

lemma happens_keeps:
  assumes svc: "app_services svc" and lg: "langgraph_ok lg (build_graph svc)" and inv: "service_inv lg s"
    and step: "happens lg svc s s'"
  shows "service_inv lg s' \<and> safe_step (fst s) (fst s')"
  using step
proof (cases rule: happens_cases)
  case (parts n req ph)
  have "phase_ok lg req Fresh s" by (cases s) simp
  from alone_keeps [OF svc lg inv this parts] show ?thesis by blast
next
  case (restart w c faults n)
  then show ?thesis using service_inv_same [of lg w c "w\<lparr>iam := faults, paperwork_failures := n\<rparr>"] inv by simp
qed

lemma serve_keeps:
  assumes "app_services svc" "langgraph_ok lg (build_graph svc)" "service_inv lg (w, c)"
    and "serve lg svc req (w, c) = (res, (w', c'))"
  shows "service_inv lg (w', c') \<and> safe_step w w'"
  using happens_keeps [OF assms(1-3) serving [OF assms(4)]] by simp

lemma reachable_inv:
  assumes svc: "app_services svc" and lg: "langgraph_ok lg (build_graph svc)" and fresh: "\<And>t. lg_view lg c0 t = None"
  shows "reachable lg svc c0 s \<Longrightarrow> service_inv lg s"
proof (induction rule: reachable.induct)
  case (new_database clk ids)
  show ?case
    using fresh
    by (simp add: service_inv_def gate_kept_def lookup_provider_def thread_ok_def lookup_run_def)
next
  case (happened s s')
  then show ?case using happens_keeps [OF svc lg] by blast
qed

text \<open>Waking a paused run up.\<close>

lemma wake_up:
  assumes inv: "service_inv lg (w, c)" and r: "lookup_run w rid = Some r0" "status r0 = RPaused"
  obtains r1 w1 where "set_status rid RRunning None None None w = (Inr r1, w1)" "service_inv lg (w1, c)" "safe_step w w1"
    "lookup_run w1 rid = Some r1" "status r1 = RRunning" "run_id r1 = rid" "thread_id r1 = thread_of rid"
    "lookup_run w1 = (lookup_run w)(rid \<mapsto> r1)"
proof -
  have move: "RRunning \<in> ALLOWED_RUN_TRANSITIONS (status r0)" using r(2) by simp
  obtain r1 w1 where "set_status rid RRunning None None None w = (Inr r1, w1)" "service_inv lg (w1, c)" "safe_step w w1"
    "lookup_run w1 rid = Some r1" "status r1 = RRunning" "run_id r1 = rid" "thread_id r1 = thread_id r0"
    "lookup_run w1 = (lookup_run w)(rid \<mapsto> r1)"
    by (rule service_inv_set_status [where p = None and f = None and d = None, OF inv r(1) move]) simp_all
  with thread_id_of [OF service_invD(1) [OF inv] r(1)] show ?thesis by (intro that) simp_all
qed

text \<open>A start, up to its invocation of the graph.\<close>

lemma start_cases:
  assumes inv: "service_inv lg (w, c)" and run: "start_run lg svc emp ms mc (w, c) = (res, (w', c'))"
  obtains (collision) "c' = c" "runs_tbl w' = runs_tbl w" "service_inv lg (w', c)" "safe_step w w'"
  | (begun) rid r2 w2 ra inp v where "lookup_run w rid = None" "lookup_run w2 = (lookup_run w)(rid \<mapsto> r2)"
      "service_inv lg (w2, c)" "safe_step w w2"
      "lookup_run w2 rid = Some r2" "status r2 = RRunning" "run_id r2 = rid" "thread_id r2 = thread_of rid"
      "entry (build_graph svc) (lg_view lg c (thread_of rid)) inp = Some (step_value FETCH_EMPLOYEE, None, v)"
      "on_track rid (step_value FETCH_EMPLOYEE) v w2"
      "mseq (advance lg svc r2 inp) (on_db (runs_get rid)) (w2, c) = (res, (w', c'))"
      "advance lg svc r2 inp (w2, c) = (ra, (w', c'))"
proof -
  have "runs_wf w" using service_invD(1) [OF inv] by (simp add: db_inv_def)
  then show ?thesis
  proof (cases rule: runs_create_cases [where emp = emp and given = None and ms = ms and mc = mc])
    case (collision rid n w1)
    then have "w' = w1" "c' = c" using run by (auto simp: start_run_def mbind_apply on_db_apply)
    then show ?thesis using service_inv_same [OF inv, of w1] collision(2) by (intro that(1)) simp_all
  next
    case (created rid n t)
    let ?r = "new_run rid emp ms mc t"
    let ?w1 = "w\<lparr>uuid_reads := n, clock_reads := Suc (clock_reads w), runs_tbl := runs_tbl w @ [?r]\<rparr>"
    have found: "lookup_run ?w1 rid = Some ?r" and inv1: "service_inv lg (?w1, c)" and safe1: "safe_step w ?w1"
      using new_row_keeps [OF inv created(1), where n = n and k = "Suc (clock_reads w)" and emp = emp and ms = ms and mc = mc and t = t] by simp_all
    have look1: "lookup_run ?w1 = (lookup_run w)(rid \<mapsto> ?r)"
      using created(1) by (auto simp: fun_eq_iff lookup_run_def tfind_append tfind_Cons split: option.splits)
    have move: "RRunning \<in> ALLOWED_RUN_TRANSITIONS (status ?r)" by simp
    obtain r2 w2 where set: "set_status rid RRunning None None None ?w1 = (Inr r2, w2)" "service_inv lg (w2, c)"
      "status r2 = RRunning" "run_id r2 = rid" "thread_id r2 = thread_of rid"
      "lookup_run w2 = (lookup_run ?w1)(rid \<mapsto> r2)" "safe_step ?w1 w2"
      by (rule service_inv_set_status [where p = None and f = None and d = None, OF inv1 found move]) simp_all
    have look2: "lookup_run w2 = (lookup_run w)(rid \<mapsto> r2)" using set(6) look1 by simp
    have none: "lg_view lg c (thread_of rid) = None" using service_invD(3) [OF inv, of rid] created(1) by (simp add: thread_ok_def)
    let ?inp = "[(''run_id'', PStr rid), (''employee_id'', PStr emp), (''events'', PList [])]"
    have entry: "entry (build_graph svc) (lg_view lg c (thread_of rid)) (Input ?inp) =
        Some (step_value FETCH_EMPLOYEE, None, merge_state (PDict []) ?inp)"
      by (simp add: entry_def none)
    have track: "on_track rid (step_value FETCH_EMPLOYEE) (merge_state (PDict []) ?inp) w2"
      using steps_before_simps(1) by (simp add: on_track_def steps_before_def WORKFLOW_def after_gate_def END_def merge_state_def merge_field_def state_run_id_def py_item_def)
    have two: "on_db (set_status rid RRunning None None None) (?w1, c) = (Inr r2, (w2, c))"
      using set(1) by (simp add: on_db_apply)
    have one: "on_db (runs_create emp None ms mc) (w, c) = (Inr ?r, (?w1, c))"
      using created(3) by (simp add: on_db_apply)
    have rest: "mseq (advance lg svc r2 (Input ?inp)) (on_db (runs_get rid)) (w2, c) = (res, (w', c'))"
      using run one two set(4) by (simp add: start_run_def mbind_apply)
    then obtain ra where adv: "advance lg svc r2 (Input ?inp) (w2, c) = (ra, (w', c'))" using then_get by blast
    have r2: "lookup_run w2 rid = Some r2" using look2 by simp
    from safe1 set(7) have safe: "safe_step w w2" by (rule safety.rel_trans)
    show ?thesis
      by (rule that(2) [OF created(1) look2 set(2) safe r2 set(3-5) entry track rest adv])
  qed
qed


end
