(* ===== verification/Lifecycle_Spec.thy ===== *)
theory Lifecycle_Spec
  imports Service_Invariant
begin

text \<open>
  What the service promises of a run's life, said without the graph, the nodes or the tools: a run
  waits twice, first for HR and then for the signature, and every request moves it by one of a few
  named steps.  The run service refines this specification; the abstraction forgets everything of
  a run but its status and what it waits for.
\<close>

section \<open>The specification\<close>

type_synonym life = "string \<Rightarrow> (run_status \<times> pause_reason option) option"

text \<open>Where a run driven towards its next stop may end up; \<open>RRunning\<close> when the process died.\<close>

definition stopped :: "(run_status \<times> pause_reason option) set" where
  "stopped = {(RFailed, None), (RCancelled, None), (RRunning, None)}"

definition settles :: "pause_reason option \<Rightarrow> (run_status \<times> pause_reason option) set" where
  "settles next_stop = insert (case next_stop of None \<Rightarrow> (RCompleted, None) | Some p \<Rightarrow> (RPaused, Some p)) stopped"

definition moves_to :: "string \<Rightarrow> (run_status \<times> pause_reason option) set \<Rightarrow> life \<Rightarrow> life \<Rightarrow> bool" where
  "moves_to rid S a a' \<longleftrightarrow> (\<exists>x \<in> S. a' = a(rid \<mapsto> x))"

fun spec_step :: "request \<Rightarrow> life \<Rightarrow> life \<Rightarrow> bool" where
  "spec_step (Start emp x y) a a' \<longleftrightarrow> a' = a \<or> (\<exists>rid. a rid = None \<and> moves_to rid (settles (Some HR_APPROVAL)) a a')"
| "spec_step (Approve rid x y) a a' \<longleftrightarrow>
     (if a rid = Some (RPaused, Some HR_APPROVAL) then moves_to rid (settles (Some SIGNED_DOCUMENT)) a a' else a' = a)"
| "spec_step (Reject rid x y) a a' \<longleftrightarrow>
     (if a rid = Some (RPaused, Some HR_APPROVAL) then moves_to rid stopped a a' else a' = a)"
| "spec_step (Sign rid x y) a a' \<longleftrightarrow>
     (if a rid = Some (RPaused, Some SIGNED_DOCUMENT) then moves_to rid (settles None) a a' else a' = a)"
| "spec_step (ResumeRun rid) a a' \<longleftrightarrow>
     (if a rid = Some (RRunning, None) then moves_to rid (\<Union>(range settles)) a a' else a' = a)"
| "spec_step (Cancel rid) a a' \<longleftrightarrow>
     (case a rid of Some (s, p) \<Rightarrow>
        if s \<in> {RPending, RPaused} then a' = a(rid \<mapsto> (RCancelled, None)) else a' = a
      | None \<Rightarrow> a' = a)"

definition abs_runs :: "world \<Rightarrow> life" where
  "abs_runs w = (\<lambda>rid. map_option (\<lambda>r. (status r, pause_reason r)) (lookup_run w rid))"

section \<open>The next gate ahead\<close>

fun gate_ahead :: "step_name \<Rightarrow> bool \<Rightarrow> pause_reason option" where
  "gate_ahead FETCH_EMPLOYEE b = Some HR_APPROVAL"
| "gate_ahead PLAN_DEPROVISIONING b = Some HR_APPROVAL"
| "gate_ahead AWAIT_HR_APPROVAL b = Some (if b then SIGNED_DOCUMENT else HR_APPROVAL)"
| "gate_ahead REVOKE_ACCESS b = Some SIGNED_DOCUMENT"
| "gate_ahead SEND_EXIT_PAPERWORK b = Some SIGNED_DOCUMENT"
| "gate_ahead AWAIT_SIGNED_DOCUMENT b = (if b then None else Some SIGNED_DOCUMENT)"
| "gate_ahead FINALIZE b = None"

lemma gate_ahead_gate [simp]: "gate_ahead (gate_of reason) False = Some reason"
  by (cases reason) simp_all

definition stops_ahead :: "outcome \<Rightarrow> pause_reason option \<Rightarrow> bool" where
  "stops_ahead out next_stop \<longleftrightarrow> (case out of
     Finished v \<Rightarrow> next_stop = None
   | Interrupted p v \<Rightarrow> (\<exists>reason. requested_pause p = Inr reason \<and> next_stop = Some reason)
   | Raised e \<Rightarrow> ordinary e)"


lemma node_passes:
  assumes "app_services svc" and "(sn, fn) \<in> set WORKFLOW" and "fn svc (interrupt_with r) v w = (Inr upd, w1)"
    and "map_of (g_edges (build_graph svc)) (step_value sn) = Some t"
  shows "t = END \<and> gate_ahead sn (r \<noteq> None) = None
    \<or> (\<exists>tn. t = step_value tn \<and> gate_ahead tn False = gate_ahead sn (r \<noteq> None))"
proof -
  have "r \<noteq> None" if "sn \<in> {AWAIT_HR_APPROVAL, AWAIT_SIGNED_DOCUMENT}"
  proof -
    have "only_returns (\<lambda>_. r \<noteq> None) (fn svc (interrupt_with r) v)"
      using that assms(2) gate_waits by (auto simp: WORKFLOW_def)
    moreover have "fst (fn svc (interrupt_with r) v w) = Inr upd" using assms(3) by simp
    ultimately show ?thesis unfolding only_returns_def by blast
  qed
  then show ?thesis using assms(4) step_not_END by (cases sn) (auto simp del: step_value.simps)
qed

lemma drives_to_next_gate:
  assumes svc: "app_services svc"
  shows "drives (build_graph svc) s r v w out ck w' \<Longrightarrow>
    (s = END \<longrightarrow> stops_ahead out None) \<and> (\<forall>sn. s = step_value sn \<longrightarrow> stops_ahead out (gate_ahead sn (r \<noteq> None)))"
proof (induction rule: drives.induct)
  case (finish r v w)
  then show ?case using step_not_END by (auto simp: stops_ahead_def dest: sym)
next
  case (step s n r v w upd w1 t out ck w2)
  obtain sn fn where node: "(sn, fn) \<in> set WORKFLOW" "s = step_value sn" "n = fn svc"
    by (rule build_graph_nodes [OF step(1)])
  from node_passes [OF svc node(1) step(2) [unfolded node(3)] step(3) [unfolded node(2)]] step.IH node(2)
  show ?case by (auto simp del: step_value.simps)
next
  case (pause s n r v w p w1)
  obtain sn fn where node: "(sn, fn) \<in> set WORKFLOW" "s = step_value sn" "n = fn svc"
    by (rule build_graph_nodes [OF pause(1)])
  show ?case using node_raises [OF svc node(1) pause(2) [unfolded node(3)]] node(2)
    by (auto simp: stops_ahead_def ordinary_def simp del: step_value.simps)
next
  case (raised s n r v w c m w1 kept)
  then show ?case by (simp add: stops_ahead_def)
next
  case (died s n kept r v w m)
  then show ?case by (simp add: stops_ahead_def)
next
  case (lost s n r v w res w1 kept m)
  then show ?case by (simp add: stops_ahead_def)
qed

text \<open>A rejected approval gate lets nothing through.\<close>

lemma drives_rejected:
  assumes svc: "app_services svc" and d: "py_get d ''approved'' PNone = Inr b" "\<not> truthy b"
    and run: "drives (build_graph svc) (step_value AWAIT_HR_APPROVAL) (Some d) v w out ck w'"
  shows "\<exists>e. out = Raised e \<and> ordinary e"
  using run
proof cases
  case (step n upd w1 t)
  then have "n = await_hr_approval svc" by (simp del: step_value.simps)
  moreover have "only_returns (\<lambda>_. False) (await_hr_approval svc (interrupt_with (Some d)) v)"
    using gate_refuses [OF d] .
  moreover have "fst (n (interrupt_with (Some d)) v w) = Inr upd" using step by simp
  ultimately show ?thesis unfolding only_returns_def by blast
next
  case (pause n p)
  have "n = await_hr_approval svc" using pause by (simp del: step_value.simps)
  moreover have "(AWAIT_HR_APPROVAL, await_hr_approval) \<in> set WORKFLOW" by (simp add: WORKFLOW_def)
  ultimately show ?thesis using node_raises [OF svc] pause by (fastforce simp: ordinary_def)
next
  case finish
  then show ?thesis using step_not_END by metis
qed auto

section \<open>What advance makes of an outcome\<close>

definition outcome_status :: "exc + invoke_result \<Rightarrow> (run_status \<times> pause_reason option) option" where
  "outcome_status res = (case res of
     Inr v \<Rightarrow> (case res_interrupts v of
         [] \<Rightarrow> Some (RCompleted, None)
       | p # _ \<Rightarrow> (case requested_pause p of Inr reason \<Rightarrow> Some (RPaused, Some reason) | Inl e \<Rightarrow> None))
   | Inl e \<Rightarrow> if is_instance e RunCancelled then Some (RCancelled, None)
       else if failure_for e \<noteq> None then Some (RFailed, None) else None)"

lemma abs_runs_kept: "lifecycle_kept w w' \<Longrightarrow> abs_runs w' = abs_runs w"
proof
  fix rid assume "lifecycle_kept w w'"
  then have "map_option lifecycle (lookup_run w' rid) = map_option lifecycle (lookup_run w rid)"
    by (simp add: lifecycle_kept_def)
  then show "abs_runs w' rid = abs_runs w rid"
    by (cases "lookup_run w rid"; cases "lookup_run w' rid") (auto simp: abs_runs_def lifecycle_def)
qed


text \<open>
  The run handed to \<open>advance\<close> is running once the graph returns; what \<open>advance\<close> then does to
  its row is decided by the outcome alone.
\<close>

definition failed_with :: "exc + invoke_result \<Rightarrow> (failure_reason \<times> string) option" where
  "failed_with res = (case res of
     Inr v \<Rightarrow> None
   | Inl e \<Rightarrow> if is_instance e RunCancelled then None else map_option (\<lambda>reason. (reason, exc_message e)) (failure_for e))"

lemma advance_decides:
  assumes inv: "lg_invoke lg (build_graph svc) inp (thread_id r) (w, c) = (out, (w1, c1))"
    and r1: "lookup_run w1 (run_id r) = Some r1" "status r1 = RRunning"
  shows "case outcome_status out of
      None \<Rightarrow> \<exists>e. advance lg svc r inp (w, c) = (Inl e, (w1, c1))
    | Some (s, p) \<Rightarrow> \<exists>r' w'. advance lg svc r inp (w, c) = (Inr (), (w', c1))
        \<and> lookup_run w' = (lookup_run w1)(run_id r \<mapsto> r') \<and> only_runs w1 w' \<and> status r' = s \<and> pause_reason r' = p
        \<and> (case failed_with out of Some (reason, m) \<Rightarrow> failure_reason r' = Some reason \<and> failure_detail r' = Some m
           | None \<Rightarrow> failure_reason r' = failure_reason r1 \<and> failure_detail r' = failure_detail r1)"
proof -
  have set: "\<exists>r' w'. set_status (run_id r) t p f d w1 = (Inr r', w') \<and> lookup_run w' = (lookup_run w1)(run_id r \<mapsto> r')
      \<and> only_runs w1 w' \<and> status r' = t \<and> pause_reason r' = p
      \<and> failure_reason r' = (if f = None then failure_reason r1 else f)
      \<and> failure_detail r' = (if d = None then failure_detail r1 else d)"
    if "t \<in> {RCompleted, RPaused, RCancelled, RFailed}" for t p f d
  proof -
    have "t \<in> ALLOWED_RUN_TRANSITIONS (status r1)" using r1(2) that by auto
    from set_status_allowed [OF r1(1) this] show ?thesis by metis
  qed
  show ?thesis
  proof (cases out)
    case (Inr v)
    show ?thesis
    proof (cases "res_interrupts v")
      case Nil
      then show ?thesis using inv Inr set [of RCompleted None None None]
        by (auto simp: advance_def mtry_apply on_db_apply mseq_apply outcome_status_def failed_with_def)
    next
      case (Cons p ps)
      show ?thesis
      proof (cases "requested_pause p")
        case (Inl e)
        then show ?thesis using inv \<open>out = Inr v\<close> Cons by (simp add: advance_def mtry_apply outcome_status_def raise_def)
      next
        case (Inr reason)
        then show ?thesis using inv \<open>out = Inr v\<close> Cons set [of RPaused "Some reason" None None]
          by (auto simp: advance_def mtry_apply on_db_apply mseq_apply outcome_status_def failed_with_def)
      qed
    qed
  next
    case (Inl e)
    consider "is_instance e RunCancelled" | reason where "\<not> is_instance e RunCancelled" "failure_for e = Some reason"
      | "\<not> is_instance e RunCancelled" "failure_for e = None" by fastforce
    then show ?thesis
    proof cases
      case 1
      then show ?thesis using inv Inl set [of RCancelled None None None]
        by (auto simp: advance_def mtry_apply on_db_apply mseq_apply outcome_status_def failed_with_def)
    next
      case 2
      then show ?thesis using inv Inl set [of RFailed None "Some reason" "Some (exc_message e)"]
        by (auto simp: advance_def fail_run_def mtry_apply on_db_apply mseq_apply outcome_status_def failed_with_def)
    next
      case 3
      then show ?thesis using inv Inl by (simp add: advance_def mtry_apply outcome_status_def)
    qed
  qed
qed


section \<open>Refinement\<close>

lemma advance_settles:
  assumes svc: "app_services svc" and lg: "langgraph_ok lg (build_graph svc)"
    and inv: "db_inv w" "gate_kept w" and r: "lookup_run w rid = Some r0" "status r0 = RRunning"
    and arg: "run_id r = rid" "thread_id r = thread_of rid"
    and entry: "entry (build_graph svc) (lg_view lg c (thread_of rid)) inp = Some (s, rv, v)"
    and track: "on_track rid s v w" and run: "advance lg svc r inp (w, c) = (res, (w', c'))"
  obtains out ck w1 where "drives (build_graph svc) s rv v w out ck w1"
    "moves_to rid {case outcome_status (deliver out) of Some x \<Rightarrow> x | None \<Rightarrow> (RRunning, None)} (abs_runs w) (abs_runs w')"
proof -
  obtain ri w1 c1 where inv1: "lg_invoke lg (build_graph svc) inp (thread_of rid) (w, c) = (ri, (w1, c1))"
    by (metis surj_pair)
  obtain out ck where d: "drives (build_graph svc) s rv v w out ck w1" "ri = deliver out"
    by (rule langgraph_okD [OF lg entry inv1]) blast
  have wf: "trace_wf w" using inv(1) by (simp add: db_inv_def)
  have ends: "safe_step w w1" "lifecycle_kept w w1"
    using drives_on_track [OF svc d(1) wf inv(2) track] by simp_all
  then have abs1: "abs_runs w1 = abs_runs w" by (blast intro: abs_runs_kept)
  have "abs_runs w rid = Some (RRunning, None)"
    using r db_inv_run [OF inv(1) r(1)] by (auto simp: abs_runs_def run_ok_def)
  then have here: "abs_runs w1 rid = Some (RRunning, None)" using abs1 by simp
  then obtain r1 where r1: "lookup_run w1 rid = Some r1" "status r1 = RRunning" by (auto simp: abs_runs_def)
  have dec: "case outcome_status ri of
      None \<Rightarrow> w' = w1
    | Some (s, p) \<Rightarrow> \<exists>r'. lookup_run w' = (lookup_run w1)(rid \<mapsto> r') \<and> status r' = s \<and> pause_reason r' = p"
    using advance_decides [of lg svc inp r w c ri w1 c1 r1] inv1 r1 arg run by (auto split: option.splits)
  have "abs_runs w' = (abs_runs w1)(rid \<mapsto> (case outcome_status ri of Some x \<Rightarrow> x | None \<Rightarrow> (RRunning, None)))"
  proof (cases "outcome_status ri")
    case None
    then show ?thesis using dec here by (simp add: fun_upd_idem)
  next
    case (Some x)
    then show ?thesis using dec by (auto simp: abs_runs_def fun_eq_iff split: prod.splits)
  qed
  then show ?thesis using that [OF d(1)] abs1 d(2) by (simp add: moves_to_def)
qed

lemma settles_ahead:
  assumes "stops_ahead out next_stop"
  shows "(case outcome_status (deliver out) of Some x \<Rightarrow> x | None \<Rightarrow> (RRunning, None)) \<in> settles next_stop"
  using assms by (cases out) (auto simp: stops_ahead_def outcome_status_def deliver_def settles_def stopped_def)

lemma settles_raised: "(case outcome_status (deliver (Raised e)) of Some x \<Rightarrow> x | None \<Rightarrow> (RRunning, None)) \<in> stopped"
  by (simp add: outcome_status_def deliver_def stopped_def)

lemma moves_to_mono: "moves_to rid {x} a a' \<Longrightarrow> x \<in> S \<Longrightarrow> moves_to rid S a a'"
  by (auto simp: moves_to_def)

lemma moves_to_again: "moves_to rid S (a(rid \<mapsto> y)) a' \<longleftrightarrow> moves_to rid S a a'"
  by (simp add: moves_to_def)


text \<open>A paused run, its gate and its checkpoint; what waking it up makes of them.\<close>

lemma woken:
  assumes svc: "app_services svc" and lg: "langgraph_ok lg (build_graph svc)" and inv: "service_inv lg (w, c)"
    and r: "lookup_run w rid = Some r0" "status r0 = RPaused" "pause_reason r0 = Some reason"
  obtains r1 w1 where "set_status rid RRunning None None None w = (Inr r1, w1)" "service_inv lg (w1, c)"
    "lookup_run w1 rid = Some r1" "status r1 = RRunning" "run_id r1 = rid" "thread_id r1 = thread_of rid"
    "abs_runs w1 = (abs_runs w)(rid \<mapsto> (RRunning, None))"
    "\<exists>ck. lg_view lg c (thread_of rid) = Some ck \<and> ck_next ck = step_value (gate_of reason)
      \<and> on_track rid (ck_next ck) (ck_values ck) w1"
proof -
  obtain r1 w1 where up: "set_status rid RRunning None None None w = (Inr r1, w1)" "service_inv lg (w1, c)"
    "lookup_run w1 rid = Some r1" "status r1 = RRunning" "run_id r1 = rid" "thread_id r1 = thread_of rid"
    "lookup_run w1 = (lookup_run w)(rid \<mapsto> r1)"
    by (rule wake_up [OF inv r(1,2)])
  have "pause_reason r1 = None" using db_inv_run [OF service_invD(1) [OF up(2)] up(3)] up(4) by (simp add: run_ok_def)
  then have "abs_runs w1 = (abs_runs w)(rid \<mapsto> (RRunning, None))" using up(4,7) by (auto simp: abs_runs_def fun_eq_iff)
  moreover have "\<exists>ck. lg_view lg c (thread_of rid) = Some ck \<and> ck_next ck = step_value (gate_of reason)"
    using service_invD(3) [OF inv, of rid] r by (auto simp: thread_ok_def)
  moreover have "on_track rid (ck_next ck) (ck_values ck) w1" if "lg_view lg c (thread_of rid) = Some ck" for ck
    using service_invD(3) [OF up(2), of rid] up(3) that by (simp add: thread_ok_def in_place_def)
  ultimately show ?thesis using up by (intro that) blast+
qed

lemma woken_settles:
  assumes svc: "app_services svc" and lg: "langgraph_ok lg (build_graph svc)" and inv: "service_inv lg (w, c)"
    and r: "lookup_run w rid = Some r" "status r = RRunning" "run_id r = rid" "thread_id r = thread_of rid"
    and ck: "lg_view lg c (thread_of rid) = Some ck" "ck_next ck = step_value (gate_of reason)"
      "on_track rid (ck_next ck) (ck_values ck) w"
    and run: "advance lg svc r (Resume d) (w, c) = (res, (w', c'))"
  shows "moves_to rid (settles (gate_ahead (gate_of reason) True)) (abs_runs w) (abs_runs w')"
    and "reason = HR_APPROVAL \<Longrightarrow> py_get d ''approved'' PNone = Inr b \<Longrightarrow> \<not> truthy b \<Longrightarrow>
      moves_to rid stopped (abs_runs w) (abs_runs w')"
proof -
  have known: "ck_next ck \<in> fst ` set (g_nodes (build_graph svc))" using ck(2) step_names_iff by blast
  have entry: "entry (build_graph svc) (lg_view lg c (thread_of rid)) (Resume d) = Some (ck_next ck, Some d, ck_values ck)"
    by (simp only: entry_def ck(1) prod.case option.case graph_input.case if_P [OF known])
  obtain out k w1 where d: "drives (build_graph svc) (ck_next ck) (Some d) (ck_values ck) w out k w1"
    "moves_to rid {case outcome_status (deliver out) of Some x \<Rightarrow> x | None \<Rightarrow> (RRunning, None)} (abs_runs w) (abs_runs w')"
    by (rule advance_settles [OF svc lg service_invD(1,2) [OF inv] r entry ck(3) run])
  have "stops_ahead out (gate_ahead (gate_of reason) True)" using drives_to_next_gate [OF svc d(1)] ck(2) by simp
  from moves_to_mono [OF d(2) settles_ahead [OF this]]
  show "moves_to rid (settles (gate_ahead (gate_of reason) True)) (abs_runs w) (abs_runs w')" .
  show "moves_to rid stopped (abs_runs w) (abs_runs w')"
    if rej: "reason = HR_APPROVAL" "py_get d ''approved'' PNone = Inr b" "\<not> truthy b"
  proof -
    have "drives (build_graph svc) (step_value AWAIT_HR_APPROVAL) (Some d) (ck_values ck) w out k w1"
      using d(1) ck(2) rej(1) by (simp del: step_value.simps)
    then obtain e where "out = Raised e" using drives_rejected [OF svc rej(2,3)] by blast
    with moves_to_mono [OF d(2)] settles_raised show ?thesis by blast
  qed
qed


lemma resolve_refines:
  assumes svc: "app_services svc" and lg: "langgraph_ok lg (build_graph svc)" and inv: "service_inv lg (w, c)"
    and run: "resolve_approval lg svc rid ok approver nte (w, c) = (res, (w', c'))"
  shows "if abs_runs w rid = Some (RPaused, Some HR_APPROVAL)
    then moves_to rid (if ok then settles (Some SIGNED_DOCUMENT) else stopped) (abs_runs w) (abs_runs w')
    else w' = w"
proof (cases "\<exists>r. lookup_run w rid = Some r \<and> status r = RPaused \<and> pause_reason r = Some HR_APPROVAL")
  case False
  then have "w' = w" using run
    by (auto simp: resolve_approval_def mbind_apply mseq_apply on_db_get require_paused_for_def split: option.splits if_splits)
  moreover have "abs_runs w rid \<noteq> Some (RPaused, Some HR_APPROVAL)" using False by (auto simp: abs_runs_def)
  ultimately show ?thesis by simp
next
  case True
  then obtain r where r: "lookup_run w rid = Some r" "status r = RPaused" "pause_reason r = Some HR_APPROVAL" by blast
  obtain r1 w1 where up: "set_status rid RRunning None None None w = (Inr r1, w1)" "service_inv lg (w1, c)"
    "lookup_run w1 rid = Some r1" "status r1 = RRunning" "run_id r1 = rid" "thread_id r1 = thread_of rid"
    "abs_runs w1 = (abs_runs w)(rid \<mapsto> (RRunning, None))"
    and "\<exists>ck. lg_view lg c (thread_of rid) = Some ck \<and> ck_next ck = step_value (gate_of HR_APPROVAL)
      \<and> on_track rid (ck_next ck) (ck_values ck) w1"
    by (rule woken [OF svc lg inv r])
  then obtain ck where ck: "lg_view lg c (thread_of rid) = Some ck" "ck_next ck = step_value (gate_of HR_APPROVAL)"
      "on_track rid (ck_next ck) (ck_values ck) w1" by blast
  let ?d = "PDict [(''approved'', PBool ok), (''approver'', PStr approver), (''note'', opt_val nte)]"
  have "mseq (advance lg svc r1 (Resume ?d)) (on_db (runs_get rid)) (w1, c) = (res, (w', c'))"
    using run r up lookup_run_id [OF r(1)]
    by (simp add: resolve_approval_def mbind_apply mseq_apply on_db_apply runs_get_eq require_paused_for_def)
  then obtain ra where adv: "advance lg svc r1 (Resume ?d) (w1, c) = (ra, (w', c'))" using then_get by blast
  note settles = woken_settles [OF svc lg up(2-6) ck adv]
  have "moves_to rid (if ok then settles (Some SIGNED_DOCUMENT) else stopped) (abs_runs w1) (abs_runs w')"
    using settles(1) settles(2) [of "PBool False"] by (cases ok) (simp_all add: py_get_def)
  then show ?thesis using up(7) r by (simp add: moves_to_again abs_runs_def)
qed

lemma sign_refines:
  assumes svc: "app_services svc" and lg: "langgraph_ok lg (build_graph svc)" and inv: "service_inv lg (w, c)"
    and run: "submit_signed_document lg svc rid doc signed (w, c) = (res, (w', c'))"
  shows "if abs_runs w rid = Some (RPaused, Some SIGNED_DOCUMENT)
    then moves_to rid (settles None) (abs_runs w) (abs_runs w') else w' = w"
proof (cases "\<exists>r. lookup_run w rid = Some r \<and> status r = RPaused \<and> pause_reason r = Some SIGNED_DOCUMENT")
  case False
  then have "w' = w" using run
    by (auto simp: submit_signed_document_def mbind_apply mseq_apply on_db_get require_paused_for_def
        split: option.splits if_splits)
  moreover have "abs_runs w rid \<noteq> Some (RPaused, Some SIGNED_DOCUMENT)" using False by (auto simp: abs_runs_def)
  ultimately show ?thesis by simp
next
  case True
  then obtain r where r: "lookup_run w rid = Some r" "status r = RPaused" "pause_reason r = Some SIGNED_DOCUMENT" by blast
  obtain r1 w1 where up: "set_status rid RRunning None None None w = (Inr r1, w1)" "service_inv lg (w1, c)"
    "lookup_run w1 rid = Some r1" "status r1 = RRunning" "run_id r1 = rid" "thread_id r1 = thread_of rid"
    "abs_runs w1 = (abs_runs w)(rid \<mapsto> (RRunning, None))"
    and "\<exists>ck. lg_view lg c (thread_of rid) = Some ck \<and> ck_next ck = step_value (gate_of SIGNED_DOCUMENT)
      \<and> on_track rid (ck_next ck) (ck_values ck) w1"
    by (rule woken [OF svc lg inv r])
  then obtain ck where ck: "lg_view lg c (thread_of rid) = Some ck" "ck_next ck = step_value (gate_of SIGNED_DOCUMENT)"
      "on_track rid (ck_next ck) (ck_values ck) w1" by blast
  obtain time n where time: "signing_time svc signed w1 = (Inr time, w1\<lparr>clock_reads := n\<rparr>)" by (rule signing_time_eq)
  let ?w2 = "w1\<lparr>clock_reads := n\<rparr>" and ?d = "PDict [(''document_id'', PStr doc), (''signed_at'', PStr time)]"
  have inv2: "service_inv lg (?w2, c)" by (rule service_inv_same [OF up(2)]; simp)
  have same: "lookup_run ?w2 = lookup_run w1" "trace_extends w1 ?w2" "abs_runs ?w2 = abs_runs w1"
    by (simp_all add: fun_eq_iff abs_runs_def trace_extends_same)
  have "mseq (advance lg svc r1 (Resume ?d)) (on_db (runs_get rid)) (?w2, c) = (res, (w', c'))"
    using run r up time lookup_run_id [OF r(1)]
    by (simp add: submit_signed_document_def mbind_apply mseq_apply on_db_apply runs_get_eq require_paused_for_def)
  then obtain ra where adv: "advance lg svc r1 (Resume ?d) (?w2, c) = (ra, (w', c'))" using then_get by blast
  have "on_track rid (ck_next ck) (ck_values ck) ?w2" using on_track_mono [OF ck(3) same(2)] .
  then have "moves_to rid (settles None) (abs_runs ?w2) (abs_runs w')"
    using woken_settles(1) [OF svc lg inv2 _ up(4-6) ck(1,2) _ adv] up(3) same(1) by simp
  then show ?thesis using up(7) r same(3) by (simp add: moves_to_again abs_runs_def)
qed


lemma start_refines:
  assumes svc: "app_services svc" and lg: "langgraph_ok lg (build_graph svc)" and inv: "service_inv lg (w, c)"
    and run: "start_run lg svc emp ms mc (w, c) = (res, (w', c'))"
  shows "abs_runs w' = abs_runs w
    \<or> (\<exists>rid. abs_runs w rid = None \<and> moves_to rid (settles (Some HR_APPROVAL)) (abs_runs w) (abs_runs w'))"
  using inv run
proof (cases rule: start_cases)
  case collision
  then show ?thesis by (simp add: abs_runs_def lookup_run_def)
next
  case (begun rid r2 w2 ra inp v)
  obtain out k w1 where d: "drives (build_graph svc) (step_value FETCH_EMPLOYEE) None v w2 out k w1"
    "moves_to rid {case outcome_status (deliver out) of Some x \<Rightarrow> x | None \<Rightarrow> (RRunning, None)} (abs_runs w2) (abs_runs w')"
    by (rule advance_settles [OF svc lg service_invD(1,2) [OF begun(3)] begun(5-10,12)])
  have "stops_ahead out (Some HR_APPROVAL)" using drives_to_next_gate [OF svc d(1)] by (simp del: step_value.simps)
  from moves_to_mono [OF d(2) settles_ahead [OF this]]
  have "moves_to rid (settles (Some HR_APPROVAL)) (abs_runs w2) (abs_runs w')" .
  moreover have "abs_runs w2 = (abs_runs w)(rid \<mapsto> (RRunning, pause_reason r2))"
    using begun(2,6) by (auto simp: abs_runs_def fun_eq_iff)
  ultimately show ?thesis using begun(1) by (auto simp: moves_to_again abs_runs_def)
qed

lemma resume_refines:
  assumes svc: "app_services svc" and lg: "langgraph_ok lg (build_graph svc)" and inv: "service_inv lg (w, c)"
    and run: "resume_run lg svc rid (w, c) = (res, (w', c'))"
  shows "if abs_runs w rid = Some (RRunning, None)
    then moves_to rid (\<Union>(range settles)) (abs_runs w) (abs_runs w') else w' = w"
proof (cases "\<exists>r. lookup_run w rid = Some r \<and> status r = RRunning")
  case False
  then have "w' = w" using run by (auto simp: resume_run_def mbind_apply on_db_get split: option.splits)
  then show ?thesis using False by (auto simp: abs_runs_def)
next
  case True
  then obtain r where r: "lookup_run w rid = Some r" "status r = RRunning" by blast
  have db: "db_inv w" "gate_kept w" and th: "thread_ok lg w c rid" using service_invD [OF inv] by blast+
  have arg: "run_id r = rid" "thread_id r = thread_of rid" using lookup_run_id [OF r(1)] thread_id_of [OF db(1) r(1)] by simp_all
  have "mseq (advance lg svc r Continue) (on_db (runs_get rid)) (w, c) = (res, (w', c'))"
    using run r arg(1) by (simp add: resume_run_def mbind_apply on_db_get)
  then obtain ra where adv: "advance lg svc r Continue (w, c) = (ra, (w', c'))" using then_get by blast
  have here: "abs_runs w rid = Some (RRunning, None)"
    using r db_inv_run [OF db(1) r(1)] by (auto simp: abs_runs_def run_ok_def)
  have "moves_to rid (\<Union>(range settles)) (abs_runs w) (abs_runs w')"
  proof (cases "lg_view lg c (thread_of rid)")
    case None
    obtain out w1 c1 where call: "lg_invoke lg (build_graph svc) Continue (thread_of rid) (w, c) = (out, (w1, c1))" by (metis surj_pair)
    then obtain m where "out = Inl (Exc LibraryError m)" "w1 = w" using langgraph_ok_empty [OF lg None] by metis
    with advance_decides [of lg svc Continue r w c out w1 c1 r] call r arg adv
    have "abs_runs w' = (abs_runs w)(rid \<mapsto> (RFailed, None)) \<or> abs_runs w' = abs_runs w"
      by (auto simp: abs_runs_def fun_eq_iff outcome_status_def split: if_splits option.splits)
    then show ?thesis using here by (auto simp: moves_to_def settles_def stopped_def fun_upd_idem)
  next
    case (Some ck)
    have track: "on_graph (ck_next ck)" "on_track rid (ck_next ck) (ck_values ck) w"
      using th r Some by (simp_all add: thread_ok_def in_place_def)
    then have "ck_next ck = END \<or> ck_next ck \<in> fst ` set (g_nodes (build_graph svc))"
      unfolding on_graph_def step_names_iff by blast
    then have entry: "entry (build_graph svc) (lg_view lg c (thread_of rid)) Continue = Some (ck_next ck, ck_resume ck, ck_values ck)"
      unfolding entry_def Some by simp
    obtain out k w1 where d: "drives (build_graph svc) (ck_next ck) (ck_resume ck) (ck_values ck) w out k w1"
      "moves_to rid {case outcome_status (deliver out) of Some x \<Rightarrow> x | None \<Rightarrow> (RRunning, None)} (abs_runs w) (abs_runs w')"
      by (rule advance_settles [OF svc lg db r arg entry track(2) adv])
    have "\<exists>stop. stops_ahead out stop" using drives_to_next_gate [OF svc d(1)] track(1) unfolding on_graph_def by blast
    then show ?thesis using moves_to_mono [OF d(2), of "\<Union>(range settles)"] settles_ahead by blast
  qed
  then show ?thesis using here by simp
qed

lemma cancel_refines:
  assumes inv: "service_inv lg (w, c)" and run: "cancel_run rid (w, c) = (res, (w', c'))"
  shows "spec_step (Cancel rid) (abs_runs w) (abs_runs w')"
proof (cases "lookup_run w rid")
  case None
  then have "w' = w" using run by (auto simp: cancel_run_def mbind_apply on_db_get)
  with None show ?thesis by (simp add: abs_runs_def)
next
  case (Some r)
  consider "run_is_terminal r" | "status r \<in> {RPending, RPaused}" | "status r = RRunning"
    by (cases "status r") (auto simp: run_is_terminal_def is_terminal_iff)
  then show ?thesis
  proof cases
    case 1
    then have "w' = w" "status r \<notin> {RPending, RPaused}"
      using run Some by (auto simp: cancel_run_def mbind_apply on_db_get run_is_terminal_def is_terminal_iff)
    then show ?thesis using Some by (auto simp: abs_runs_def)
  next
    case 2
    then have alive: "\<not> run_is_terminal r" "RCancelled \<in> ALLOWED_RUN_TRANSITIONS (status r)"
      by (auto simp: run_is_terminal_def is_terminal_iff)
    obtain r1 w1 where "set_status rid RCancelled None None None w = (Inr r1, w1)" "lookup_run w1 = (lookup_run w)(rid \<mapsto> r1)"
      "status r1 = RCancelled" "pause_reason r1 = None"
      by (rule set_status_allowed [where p = None and f = None and d = None, OF Some alive(2)])
    then show ?thesis using 2 alive(1) run Some lookup_run_id [OF Some]
      by (auto simp: cancel_run_def mbind_apply on_db_apply runs_get_eq abs_runs_def fun_eq_iff)
  next
    case 3
    then have "\<not> run_is_terminal r" by (simp add: run_is_terminal_def is_terminal_iff)
    then have "request_cancel rid w = (res, w')" using 3 run Some lookup_run_id [OF Some]
      by (auto simp: cancel_run_def mbind_apply on_db_apply runs_get_eq split: prod.splits)
    then have "abs_runs w' = abs_runs w" using Some
      by (auto simp: request_cancel_eq Let_def lookup_run_def tfind_tupdate abs_runs_def fun_eq_iff)
    with 3 Some show ?thesis by (simp add: abs_runs_def)
  qed
qed

lemma serve_refines:
  assumes svc: "app_services svc" and lg: "langgraph_ok lg (build_graph svc)" and inv: "service_inv lg (w, c)"
    and run: "serve lg svc req (w, c) = (res, (w', c'))"
  shows "spec_step req (abs_runs w) (abs_runs w')"
proof (cases req)
  case (Start emp ms mc)
  then show ?thesis using start_refines [OF svc lg inv] run by simp
next
  case (Approve rid by_whom nte)
  then show ?thesis using resolve_refines [OF svc lg inv] run by (fastforce simp: approve_def)
next
  case (Reject rid by_whom nte)
  then show ?thesis using resolve_refines [OF svc lg inv] run by (fastforce simp: reject_def)
next
  case (Sign rid doc signed)
  then show ?thesis using sign_refines [OF svc lg inv] run by fastforce
next
  case (ResumeRun rid)
  then show ?thesis using resume_refines [OF svc lg inv] run by fastforce
next
  case (Cancel rid)
  then show ?thesis using cancel_refines [OF inv] run by simp
qed

end
