(* ===== verification/Sample_History.thy ===== *)
theory Sample_History
  imports Lifecycle_Spec
begin

text \<open>
  One complete history played through the model and observed: the run is started, the process
  dies between the IAM provider's effect and the ledger's record of it, another process resumes
  and finishes.  It is the concrete state in which the properties of reachable states are
  instantiated.
\<close>

section \<open>Fixtures\<close>

definition no_threads :: "string \<Rightarrow> checkpoint option" where
  "no_threads = (\<lambda>t. None)"

definition fresh_world :: world where
  "fresh_world = empty_world (\<lambda>n. n) (\<lambda>n. show_int (int n))"

definition sample_history :: "event list" where
  "sample_history =
     [Ask (Start ''emp-003'' 20 30),
      Restart \<lparr>remaining_failures = 0, fail_permanently = False, crash_after_apply = True\<rparr> 0,
      Ask (Approve ''run_0'' ''hr'' None),
      Restart no_faults 0,
      Ask (Approve ''run_0'' ''hr'' None), Ask (ResumeRun ''run_0''), Ask (Sign ''run_0'' ''doc'' None), Ask (Cancel ''run_0'')]"

definition sample_end :: "(exc + run) list \<times> world \<times> (string \<Rightarrow> checkpoint option)" where
  "sample_end = play linear_engine sample_services sample_history (fresh_world, no_threads)"

definition observed :: "(exc + run) list \<times> world \<times> 'c \<Rightarrow>
    (exc_class + run_status) list \<times> (string \<times> step_status) list \<times> (string \<times> string) list \<times> (string \<times> run_status \<times> int \<times> int) list" where
  "observed = (\<lambda>(rs, (w, c)). (map (map_sum exc_class_of status) rs, map (\<lambda>a. (att_step a, att_status a)) (trace_tbl w),
     map (\<lambda>e. (provider e, provider_key e)) (provider_tbl w), map (\<lambda>r. (run_id r, status r, step_count r, tool_call_count r)) (runs_tbl w)))"

text \<open>
  The IAM call lands and the process dies before the ledger hears of it; the duplicate approval is
  refused, the run is resumed, and everything is applied once.
\<close>

lemma sample_end_observed: "observed sample_end =
   ([Inr RPaused, Inl SimulatedProcessDeath, Inl InvalidRunOperation, Inr RPaused, Inr RCompleted,
     Inl InvalidRunOperation],
    [(''fetch_employee'', SCompleted), (''plan_deprovisioning'', SCompleted), (''await_hr_approval'', SPaused),
     (''await_hr_approval'', SCompleted), (''revoke_access'', SRunning), (''revoke_access'', SCompleted),
     (''send_exit_paperwork'', SCompleted), (''await_signed_document'', SPaused),
     (''await_signed_document'', SCompleted), (''finalize'', SCompleted)],
    [(''iam'', ''run_0:revoke_access:revoke_all_systems''), (''documents'', ''run_0:send_exit_paperwork:send_packet''),
     (''archive'', ''run_0:finalize:archive'')],
    [(''run_0'', RCompleted, 10, 5)])"
  by code_simp

lemma linear_view [simp]: "lg_view linear_engine c t = c t"
  by (simp add: linear_engine_def)

lemma sample_end_facts:
  obtains rs w c where "sample_end = (rs, (w, c))" "reachable linear_engine sample_services no_threads (w, c)"
    "lookup_provider w ''iam'' (revoke_key ''run_0'') \<noteq> None" "\<exists>r. lookup_run w ''run_0'' = Some r \<and> status r = RCompleted"
proof -
  obtain rs w c where e: "sample_end = (rs, (w, c))" by (metis surj_pair)
  have "reachable linear_engine sample_services no_threads (snd sample_end)"
    unfolding sample_end_def fresh_world_def by (intro play_reachable new_database)
  moreover have "(''iam'', revoke_key ''run_0'') \<in> effect_id ` set (provider_tbl w)"
  proof -
    have "(''iam'', revoke_key ''run_0'') \<in> set (map (\<lambda>e. (provider e, provider_key e)) (provider_tbl w))"
      using sample_end_observed by (simp add: e observed_def revoke_key_def build_key_def)
    then show ?thesis by (simp add: effect_id_def)
  qed
  moreover obtain r where r: "runs_tbl w = [r]" "run_id r = ''run_0''" "status r = RCompleted"
    using sample_end_observed by (auto simp: e observed_def)
  have "lookup_run w ''run_0'' = Some r" using r by (simp add: lookup_run_def tfind_Cons)
  ultimately have "reachable linear_engine sample_services no_threads (w, c)"
      "lookup_provider w ''iam'' (revoke_key ''run_0'') \<noteq> None"
    by (simp_all add: e provider_recorded_iff)
  then show ?thesis using e r(3) \<open>lookup_run w ''run_0'' = Some r\<close> by (intro that) blast+
qed

end
