(* ===== verification/Service_Behaviour.thy ===== *)
theory Service_Behaviour
  imports Sample_History
begin

text \<open>
  What the run service guarantees of every database it can be asked into, whatever requests come
  in whatever order.  The engine is any that keeps LangGraph's contract; a fresh database has no
  threads.
\<close>

section \<open>Safety\<close>

text \<open>
  C1. No access is revoked without an approval on record: in every reachable state, if the IAM
  provider has recorded the revocation of a run, the run's trace holds a completed attempt of the
  approval gate whose detail says it was approved.
\<close>

theorem no_revocation_without_approval:
  assumes "app_services svc" and "langgraph_ok lg (build_graph svc)" and "\<And>t. lg_view lg c0 t = None"
    and "reachable lg svc c0 (w, c)" and "lookup_provider w ''iam'' (revoke_key rid) \<noteq> None"
  shows "\<exists>a \<in> set (trace_tbl w). att_run a = rid \<and> att_step a = step_value AWAIT_HR_APPROVAL
    \<and> att_status a = SCompleted \<and> (\<exists>d. detail a = PDict d \<and> map_of d ''approved'' = Some (PBool True))"
  using service_invD(2) [OF reachable_inv [OF assms(1-4)]] assms(5) by (simp add: gate_kept_def approved_row_def)

theorem no_revocation_without_approval_witness:
  "\<exists>rs w c. sample_end = (rs, (w, c)) \<and> lookup_provider w ''iam'' (revoke_key ''run_0'') \<noteq> None
    \<and> (\<exists>a \<in> set (trace_tbl w). att_run a = ''run_0'' \<and> att_step a = ''await_hr_approval'' \<and> att_status a = SCompleted)"
proof -
  obtain rs w c where e: "sample_end = (rs, (w, c))" "reachable linear_engine sample_services no_threads (w, c)"
    "lookup_provider w ''iam'' (revoke_key ''run_0'') \<noteq> None"
    by (rule sample_end_facts)
  have "\<exists>a \<in> set (trace_tbl w). att_run a = ''run_0'' \<and> att_step a = step_value AWAIT_HR_APPROVAL
      \<and> att_status a = SCompleted \<and> (\<exists>d. detail a = PDict d \<and> map_of d ''approved'' = Some (PBool True))"
    by (rule no_revocation_without_approval [OF sample_app_services linear_engine_ok _ e(2,3)]) (simp add: no_threads_def)
  with e(1,3) show ?thesis by auto
qed

text \<open>
  C6. A completed run went through everything: in every reachable state a COMPLETED run has, for
  every step of the workflow, a completed attempt of that step in its trace, and its approval is
  on record.
\<close>

theorem completed_runs_took_every_step:
  assumes "app_services svc" and "langgraph_ok lg (build_graph svc)" and "\<And>t. lg_view lg c0 t = None"
    and "reachable lg svc c0 (w, c)" and "lookup_run w rid = Some r" and "status r = RCompleted"
  shows "approved_row rid w \<and> (\<forall>s. done_row rid (step_value s) w)"
proof -
  have "thread_ok lg w c rid" using service_invD(3) [OF reachable_inv [OF assms(1-4)]] .
  then have "\<exists>v. on_track rid END v w"
    using assms(5,6) by (auto simp: thread_ok_def in_place_def)
  then obtain v where "on_track rid END v w" by blast
  then have "approved_row rid w" "\<forall>x \<in> step_value ` set (map fst WORKFLOW). done_row rid x w"
    by (auto simp: on_track_def after_gate_def)
  moreover have "s \<in> set (map fst WORKFLOW)" for s by (cases s) (simp_all add: WORKFLOW_def)
  ultimately show ?thesis by blast
qed

theorem completed_runs_took_every_step_witness:
  "\<exists>rs w c. sample_end = (rs, (w, c)) \<and> approved_row ''run_0'' w \<and> done_row ''run_0'' ''finalize'' w"
proof -
  obtain rs w c where e: "sample_end = (rs, (w, c))" "reachable linear_engine sample_services no_threads (w, c)"
    "\<exists>r. lookup_run w ''run_0'' = Some r \<and> status r = RCompleted"
    by (rule sample_end_facts)
  then obtain r where r: "lookup_run w ''run_0'' = Some r" "status r = RCompleted" by blast
  have "approved_row ''run_0'' w \<and> (\<forall>s. done_row ''run_0'' (step_value s) w)"
    by (rule completed_runs_took_every_step [OF sample_app_services linear_engine_ok _ e(2) r]) (simp add: no_threads_def)
  then have "approved_row ''run_0'' w" "done_row ''run_0'' (step_value FINALIZE) w" by blast+
  with e(1) show ?thesis by auto
qed

text \<open>
  C2. The service refines its specification: from every reachable state, whatever a request does to
  the runs, through the graph, its nodes and the tools, is one step of the two-gate life cycle.
  In particular approving takes a run no further than the signature gate, rejecting never lets it
  go on, signing is the only way to COMPLETED short of resuming a died process, requests that do
  not fit leave every run as it was and no request touches another run.
\<close>

theorem service_refines_the_lifecycle:
  assumes "app_services svc" and "langgraph_ok lg (build_graph svc)" and "\<And>t. lg_view lg c0 t = None"
    and "reachable lg svc c0 (w, c)" and "serve lg svc req (w, c) = (res, (w', c'))"
  shows "spec_step req (abs_runs w) (abs_runs w')"
  using serve_refines [OF assms(1,2) reachable_inv [OF assms(1-4)] assms(5)] .

theorem service_refines_the_lifecycle_witness:
  "\<exists>w c w' c' res. reachable linear_engine sample_services no_threads (w, c)
    \<and> serve linear_engine sample_services (Cancel ''run_0'') (w, c) = (res, (w', c'))
    \<and> abs_runs w ''run_0'' = Some (RCompleted, None) \<and> abs_runs w' = abs_runs w"
proof -
  obtain rs w c where e: "reachable linear_engine sample_services no_threads (w, c)"
    "\<exists>r. lookup_run w ''run_0'' = Some r \<and> status r = RCompleted"
    by (rule sample_end_facts)
  have fresh: "lg_view linear_engine no_threads t = None" for t by (simp add: no_threads_def)
  obtain res w' c' where s: "serve linear_engine sample_services (Cancel ''run_0'') (w, c) = (res, (w', c'))"
    by (metis surj_pair)
  have "spec_step (Cancel ''run_0'') (abs_runs w) (abs_runs w')"
    by (rule service_refines_the_lifecycle [OF sample_app_services linear_engine_ok fresh e(1) s])
  moreover obtain r where r: "lookup_run w ''run_0'' = Some r" "status r = RCompleted" using e(2) by blast
  moreover have "run_ok r"
    using db_inv_run [OF service_invD(1) [OF reachable_inv [OF sample_app_services linear_engine_ok fresh e(1)]] r(1)] .
  ultimately have "abs_runs w ''run_0'' = Some (RCompleted, None)" "abs_runs w' = abs_runs w"
    by (auto simp: abs_runs_def run_ok_def)
  with e(1) s show ?thesis by blast
qed

text \<open>
  C7. The database is always consistent, also after processes died anywhere, between the transactions
  of a request too: in every reachable state run ids are distinct, a run has a pause reason exactly
  while PAUSED and a failure reason exactly when FAILED, no run has spent more steps or tool calls
  than its allowance, the attempts of every step are numbered from one without a gap, and no secret is
  stored with an attempt.  The engine's checkpoints agree: a run that does not exist or is PENDING has
  no thread, a PAUSED one waits at the gate of its pause reason, a COMPLETED one is at the end, and
  wherever the thread of any run stands, it is before a step of the workflow or at the end, every step
  behind it has a completed attempt on record, and so has the approval once its gate is behind it.
\<close>

theorem reachable_database_is_consistent:
  assumes "app_services svc" and "langgraph_ok lg (build_graph svc)" and "\<And>t. lg_view lg c0 t = None"
    and "reachable lg svc c0 (w, c)"
  shows "distinct (map run_id (runs_tbl w)) \<and> (\<forall>r \<in> set (runs_tbl w). run_ok r) \<and> trace_wf w \<and> trace_redacted w
    \<and> (\<forall>rid. lookup_run w rid = None \<longrightarrow> lg_view lg c (thread_of rid) = None)
    \<and> (\<forall>rid r. lookup_run w rid = Some r \<longrightarrow>
        (status r = RPending \<longrightarrow> lg_view lg c (thread_of rid) = None)
      \<and> (status r = RPaused \<longrightarrow> (\<exists>ck reason. lg_view lg c (thread_of rid) = Some ck \<and> pause_reason r = Some reason
          \<and> ck_next ck = step_value (gate_of reason)))
      \<and> (status r = RCompleted \<longrightarrow> (\<exists>ck. lg_view lg c (thread_of rid) = Some ck \<and> ck_next ck = END))
      \<and> (\<forall>ck. lg_view lg c (thread_of rid) = Some ck \<longrightarrow> on_graph (ck_next ck)
          \<and> (\<forall>s \<in> steps_before (ck_next ck). done_row rid s w) \<and> (ck_next ck \<in> after_gate \<longrightarrow> approved_row rid w)))"
proof -
  note inv = reachable_inv [OF assms]
  have db: "distinct (map run_id (runs_tbl w))" "\<forall>r \<in> set (runs_tbl w). run_ok r" "trace_wf w" "trace_redacted w"
    using service_invD(1) [OF inv] by (simp_all add: db_inv_def runs_wf_def)
  have none: "lg_view lg c (thread_of rid) = None" if "lookup_run w rid = None" for rid
    using service_invD(3) [OF inv, of rid] that by (simp add: thread_ok_def)
  note some = service_invD(3) [OF inv, unfolded thread_ok_def in_place_def on_track_def]
  show ?thesis
  proof (intro conjI allI impI)
    fix rid r assume r: "lookup_run w rid = Some r"
    note some = some [of rid, unfolded r option.case]
    show "status r = RPending \<Longrightarrow> lg_view lg c (thread_of rid) = None"
      "status r = RPaused \<Longrightarrow> \<exists>ck reason. lg_view lg c (thread_of rid) = Some ck \<and> pause_reason r = Some reason
        \<and> ck_next ck = step_value (gate_of reason)"
      "status r = RCompleted \<Longrightarrow> \<exists>ck. lg_view lg c (thread_of rid) = Some ck \<and> ck_next ck = END"
      using some by blast+
    fix ck assume "lg_view lg c (thread_of rid) = Some ck"
    with some show "on_graph (ck_next ck)" "\<forall>s \<in> steps_before (ck_next ck). done_row rid s w"
        "ck_next ck \<in> after_gate \<Longrightarrow> approved_row rid w"
      by blast+
  qed (rule db none; assumption?)+
qed

theorem reachable_database_is_consistent_witness:
  "\<exists>rs w c. sample_end = (rs, (w, c)) \<and> distinct (map run_id (runs_tbl w)) \<and> trace_wf w \<and> trace_redacted w"
proof -
  obtain rs w c where e: "sample_end = (rs, (w, c))" "reachable linear_engine sample_services no_threads (w, c)"
    by (rule sample_end_facts)
  have fresh: "lg_view linear_engine no_threads t = None" for t by (simp add: no_threads_def)
  show ?thesis
    using reachable_database_is_consistent [OF sample_app_services linear_engine_ok fresh e(2)] e(1) by auto
qed

text \<open>
  C11. Nothing recorded is ever taken back: a request served from a reachable state lets every run
  only evolve along the transition table (its identity, employee and allowances fixed, its counters
  and cancellation flag never going down, a terminal status final), only appends attempts to the
  trace or closes open ones, and never changes an effect a provider has applied.
\<close>

theorem requests_take_nothing_back:
  assumes "app_services svc" and "langgraph_ok lg (build_graph svc)" and "\<And>t. lg_view lg c0 t = None"
    and "reachable lg svc c0 (w, c)" and "serve lg svc req (w, c) = (res, (w', c'))"
  shows "trace_extends w w' \<and> provider_keeps w w' \<and> (\<forall>rid r. lookup_run w rid = Some r \<longrightarrow>
    (\<exists>r'. lookup_run w' rid = Some r' \<and> run_evolves r r' \<and> (is_terminal (status r) \<longrightarrow> status r' = status r)))"
proof -
  note inv = reachable_inv [OF assms(1-4)]
  have safe: "safe_step w w'" using serve_keeps [OF assms(1,2) inv assms(5)] by simp
  have "trace_extends w w'" using safe_stepD(3) [OF safe] service_invD(1) [OF inv] by (simp add: db_inv_def)
  moreover have "provider_keeps w w'" using safe by (simp add: safe_step_def)
  moreover have "runs_evolve w w'" using safe by (simp add: safe_step_def)
  ultimately show ?thesis using run_evolves_terminal unfolding runs_evolve_def by blast
qed

theorem requests_take_nothing_back_witness:
  "\<exists>w c w' c' res r'. reachable linear_engine sample_services no_threads (w, c)
    \<and> serve linear_engine sample_services (ResumeRun ''run_0'') (w, c) = (res, (w', c'))
    \<and> trace_extends w w' \<and> lookup_run w' ''run_0'' = Some r' \<and> status r' = RCompleted"
proof -
  obtain rs w c where e: "reachable linear_engine sample_services no_threads (w, c)"
    "\<exists>r. lookup_run w ''run_0'' = Some r \<and> status r = RCompleted"
    by (rule sample_end_facts)
  have fresh: "lg_view linear_engine no_threads t = None" for t by (simp add: no_threads_def)
  obtain res w' c' where s: "serve linear_engine sample_services (ResumeRun ''run_0'') (w, c) = (res, (w', c'))"
    by (metis surj_pair)
  have "is_terminal RCompleted" by (simp add: is_terminal_iff)
  with requests_take_nothing_back [OF sample_app_services linear_engine_ok fresh e(1) s] e s show ?thesis by metis
qed

section \<open>How a drive of the graph is recorded\<close>

text \<open>
  What each outcome means for the run, as the table the documentation of the service gives:
  status, pause reason, and failure reason with the message; \<open>None\<close> where the exception goes on.
\<close>

fun class_verdict :: "exc_class \<Rightarrow> (run_status \<times> failure_reason option) option" where
  "class_verdict RunCancelled = Some (RCancelled, None)"
| "class_verdict ApprovalRejected = Some (RFailed, Some APPROVAL_REJECTED)"
| "class_verdict BudgetExceeded = Some (RFailed, Some BUDGET_EXCEEDED)"
| "class_verdict ToolNotAllowed = Some (RFailed, Some TOOL_NOT_ALLOWED)"
| "class_verdict InvalidPlan = Some (RFailed, Some INVALID_PLAN)"
| "class_verdict SideEffectReconciliationRequired = Some (RFailed, Some NEEDS_RECONCILIATION)"
| "class_verdict ToolError = Some (RFailed, Some TOOL_FAILED)"
| "class_verdict TransientToolError = Some (RFailed, Some TOOL_FAILED)"
| "class_verdict PermanentToolError = Some (RFailed, Some TOOL_FAILED)"
| "class_verdict _ = None"

definition pause_verdict :: "pyval \<Rightarrow> pause_reason option" where
  "pause_verdict p = (case p of
     PDict d \<Rightarrow> if map_of d ''pause_reason'' = Some (PStr ''hr_approval'') then Some HR_APPROVAL
       else if map_of d ''pause_reason'' = Some (PStr ''signed_document'') then Some SIGNED_DOCUMENT else None
   | _ \<Rightarrow> None)"

definition verdict :: "exc + invoke_result \<Rightarrow> (run_status \<times> pause_reason option \<times> (failure_reason \<times> string) option) option" where
  "verdict out = (case out of
     Inr v \<Rightarrow> (case res_interrupts v of
         [] \<Rightarrow> Some (RCompleted, None, None)
       | p # _ \<Rightarrow> map_option (\<lambda>reason. (RPaused, Some reason, None)) (pause_verdict p))
   | Inl e \<Rightarrow> map_option (\<lambda>(s, reason). (s, None, map_option (\<lambda>x. (x, exc_message e)) reason)) (class_verdict (exc_class_of e)))"

lemma class_verdict_is_failure_for:
  "class_verdict (exc_class_of e) = (if is_instance e RunCancelled then Some (RCancelled, None)
     else map_option (\<lambda>reason. (RFailed, Some reason)) (failure_for e))"
proof -
  have "class_verdict c = (if is_subclass c RunCancelled then Some (RCancelled, None)
     else map_option (\<lambda>reason. (RFailed, Some reason)) (failure_for (Exc c [])))" for c
    by (cases c; hypsubst; code_simp)
  moreover have "failure_for (Exc (exc_class_of e) []) = failure_for e"
    by (simp add: failure_for_def is_instance_def)
  ultimately show ?thesis by (simp add: is_instance_def)
qed

lemma pause_verdict_is_requested: "pause_verdict p = (case requested_pause p of Inr reason \<Rightarrow> Some reason | Inl e \<Rightarrow> None)"
  by (cases p) (auto simp: pause_verdict_def requested_pause_def py_item_def sum_bind_def pause_reason_of_def
      split: option.splits pyval.splits sum.splits)

lemma verdict_split:
  "outcome_status out = map_option (\<lambda>(s, p, f). (s, p)) (verdict out)
   \<and> failed_with out = Option.bind (verdict out) (\<lambda>(s, p, f). f)"
proof (cases out)
  case (Inl e)
  then show ?thesis
    by (cases "failure_for e") (simp_all add: outcome_status_def failed_with_def verdict_def class_verdict_is_failure_for)
next
  case (Inr v)
  then show ?thesis
    by (auto simp: outcome_status_def failed_with_def verdict_def pause_verdict_is_requested split: list.splits sum.splits)
qed

text \<open>
  C16. The outcome of the graph alone decides the status: with the run RUNNING when the graph
  returns, \<open>_advance\<close> completes it on a normal return, pauses it with the reason of the first
  interrupt, cancels it on \<open>RunCancelled\<close>, fails it with the reason of the exception's class and
  the exception's message, and changes no other run; an exception outside the table, a died
  process among them, goes on as it is and the run stays RUNNING.
\<close>

theorem outcome_decides_the_status:
  assumes "lg_invoke lg (build_graph svc) inp (thread_id r) (w, c) = (out, (w1, c1))"
    and "lookup_run w1 (run_id r) = Some r1" and "status r1 = RRunning"
  shows "case verdict out of
      None \<Rightarrow> \<exists>e. advance lg svc r inp (w, c) = (Inl e, (w1, c1)) \<and> (\<forall>x. out = Inl x \<longrightarrow> e = x)
    | Some (s, p, f) \<Rightarrow> \<exists>r' w'. advance lg svc r inp (w, c) = (Inr (), (w', c1))
        \<and> lookup_run w' = (lookup_run w1)(run_id r \<mapsto> r') \<and> status r' = s \<and> pause_reason r' = p
        \<and> (case f of Some (reason, m) \<Rightarrow> failure_reason r' = Some reason \<and> failure_detail r' = Some m
           | None \<Rightarrow> failure_reason r' = failure_reason r1 \<and> failure_detail r' = failure_detail r1)"
proof (cases "verdict out")
  case None
  then have gone: "outcome_status out = None" by (simp add: verdict_split)
  then obtain e where "advance lg svc r inp (w, c) = (Inl e, (w1, c1))" using advance_decides [OF assms] by auto
  moreover have "e = x" if "out = Inl x" for x
    using calculation gone assms(1) that
    by (auto simp: advance_def mtry_apply outcome_status_def split: if_splits option.splits)
  ultimately show ?thesis using None by auto
next
  case (Some v)
  obtain s p f where v: "v = (s, p, f)" by (cases v)
  then have "outcome_status out = Some (s, p)" "failed_with out = f" using Some by (simp_all add: verdict_split)
  then show ?thesis using advance_decides [OF assms] Some v by fastforce
qed

text \<open>An engine whose every invocation ends in the given way.\<close>

definition ending_with :: "exc + invoke_result \<Rightarrow> unit langgraph" where
  "ending_with out = \<lparr>lg_invoke = (\<lambda>g inp t s. (out, s)), lg_view = (\<lambda>c t. None)\<rparr>"

theorem outcome_decides_the_status_witness:
  "\<exists>r' w'. advance (ending_with (Inl (Exc InvalidPlan ''empty''))) sample_services sample_run Continue (sample_world, ()) =
     (Inr (), (w', ())) \<and> lookup_run w' ''r1'' = Some r' \<and> status r' = RFailed
    \<and> failure_reason r' = Some INVALID_PLAN \<and> failure_detail r' = Some ''empty''"
proof -
  have run: "lookup_run sample_world (run_id sample_run) = Some sample_run" "status sample_run = RRunning" "run_id sample_run = ''r1''"
    by (simp_all add: lookup_run_def tfind_Cons sample_run_def)
  have "verdict (Inl (Exc InvalidPlan ''empty'')) = Some (RFailed, None, Some (INVALID_PLAN, ''empty''))"
    by (simp add: verdict_def)
  moreover have "lg_invoke (ending_with (Inl (Exc InvalidPlan ''empty''))) (build_graph sample_services) Continue
      (thread_id sample_run) (sample_world, ()) = (Inl (Exc InvalidPlan ''empty''), (sample_world, ()))"
    by (simp add: ending_with_def)
  ultimately show ?thesis using outcome_decides_the_status [OF _ run(1,2)] run(3) by fastforce
qed
end
