(* ===== verification/Abandoned_Runs.thy ===== *)
theory Abandoned_Runs
  imports Service_Behaviour
begin

text \<open>
  A run whose process died between the transaction that made it RUNNING and the first checkpoint of
  its thread.  Nothing the service offers gets such a run anywhere.
\<close>

section \<open>No request reaches it\<close>

definition abandoned :: "'c langgraph \<Rightarrow> string \<Rightarrow> world \<times> 'c \<Rightarrow> bool" where
  "abandoned lg rid = (\<lambda>(w, c). (\<exists>r. lookup_run w rid = Some r \<and> status r = RRunning) \<and> lg_view lg c (thread_of rid) = None)"

lemma abandoned_kept:
  assumes "abandoned lg rid (w, c)" and "map_option status (lookup_run w' rid) = map_option status (lookup_run w rid)"
    and "lg_view lg c' (thread_of rid) = lg_view lg c (thread_of rid)"
  shows "abandoned lg rid (w', c')"
  using assms by (cases "lookup_run w' rid") (auto simp: abandoned_def)

text \<open>The parts of a request that may be about it: all that is left are a resumption and the cancellation flag.\<close>

fun passes_by :: "string \<Rightarrow> request \<Rightarrow> phase \<Rightarrow> bool" where
  "passes_by rid req (Decided r) \<longleftrightarrow> run_id r \<noteq> rid"
| "passes_by rid req (Claimed r) \<longleftrightarrow> run_id r = rid \<longrightarrow> (\<exists>x. req = ResumeRun x)"
| "passes_by rid req (Invoked r out) \<longleftrightarrow> run_id r = rid \<longrightarrow> (\<exists>m. out = Inl (Exc LibraryError m))"
| "passes_by rid req ph \<longleftrightarrow> True"

interpretation elsewhere: guarantee "\<lambda>w w'. lookup_run w' rid = lookup_run w rid" for rid
  by (rule guarantee_frame)

lemma set_status_elsewhere: "x \<noteq> rid \<Longrightarrow> guar (\<lambda>w w'. lookup_run w' rid = lookup_run w rid) (set_status x t p f d)"
  by (auto simp: guar_def set_status_eq Let_def lookup_run_def tfind_tupdate split: option.splits sum.splits)

lemma record_elsewhere: "run_id r \<noteq> rid \<Longrightarrow> guar (\<lambda>w w'. lookup_run w' rid = lookup_run w rid) (record_outcome r out)"
  unfolding record_outcome_def fail_run_def
  by (auto intro!: elsewhere.guar_intros set_status_elsewhere split: sum.splits option.splits list.splits)

lemma create_elsewhere:
  assumes "runs_wf w" and "lookup_run w rid \<noteq> None" and "runs_create emp None ms mc w = (res, w')"
  shows "lookup_run w' rid = lookup_run w rid" and "res = Inr r \<Longrightarrow> run_id r \<noteq> rid"
  using assms(1)
proof (induction rule: runs_create_cases [where emp = emp and given = None and ms = ms and mc = mc])
  case (collision x n w1)
  { case 1 show ?case using collision assms by simp }
  { case 2 show ?case using collision assms 2 by simp }
next
  case (created x n t)
  { case 1 show ?case using created assms by (auto simp: lookup_run_def tfind_append) }
  { case 2 show ?case using created assms 2 by auto }
qed

text \<open>An invocation keeps every run's life cycle and every other run's thread.\<close>

lemma invocation_elsewhere:
  assumes svc: "app_services svc" and lg: "langgraph_ok lg (build_graph svc)" and inv: "service_inv lg (w, c)"
    and start: "inp = Continue \<and> lg_view lg c t = None
      \<or> (\<exists>s rv v. entry (build_graph svc) (lg_view lg c t) inp = Some (s, rv, v) \<and> on_track x s v w)"
    and run: "lg_invoke lg (build_graph svc) inp t (w, c) = (out, (w1, c1))" and other: "u \<noteq> t"
  shows "lifecycle_kept w w1 \<and> lg_view lg c1 u = lg_view lg c u"
  using start
proof (elim disjE exE conjE)
  assume "inp = Continue" "lg_view lg c t = None"
  then show ?thesis using langgraph_ok_empty [OF lg] run lifecycle_steps.rel_refl by metis
next
  fix s rv v
  assume entry: "entry (build_graph svc) (lg_view lg c t) inp = Some (s, rv, v)" and track: "on_track x s v w"
  have wf: "trace_wf w" using service_invD(1) [OF inv] by (simp add: db_inv_def)
  obtain res ck where "drives (build_graph svc) s rv v w res ck w1" "lg_view lg c1 u = lg_view lg c u"
    using langgraph_okD [OF lg entry run] other by metis
  then show ?thesis using drives_on_track [OF svc _ wf service_invD(2) [OF inv] track] by blast
qed

lemma thread_of_inj [simp]: "thread_of x = thread_of y \<longleftrightarrow> x = y"
  by (simp add: thread_of_def)

lemma claimed_passes_by:
  assumes svc: "app_services svc" and lg: "langgraph_ok lg (build_graph svc)" and inv: "service_inv lg (w, c)"
    and ok: "phase_ok lg req (Claimed r) (w, c)" and left: "abandoned lg rid (w, c)" and past: "passes_by rid req (Claimed r)"
    and run: "micro lg svc req (Claimed r) (w, c) = (ph', s')"
  shows "abandoned lg rid s' \<and> passes_by rid req ph'"
proof -
  have r: "lookup_run w (run_id r) = Some r" using ok by simp
  obtain inp n where inp: "graph_input_of svc req r w = (Inr inp, w\<lparr>clock_reads := n\<rparr>)" "invokes_with req r inp"
    by (rule graph_input_eq)
  let ?w = "w\<lparr>clock_reads := n\<rparr>"
  have inv1: "service_inv lg (?w, c)" by (rule service_inv_same(1) [OF inv]; simp)
  have left1: "abandoned lg rid (?w, c)" using left by (rule abandoned_kept) simp_all
  obtain out w' c' where call: "lg_invoke lg (build_graph svc) inp (thread_of (run_id r)) (?w, c) = (out, (w', c'))"
    by (metis surj_pair)
  have result: "(ph', s') = (Invoked r out, (w', c'))"
    using run inp(1) call thread_id_of [OF service_invD(1) [OF inv] r]
    by (simp add: micro_def mbind_apply on_db_apply invocation_def)
  show ?thesis
  proof (cases "run_id r = rid")
    case True
    then have "inp = Continue" "lg_view lg c (thread_of (run_id r)) = None"
      using past inp(2) left by (auto simp: abandoned_def)
    then obtain m where "out = Inl (Exc LibraryError m)" "w' = ?w" "\<And>u. lg_view lg c' u = lg_view lg c u"
      using langgraph_ok_empty [OF lg] call by metis
    then show ?thesis using result abandoned_kept [OF left1] by simp
  next
    case False
    have r1: "lookup_run ?w (run_id r) = Some r" using r by simp
    have may: "may_invoke req (lg_view lg c (thread_of (run_id r)))" using ok by simp
    have "thread_of rid \<noteq> thread_of (run_id r)" using False by simp
    from invocation_elsewhere [OF svc lg inv1 may_invoke_entry [OF inv1 r1 refl may inp(2)] call this]
    have "lifecycle_kept ?w w' \<and> lg_view lg c' (thread_of rid) = lg_view lg c (thread_of rid)" .
    then have kept: "map_option lifecycle (lookup_run w' rid) = map_option lifecycle (lookup_run ?w rid)"
        "lg_view lg c' (thread_of rid) = lg_view lg c (thread_of rid)"
      unfolding lifecycle_kept_def by blast+
    have "abandoned lg rid (w', c')"
      using kept by (intro abandoned_kept [OF left1]) (cases "lookup_run w' rid"; cases "lookup_run ?w rid"; auto simp: lifecycle_def)+
    then show ?thesis using result False by simp
  qed
qed

lemma micro_passes_by:
  assumes svc: "app_services svc" and lg: "langgraph_ok lg (build_graph svc)" and inv: "service_inv lg s"
    and ok: "phase_ok lg req ph s" and left: "abandoned lg rid s" and past: "passes_by rid req ph"
    and run: "micro lg svc req ph s = (ph', s')"
  shows "abandoned lg rid s' \<and> passes_by rid req ph'"
proof -
  obtain w c where s: "s = (w, c)" by (cases s)
  obtain r0 where r0: "lookup_run w rid = Some r0" "status r0 = RRunning" using left by (auto simp: s abandoned_def)
  have wf: "runs_wf w" using service_invD(1) [OF inv [unfolded s]] by (simp add: db_inv_def)
  show ?thesis
  proof (cases ph)
    case Fresh
    show ?thesis
    proof (cases "run_of req")
      case None
      then obtain emp ms mc where req: "req = Start emp ms mc" by (cases req) auto
      obtain res w' where create: "runs_create emp None ms mc w = (res, w')" by (metis surj_pair)
      have "lookup_run w' rid = lookup_run w rid" "\<And>r. res = Inr r \<Longrightarrow> run_id r \<noteq> rid"
        using create_elsewhere [OF wf _ create] r0 by auto
      then show ?thesis using run Fresh req create left abandoned_kept [of lg rid w c w' c]
        by (cases res) (auto simp: s micro_def mbind_apply on_db_apply)
    next
      case (Some x)
      then have "s' = s \<and> passes_by rid req ph'"
        using run Fresh r0 lookup_run_id [of w x]
        by (cases req; cases "lookup_run w x"; auto simp: s micro_def mbind_apply mseq_apply on_db_get
              require_paused_for_def run_is_terminal_def raise_def split: if_splits)
      then show ?thesis using left by blast
    qed
  next
    case (Decided r)
    obtain t where t: "guar (\<lambda>w w'. lookup_run w' rid = lookup_run w rid) (set_status (run_id r) t None None None)"
        "next_part lg svc req (Decided r) = mbind (on_db (set_status (run_id r) t None None None)) (\<lambda>r.
           ret (case req of Cancel x \<Rightarrow> Returned (Inr r) | _ \<Rightarrow> Claimed r))"
      using past Decided set_status_elsewhere [of "run_id r" rid] by (cases req) auto
    obtain res w' where set: "set_status (run_id r) t None None None w = (res, w')" by (metis surj_pair)
    have "lookup_run w' rid = lookup_run w rid" using guarD' [OF t(1) set] .
    moreover have "run_id r' = run_id r" if "res = Inr r'" for r'
      using set that lookup_run_id [of w "run_id r"] by (auto simp: set_status_eq Let_def split: option.splits sum.splits)
    moreover have "(ph', s') = (case res of Inl e \<Rightarrow> Returned (Inl e)
        | Inr r \<Rightarrow> (case req of Cancel x \<Rightarrow> Returned (Inr r) | _ \<Rightarrow> Claimed r), (w', c))"
      using run set unfolding Decided s micro_def t(2) by (cases res) (simp_all add: mbind_apply on_db_apply)
    ultimately show ?thesis using past left abandoned_kept [of lg rid w c w' c]
      by (cases res) (auto simp: s Decided split: request.splits)
  next
    case (Flagging r)
    obtain res w' where flag: "request_cancel (run_id r) w = (res, w')" by (metis surj_pair)
    then have "map_option status (lookup_run w' rid) = map_option status (lookup_run w rid)"
      by (auto simp: request_cancel_eq Let_def lookup_run_def tfind_tupdate split: option.splits)
    then show ?thesis using run Flagging flag left abandoned_kept [of lg rid w c w' c]
      by (cases res) (auto simp: s micro_def mbind_apply on_db_apply)
  next
    case (Claimed r)
    then show ?thesis using claimed_passes_by [OF svc lg inv [unfolded s] _ left [unfolded s]] ok past run by (simp add: s)
  next
    case (Invoked r out)
    obtain res w' where rec: "record_outcome r out w = (res, w')" by (metis surj_pair)
    have "lookup_run w' rid = lookup_run w rid"
    proof (cases "run_id r = rid")
      case True
      then obtain m where "out = Inl (Exc LibraryError m)" using past Invoked by auto
      then show ?thesis using rec by (simp add: record_outcome_def failure_for_def raise_def)
    next
      case False
      from guarD' [OF record_elsewhere [OF False] rec] show ?thesis .
    qed
    then show ?thesis using run Invoked rec left abandoned_kept [of lg rid w c w' c]
      by (cases res) (auto simp: s micro_def mseq_apply on_db_apply)
  next
    case (Recorded r)
    then show ?thesis using run left
      by (cases "lookup_run w (run_id r)") (auto simp: s micro_def mbind_apply on_db_get)
  next
    case (Returned res)
    then show ?thesis using run left past by (auto simp: micro_def)
  qed
qed

lemma alone_passes_by:
  assumes svc: "app_services svc" and lg: "langgraph_ok lg (build_graph svc)"
  shows "service_inv lg s \<Longrightarrow> phase_ok lg req ph s \<Longrightarrow> abandoned lg rid s \<Longrightarrow> passes_by rid req ph \<Longrightarrow>
    alone n lg svc req ph s = (ph', s') \<Longrightarrow> abandoned lg rid s'"
proof (induction n arbitrary: ph s)
  case (Suc n)
  obtain ph1 s1 where one: "micro lg svc req ph s = (ph1, s1)" by (metis surj_pair)
  have "part_keeps lg req s ph1 s1" by (rule micro_keeps [OF svc lg Suc.prems(1,2) one])
  moreover have "abandoned lg rid s1 \<and> passes_by rid req ph1" by (rule micro_passes_by [OF svc lg Suc.prems(1-4) one])
  ultimately show ?case using Suc.IH [of s1 ph1] Suc.prems(5) one by simp
qed simp

lemma abandoned_stays:
  assumes svc: "app_services svc" and lg: "langgraph_ok lg (build_graph svc)" and inv: "service_inv lg s"
    and left: "abandoned lg rid s" and steps: "(happens lg svc)\<^sup>*\<^sup>* s s'"
  shows "service_inv lg s' \<and> abandoned lg rid s'"
  using steps
proof (induction rule: rtranclp_induct)
  case base
  show ?case using inv left by simp
next
  case (step s1 s2)
  have "abandoned lg rid s2" using step.hyps(2)
  proof (cases rule: happens_cases)
    case (parts n req ph)
    have "phase_ok lg req Fresh s1" by (cases s1) simp
    then show ?thesis using alone_passes_by [OF svc lg _ _ _ _ parts] step.IH by simp
  next
    case (restart w c faults n)
    then show ?thesis using step.IH by (auto intro: abandoned_kept)
  qed
  then show ?case using happens_keeps [OF svc lg _ step.hyps(2)] step.IH by blast
qed

text \<open>
  C25. A run whose process died before its first checkpoint is stuck for good.  Once a run is RUNNING
  without a thread (a \<open>start_run\<close> killed between the transaction that claims the run and LangGraph's
  first checkpoint), then whatever requests are served or killed afterwards and however often the
  process is restarted, it is still RUNNING and without a thread, and every request naming it raises,
  except \<open>cancel_run\<close>, which answers with the run still RUNNING and sets a flag no node will ever
  look at: it can be neither resumed, approved, signed, rejected nor cancelled.
\<close>

theorem abandoned_run_is_stuck:
  assumes "app_services svc" and "langgraph_ok lg (build_graph svc)" and "\<And>t. lg_view lg c0 t = None"
    and "reachable lg svc c0 (w, c)" and "lookup_run w rid = Some r" and "status r = RRunning"
    and "lg_view lg c (thread_of rid) = None" and "(happens lg svc)\<^sup>*\<^sup>* (w, c) (w', c')"
  shows "(\<exists>r'. lookup_run w' rid = Some r' \<and> status r' = RRunning) \<and> lg_view lg c' (thread_of rid) = None
    \<and> (\<forall>req. run_of req = Some rid \<longrightarrow>
        (if req = Cancel rid then \<exists>r'. fst (serve lg svc req (w', c')) = Inr r' \<and> status r' = RRunning
         else \<exists>e. fst (serve lg svc req (w', c')) = Inl e))"
proof -
  have left: "abandoned lg rid (w, c)" using assms(5-7) by (simp add: abandoned_def)
  have after: "service_inv lg (w', c')" "abandoned lg rid (w', c')"
    using abandoned_stays [OF assms(1,2) reachable_inv [OF assms(1-4)] left assms(8)] by simp_all
  obtain r' where r': "lookup_run w' rid = Some r'" "status r' = RRunning" and none: "lg_view lg c' (thread_of rid) = None"
    using after(2) by (auto simp: abandoned_def)
  have thread: "run_id r' = rid" "thread_id r' = thread_of rid"
    using lookup_run_id [OF r'(1)] thread_id_of [OF service_invD(1) [OF after(1)] r'(1)] by simp_all
  obtain out w1 c1 where call: "lg_invoke lg (build_graph svc) Continue (thread_id r') (w', c') = (out, (w1, c1))" by (metis surj_pair)
  then obtain m where "out = Inl (Exc LibraryError m)" "w1 = w'" using langgraph_ok_empty [OF assms(2) none] thread by metis
  then have resume: "advance lg svc r' Continue (w', c') = (Inl (Exc LibraryError m), (w', c1))"
    using call by (simp add: advance_def mtry_apply failure_for_def raise_def)
  have "if req = Cancel rid then \<exists>r'. fst (serve lg svc req (w', c')) = Inr r' \<and> status r' = RRunning
      else \<exists>e. fst (serve lg svc req (w', c')) = Inl e" if "run_of req = Some rid" for req
    using that r' thread resume
    by (cases req) (auto simp: approve_def reject_def resolve_approval_def submit_signed_document_def resume_run_def cancel_run_def
        mbind_apply mseq_apply on_db_apply runs_get_eq require_paused_for_def run_is_terminal_def is_terminal_iff request_cancel_eq Let_def)
  with r' none show ?thesis by blast
qed

lemma play_happens: "(happens lg svc)\<^sup>*\<^sup>* s (snd (play lg svc es s))"
proof (induction lg svc es s rule: play.induct)
  case (2 lg svc req es s)
  obtain r s1 where run: "serve lg svc req s = (r, s1)" by (metis surj_pair)
  then have "happens lg svc s s1" by (rule serving)
  then show ?case using 2 run by (simp add: case_prod_beta converse_rtranclp_into_rtranclp)
next
  case (3 lg svc faults n es w c)
  have "happens lg svc (w, c) (w\<lparr>iam := faults, paperwork_failures := n\<rparr>, c)" by (rule restarting)
  with 3 show ?case by (simp add: converse_rtranclp_into_rtranclp)
qed simp

text \<open>A start killed after its second transaction, then resumed, restarted and cancelled.\<close>

definition killed_start :: "phase \<times> world \<times> (string \<Rightarrow> checkpoint option)" where
  "killed_start = alone 2 linear_engine sample_services (Start ''emp-003'' 20 30) Fresh (fresh_world, no_threads)"

definition later :: "world \<times> (string \<Rightarrow> checkpoint option)" where
  "later = snd (play linear_engine sample_services [Ask (ResumeRun ''run_0''), Restart no_faults 0, Ask (Start ''emp-001'' 20 30)] (snd killed_start))"

lemma killed_start_observed:
  "map_option status (lookup_run (fst (snd killed_start)) ''run_0'') = Some RRunning \<and> snd (snd killed_start) (thread_of ''run_0'') = None"
  by code_simp

theorem abandoned_run_is_stuck_witness:
  "\<exists>r. fst (serve linear_engine sample_services (Cancel ''run_0'') later) = Inr r \<and> status r = RRunning"
proof -
  obtain w c where k: "snd killed_start = (w, c)" by (cases "snd killed_start")
  have fresh: "lg_view linear_engine no_threads t = None" for t by (simp add: no_threads_def)
  obtain w' c' where l: "later = (w', c')" by (cases later)
  have "alone 2 linear_engine sample_services (Start ''emp-003'' 20 30) Fresh (fresh_world, no_threads) = (fst killed_start, (w, c))"
    using k by (simp add: killed_start_def prod_eq_iff)
  then have reach: "reachable linear_engine sample_services no_threads (w, c)"
    unfolding fresh_world_def by (intro killed [OF new_database])
  obtain r where r: "lookup_run w ''run_0'' = Some r" "status r = RRunning" and none: "lg_view linear_engine c (thread_of ''run_0'') = None"
    using killed_start_observed by (auto simp: k linear_engine_def)
  have "(happens linear_engine sample_services)\<^sup>*\<^sup>* (w, c) later" unfolding later_def k by (rule play_happens)
  then have "(happens linear_engine sample_services)\<^sup>*\<^sup>* (w, c) (w', c')" by (simp only: l)
  from abandoned_run_is_stuck [OF sample_app_services linear_engine_ok fresh reach r none this]
  have "run_of req = Some ''run_0'' \<longrightarrow> (if req = Cancel ''run_0''
        then \<exists>r'. fst (serve linear_engine sample_services req (w', c')) = Inr r' \<and> status r' = RRunning
        else \<exists>e. fst (serve linear_engine sample_services req (w', c')) = Inl e)" for req
    by blast
  from this [of "Cancel ''run_0''"] show ?thesis unfolding l by (simp only: run_of.simps refl if_True True_implies_equals)
qed

end
