(* ===== verification/Node_Progress.thy ===== *)
theory Node_Progress
  imports Service_Safety
begin

text \<open>
  That the workflow gets somewhere.  \<open>yields P m a Q\<close> is total correctness with a known result: from
  every state in \<open>P\<close> the operation returns \<open>a\<close> and ends in \<open>Q\<close>, it neither raises nor gets stuck.
  \<open>ready\<close> is the condition under which a step of a run succeeds, with the allowance still unspent
  and the effects not yet performed as parameters; each step consumes its share.
\<close>

section \<open>The logic\<close>

definition ends :: "('s \<Rightarrow> bool) \<Rightarrow> ('s, 'e, 'a) eff \<Rightarrow> 'e + 'a \<Rightarrow> ('s \<Rightarrow> bool) \<Rightarrow> bool" where
  "ends P m r Q \<longleftrightarrow> (\<forall>s. P s \<longrightarrow> (\<exists>s'. m s = (r, s') \<and> Q s'))"

abbreviation yields :: "('s \<Rightarrow> bool) \<Rightarrow> ('s, 'e, 'a) eff \<Rightarrow> 'a \<Rightarrow> ('s \<Rightarrow> bool) \<Rightarrow> bool" where
  "yields P m a Q \<equiv> ends P m (Inr a) Q"

lemma endsI: "(\<And>s. P s \<Longrightarrow> \<exists>s'. m s = (r, s') \<and> Q s') \<Longrightarrow> ends P m r Q"
  by (simp add: ends_def)

lemma endsD: "ends P m r Q \<Longrightarrow> P s \<Longrightarrow> \<exists>s'. m s = (r, s') \<and> Q s'"
  by (simp add: ends_def)

lemma ends_bind: "yields P m a Q \<Longrightarrow> ends Q (k a) r R \<Longrightarrow> ends P (mbind m k) r R"
  unfolding ends_def by (metis mbind_step)

lemma ends_seq: "yields P m a Q \<Longrightarrow> ends Q k r R \<Longrightarrow> ends P (mseq m k) r R"
  unfolding ends_def by (metis mseq_step)

lemma ends_basic: "ends P (lift_sum r) r P" "ends P (ret a) (Inr a) P" "ends P (raise e) (Inl e) P"
  by (simp_all add: ends_def)

section \<open>Frames\<close>

text \<open>Effects under other keys, and a fault budget that never grows.\<close>

definition elsewhere :: "string \<Rightarrow> world \<Rightarrow> world \<Rightarrow> bool" where
  "elsewhere key w w' \<longleftrightarrow> paperwork_failures w' \<le> paperwork_failures w
     \<and> (\<forall>k. k \<noteq> key \<longrightarrow> lookup_effect w' k = lookup_effect w k
          \<and> (\<forall>p. lookup_provider w' p k = lookup_provider w p k \<and> applied_at p k w' = applied_at p k w))"

interpretation other_effects: guarantee "elsewhere key" for key
  by unfold_locales (auto simp: elsewhere_def)

lemma elsewhere_frames: "only_trace w w' \<Longrightarrow> elsewhere key w w'" "only_runs w w' \<Longrightarrow> elsewhere key w w'"
  by (simp_all add: elsewhere_def only_trace_def only_runs_def lookup_effect_def lookup_provider_def applied_at_def)

lemma elsewhere_record: "guar (elsewhere key) (provider_record p key v)"
  by (auto simp: guar_def elsewhere_def lookup_provider_record)
    (simp_all add: provider_record_eq lookup_effect_def applied_at_def effect_id_def)

lemma elsewhere_set_state: "guar (elsewhere key) (set_state key st v)"
proof -
  have "lookup_effect (w\<lparr>effects_tbl := tupdate idempotency_key key (write_state st v t) (effects_tbl w)\<rparr>) k = lookup_effect w k"
    if "k \<noteq> key" for w t k
    using that by (simp add: lookup_effect_def tfind_tupdate write_state_def)
  then show ?thesis
    by (auto simp: guar_def set_state_def se_get_def now_def elsewhere_def lookup_provider_def applied_at_def mbind_apply mseq_apply
        lookup_effect_def split: option.splits)
qed

lemma elsewhere_reserve: "guar (elsewhere key) (try_reserve key rid s n)"
  by (auto simp: guar_def try_reserve_eq elsewhere_def lookup_effect_def lookup_provider_def applied_at_def tfind_append tfind_Cons Let_def
      new_effect_def split: option.splits)

lemma elsewhere_marks: "guar (elsewhere key) (mark_in_progress key)" "guar (elsewhere key) (mark_completed key v)"
    "guar (elsewhere key) (mark_failed key)" "guar (elsewhere key) (se_get k)"
  by (simp_all add: mark_defs elsewhere_set_state) (simp add: guar_def se_get_def other_effects.rel_refl)

lemma elsewhere_calls:
  fixes kw key
  defines "kws \<equiv> kw @ [(''idempotency_key'', PStr key)]"
  shows "guar (elsewhere key) (iam_call kws)" "guar (elsewhere key) (send_paperwork_call kws)" "guar (elsewhere key) (archive_call kws)"
proof -
  have gets: "guar (elsewhere key) (provider_lookup p key)" for p
    by (simp add: guar_def other_effects.rel_refl)
  have faults: "elsewhere key w (w\<lparr>iam := f\<rparr>)" "paperwork_failures w > 0 \<Longrightarrow>
      elsewhere key w (w\<lparr>paperwork_failures := paperwork_failures w - 1\<rparr>)" for w f
    by (simp_all add: elsewhere_def lookup_effect_def lookup_provider_def applied_at_def)
  have rec: "provider_record p key v w = (r, w') \<Longrightarrow> elsewhere key w w'" for p v w r w'
    using guarD' [OF elsewhere_record] .
  have key: "check_kwargs names kws = Inr () \<Longrightarrow> arg_str (arg kws ''idempotency_key'') = key" for names
    unfolding kws_def by (rule arg_key)
  show "guar (elsewhere key) (iam_call kws)"
    by (cases "check_kwargs [''employee_id'', ''systems'', ''idempotency_key''] kws")
      (auto simp: guar_def iam_call_def eff_apply Let_def key other_effects.rel_refl
        intro: faults rec split: option.splits sum.splits prod.splits)
  show "guar (elsewhere key) (send_paperwork_call kws)"
    by (cases "check_kwargs [''employee_id'', ''email'', ''checklist'', ''idempotency_key''] kws")
      (auto simp: guar_def send_paperwork_call_def eff_apply Let_def key other_effects.rel_refl
        intro: faults rec split: option.splits sum.splits prod.splits)
  show "guar (elsewhere key) (archive_call kws)"
    by (cases "check_kwargs [''employee_id'', ''summary'', ''idempotency_key''] kws")
      (auto simp: guar_def archive_call_def eff_apply Let_def key other_effects.rel_refl
        intro: faults rec split: option.splits sum.splits prod.splits)
qed

lemma elsewhere_run_once:
  assumes "t \<in> {iam_tool, send_paperwork_tool, archive_tool}"
  shows "guar (elsewhere key) (run_once depth key rid sname t kw)"
proof -
  have call: "guar (elsewhere key) (tool_call t (kw @ [(''idempotency_key'', PStr key)]))"
    using assms elsewhere_calls by auto
  have ask: "guar (elsewhere key) (ask_provider t key)"
    using assms by (auto simp: guar_def ask_provider_def mtry_apply other_effects.rel_refl)
  note rules = other_effects.guar_intros elsewhere_marks elsewhere_reserve call ask
  have perform: "guar (elsewhere key) (perform key t kw)"
    unfolding perform_def by (auto intro!: rules split: option.splits)
  show ?thesis
  proof (induction depth)
    case 0
    show ?case by (simp add: guar_def other_effects.rel_refl)
  next
    case (Suc depth)
    then show ?case
      by (auto simp: run_once.simps(2) resume_existing_def intro!: rules perform split: option.splits)
  qed
qed

section \<open>The condition of a step\<close>

definition unused :: "string \<Rightarrow> world \<Rightarrow> bool" where
  "unused key w \<longleftrightarrow> lookup_effect w key = None \<and> (\<forall>p. lookup_provider w p key = None)"

definition settled :: "string \<times> string \<Rightarrow> world \<Rightarrow> bool" where
  "settled = (\<lambda>(p, key) w. row_state w key = Some COMPLETED \<and> applied_at p key w = 1)"

text \<open>
  The run \<open>rid\<close> has status \<open>s\<close> (RUNNING, for \<open>ready\<close>) and is not cancelled, with \<open>a\<close> of its \<open>M\<close> steps and \<open>b\<close> of its \<open>N\<close> tool calls
  spent; the document service is up; no effect is recorded under the keys \<open>ks\<close>, and those in \<open>ds\<close>
  have been performed, once.  \<open>f\<close> is the fault setting of the IAM gateway, where it matters.
\<close>

definition on_run :: "run_status \<Rightarrow> int \<Rightarrow> int \<Rightarrow> string \<Rightarrow> int \<Rightarrow> int \<Rightarrow> world \<Rightarrow> bool" where
  "on_run s M N rid a b w \<longleftrightarrow> (\<exists>r. lookup_run w rid = Some r \<and> status r = s \<and> \<not> cancel_requested r
     \<and> step_count r = a \<and> tool_call_count r = b \<and> max_steps r = M \<and> max_tool_calls r = N)"

definition tidy :: "string set \<Rightarrow> (string \<times> string) set \<Rightarrow> world \<Rightarrow> bool" where
  "tidy ks ds w \<longleftrightarrow> trace_wf w \<and> paperwork_failures w \<le> 0 \<and> (\<forall>k \<in> ks. unused k w) \<and> (\<forall>d \<in> ds. settled d w)"

definition stands :: "run_status \<Rightarrow> int \<Rightarrow> int \<Rightarrow> string \<Rightarrow> iam_faults option \<Rightarrow> string set \<Rightarrow> (string \<times> string) set \<Rightarrow>
    int \<Rightarrow> int \<Rightarrow> world \<Rightarrow> bool" where
  "stands s M N rid f ks ds a b w \<longleftrightarrow> on_run s M N rid a b w \<and> tidy ks ds w \<and> f \<in> {None, Some (iam w)}"

abbreviation ready :: "int \<Rightarrow> int \<Rightarrow> string \<Rightarrow> iam_faults option \<Rightarrow> string set \<Rightarrow> (string \<times> string) set \<Rightarrow>
    int \<Rightarrow> int \<Rightarrow> world \<Rightarrow> bool" where
  "ready \<equiv> stands RRunning"

lemma unused_elsewhere: "elsewhere key w w' \<Longrightarrow> k \<noteq> key \<Longrightarrow> unused k w \<Longrightarrow> unused k w'"
  by (simp add: elsewhere_def unused_def)

lemma settled_elsewhere: "elsewhere key w w' \<Longrightarrow> snd d \<noteq> key \<Longrightarrow> settled d w \<Longrightarrow> settled d w'"
  by (cases d) (simp add: elsewhere_def settled_def row_state_def)

lemma tidy_elsewhere:
  assumes "tidy ks ds w" "elsewhere key w w'" "trace_wf w'" "key \<notin> ks" "key \<notin> snd ` ds"
  shows "tidy ks ds w'"
proof -
  have "unused k w'" if "k \<in> ks" for k
    using that assms(1,4) by (intro unused_elsewhere [OF assms(2)]) (auto simp: tidy_def)
  moreover have "settled d w'" if "d \<in> ds" for d
    using that assms(1,5) by (intro settled_elsewhere [OF assms(2)]) (auto simp: tidy_def)
  moreover have "paperwork_failures w' \<le> 0" using assms(1,2) by (simp add: tidy_def elsewhere_def)
  ultimately show ?thesis using assms(3) by (simp add: tidy_def)
qed

lemma tidy_same:
  assumes "tidy ks ds w" "provider_tbl w' = provider_tbl w" "effects_tbl w' = effects_tbl w"
    "paperwork_failures w' = paperwork_failures w" "trace_wf w'"
  shows "tidy ks ds w'"
proof -
  have "unused k w' = unused k w" "settled d w' = settled d w" for k d
    using assms(2,3)
    by (auto simp: unused_def settled_def row_state_def lookup_effect_def lookup_provider_def applied_at_def)
  then show ?thesis using assms by (simp add: tidy_def)
qed

text \<open>Writes to the trace keep everything; a guard that lets the step through counts it.\<close>

lemma ready_trace: "ready M N rid f ks ds a b w \<Longrightarrow> only_trace w w' \<Longrightarrow> trace_wf w' \<Longrightarrow> ready M N rid f ks ds a b w'"
  by (auto simp: stands_def on_run_def lookup_run_def only_trace_def elim: tidy_same)

lemma readyD: "ready M N rid f ks ds a b w \<Longrightarrow> trace_wf w \<and> lookup_run w rid \<noteq> None"
  by (auto simp: stands_def tidy_def on_run_def)

lemma ready_guard:
  assumes "state_run_id st = Inr rid" and "a < M"
  shows "yields (ready M N rid f ks ds a b) (guard st s) () (ready M N rid f ks ds (a + 1) b)"
proof (rule endsI)
  fix w assume w: "ready M N rid f ks ds a b w"
  then obtain r where r: "lookup_run w rid = Some r" "status r = RRunning" "\<not> cancel_requested r" "step_count r = a"
      "tool_call_count r = b" "max_steps r = M" "max_tool_calls r = N"
    by (auto simp: stands_def on_run_def)
  have "step_count r < max_steps r" using r assms(2) by simp
  from assms(1) r(1,3) this obtain w1 r1 where g: "guard st s w = (Inr (), w1)" "only_runs w w1"
    "lookup_run w1 rid = Some r1" "step_count r1 = step_count r + 1" "max_steps r1 = max_steps r"
    "cancel_requested r1 = cancel_requested r" "tool_call_count r1 = tool_call_count r"
    "max_tool_calls r1 = max_tool_calls r" "status r1 = status r"
    by (rule guard_passes)
  have same: "provider_tbl w1 = provider_tbl w" "effects_tbl w1 = effects_tbl w" "iam w1 = iam w"
      "paperwork_failures w1 = paperwork_failures w"
    using g(2) by (simp_all add: only_runs_def)
  have t: "tidy ks ds w" "trace_wf w" "f \<in> {None, Some (iam w)}" using w by (simp_all add: stands_def tidy_def)
  have "trace_wf w1" using only_runs_trace(2) [OF g(2)] t(2) by simp
  from tidy_same [OF t(1) same(1,2,4) this] have "tidy ks ds w1" .
  moreover have "on_run RRunning M N rid (a + 1) b w1" using r g(3-9) by (simp add: on_run_def)
  ultimately have "ready M N rid f ks ds (a + 1) b w1" using same(3) t(3) by (simp add: stands_def)
  with g(1) show "\<exists>w'. guard st s w = (Inr (), w') \<and> ready M N rid f ks ds (a + 1) b w'" by blast
qed

lemma ready_pause:
  assumes "det = Inr d"
  shows "yields (ready M N rid f ks ds a b) (pause_once rid s reason det) () (ready M N rid f ks ds a b)"
proof (rule endsI)
  fix w assume w: "ready M N rid f ks ds a b w"
  have wf: "trace_wf w" "lookup_run w rid \<noteq> None" using readyD [OF w] by blast+
  from wf assms obtain w' where "pause_once rid s reason det w = (Inr (), w')" "only_trace w w'" "trace_wf w'"
    by (rule pause_once_writes)
  then show "\<exists>w'. pause_once rid s reason det w = (Inr (), w') \<and> ready M N rid f ks ds a b w'"
    using ready_trace [OF w] by blast
qed

text \<open>A span whose body returns and leaves the world alone.\<close>

lemma ready_span:
  assumes "\<And>w. body (w, []) = (Inr x, (w, d))"
  shows "yields (ready M N rid f ks ds a b) (step_span rid s tool body) x (ready M N rid f ks ds a b)"
proof (rule endsI)
  fix w assume w: "ready M N rid f ks ds a b w"
  have wf: "trace_wf w" "lookup_run w rid \<noteq> None" using readyD [OF w] by blast+
  from wf obtain row w1 where start: "start_attempt rid s tool w = (Inr row, w1)"
    "trace_tbl w1 = trace_tbl w @ [row]" "att_status row = SRunning" "trace_wf w1" "only_trace w w1"
    by (rule start_attempt_opens)
  have "SCompleted \<in> {SCompleted, SFailed, SPaused}" by simp
  from close_last_row [OF start(4,2,3) this] obtain row' n where close:
    "close_attempt (att_id row) SCompleted None None None (span_detail d) None w1 =
      (Inr row', w1\<lparr>clock_reads := n, trace_tbl := trace_tbl w @ [row']\<rparr>)"
    "trace_wf (w1\<lparr>clock_reads := n, trace_tbl := trace_tbl w @ [row']\<rparr>)"
    by blast
  have "step_span rid s tool body w = (Inr x, w1\<lparr>clock_reads := n, trace_tbl := trace_tbl w @ [row']\<rparr>)"
    using start(1) close(1) assms
    by (simp add: step_span_def mbind_apply close_span_def mseq_apply complete_attempt_def)
  moreover have "only_trace w (w1\<lparr>clock_reads := n, trace_tbl := trace_tbl w @ [row']\<rparr>)"
    using start(5) by (simp add: only_trace_def)
  ultimately show "\<exists>w'. step_span rid s tool body w = (Inr x, w') \<and> ready M N rid f ks ds a b w'"
    using ready_trace [OF w] close(2) by blast
qed

section \<open>Tool calls\<close>

lemma ready_count:
  assumes w: "ready M N rid f ks ds a b w" and b: "b < N"
  obtains row w1 where
    "run_attempt ex rid s tname t kw operation n w = call_and_close ex rid s t kw operation n (att_id row) w1"
    "trace_tbl w1 = trace_tbl w @ [row]" "att_status row = SRunning" "trace_wf w1" "lookup_run w1 rid \<noteq> None"
    "ready M N rid f ks ds a (b + 1) w1" "provider_tbl w1 = provider_tbl w" "effects_tbl w1 = effects_tbl w"
    "iam w1 = iam w"
proof -
  obtain r where r: "lookup_run w rid = Some r" "status r = RRunning" "\<not> cancel_requested r" "step_count r = a"
      "tool_call_count r = b" "max_steps r = M" "max_tool_calls r = N"
    using w by (auto simp: stands_def on_run_def)
  have "trace_wf w" "tool_call_count r < max_tool_calls r" using w b r by (simp_all add: stands_def tidy_def)
  from this(1) r(1) this(2) obtain row w1 r1 where opened:
    "run_attempt ex rid s tname t kw operation n w = call_and_close ex rid s t kw operation n (att_id row) w1"
    "trace_tbl w1 = trace_tbl w @ [row]" "att_status row = SRunning" "trace_wf w1" "lookup_run w1 rid = Some r1"
    "tool_call_count r1 = tool_call_count r + 1" "max_tool_calls r1 = max_tool_calls r"
    "step_count r1 = step_count r" "max_steps r1 = max_steps r" "cancel_requested r1 = cancel_requested r"
    "status r1 = status r" "provider_tbl w1 = provider_tbl w" "effects_tbl w1 = effects_tbl w" "iam w1 = iam w"
    "paperwork_failures w1 = paperwork_failures w"
    by (rule run_attempt_opens)
  have "tidy ks ds w" using w by (simp add: stands_def)
  then have "tidy ks ds w1" using opened(12,13,15,4) by (rule tidy_same)
  moreover have "on_run RRunning M N rid a (b + 1) w1" using r opened(5-11) by (simp add: on_run_def)
  ultimately have "ready M N rid f ks ds a (b + 1) w1" using w opened(14) by (simp add: stands_def)
  with opened show ?thesis by (intro that [of row w1]) simp_all
qed

text \<open>A call that returns on its first attempt.\<close>

lemma ready_execute:
  assumes res: "resolve (ex_registry ex) tname allow = Inr t" and b: "b < N"
    and op: "side_effecting (spec t) \<longrightarrow> operation \<noteq> None"
    and call: "\<And>w. ready M N rid f ks ds a (b + 1) w \<Longrightarrow> \<exists>w'. invoke_tool rid s t kw operation w = (Inr (v, False, False), w')
      \<and> only_store w w' \<and> tidy ks' ds' w' \<and> g \<in> {None, Some (iam w')}"
  shows "yields (ready M N rid f ks ds a b) (execute ex rid s tname allow kw operation)
    \<lparr>exec_result = v, exec_attempts = 1, exec_replayed = False, exec_reconciled = False\<rparr> (ready M N rid g ks' ds' a (b + 1))"
proof (rule endsI)
  fix w assume w: "ready M N rid f ks ds a b w"
  from w b obtain row w1 where opened:
    "run_attempt ex rid s tname t kw operation 1 w = call_and_close ex rid s t kw operation 1 (att_id row) w1"
    "trace_tbl w1 = trace_tbl w @ [row]" "att_status row = SRunning" "trace_wf w1" "lookup_run w1 rid \<noteq> None"
    "ready M N rid f ks ds a (b + 1) w1"
    by (rule ready_count)
  obtain w2 where w2: "invoke_tool rid s t kw operation w1 = (Inr (v, False, False), w2)" "only_store w1 w2"
      "tidy ks' ds' w2" "g \<in> {None, Some (iam w2)}"
    using call [OF opened(6)] by blast
  from w2(1,2) opened(4,2,3) obtain row' n' where closed:
    "call_and_close ex rid s t kw operation 1 (att_id row) w1 =
      (Inr \<lparr>exec_result = v, exec_attempts = 1, exec_replayed = False, exec_reconciled = False\<rparr>,
       w2\<lparr>clock_reads := n', trace_tbl := trace_tbl w @ [row']\<rparr>)"
    "trace_wf (w2\<lparr>clock_reads := n', trace_tbl := trace_tbl w @ [row']\<rparr>)"
    by (rule call_and_close_returns)
  let ?w' = "w2\<lparr>clock_reads := n', trace_tbl := trace_tbl w @ [row']\<rparr>"
  obtain m where m: "loop_bound (ex_policy ex) = Suc m" by (cases "loop_bound (ex_policy ex)") (simp_all add: loop_bound_def)
  have "execute ex rid s tname allow kw operation w =
      (Inr \<lparr>exec_result = v, exec_attempts = 1, exec_replayed = False, exec_reconciled = False\<rparr>, ?w')"
    using op opened(1) closed(1) by (auto simp: execute_def res m eff_apply)
  moreover have "tidy ks' ds' ?w'" by (rule tidy_same [OF w2(3)]) (simp_all add: closed(2))
  moreover have "on_run RRunning M N rid a (b + 1) ?w'"
    using opened(6) w2(2) by (simp add: stands_def only_store_def on_run_def lookup_run_def)
  ultimately show "\<exists>w'. execute ex rid s tname allow kw operation w =
      (Inr \<lparr>exec_result = v, exec_attempts = 1, exec_replayed = False, exec_reconciled = False\<rparr>, w')
    \<and> ready M N rid g ks' ds' a (b + 1) w'"
    using w2(4) by (auto simp: stands_def)
qed

lemma ready_hr:
  assumes "ex_registry ex = app_registry" "map_of EMPLOYEE_DIRECTORY emp = Some v" "b < N"
  shows "yields (ready M N rid f ks ds a b)
    (execute ex rid s ''hr_directory.get_employee'' (ALLOWLISTS FETCH_EMPLOYEE) [(''employee_id'', PStr emp)] None)
    \<lparr>exec_result = v, exec_attempts = 1, exec_replayed = False, exec_reconciled = False\<rparr> (ready M N rid f ks ds a (b + 1))"
proof (rule ready_execute)
  show "resolve (ex_registry ex) ''hr_directory.get_employee'' (ALLOWLISTS FETCH_EMPLOYEE) = Inr hr_tool"
    by (simp add: assms(1) resolve_Inr_iff ALLOWLISTS_def app_registry_def APP_TOOLS_def)
  fix w assume "ready M N rid f ks ds a (b + 1) w"
  moreover have "invoke_tool rid s hr_tool [(''employee_id'', PStr emp)] None w = (Inr (v, False, False), w)"
    using assms(2) by (simp add: invoke_tool_def hr_call_def check_kwargs_def arg_def eff_apply)
  ultimately show "\<exists>w'. invoke_tool rid s hr_tool [(''employee_id'', PStr emp)] None w = (Inr (v, False, False), w')
      \<and> only_store w w' \<and> tidy ks ds w' \<and> f \<in> {None, Some (iam w')}"
    by (auto simp: stands_def store_only.rel_refl)
qed (use assms in simp_all)

lemma tidy_settled:
  assumes "tidy ks ds w" "elsewhere key w w'" "trace_wf w'" "key \<notin> ks" "key \<notin> snd ` ds"
    "row_state w' key = Some COMPLETED" "applied_at p key w' = 1"
  shows "tidy ks (insert (p, key) ds) w'"
  using tidy_elsewhere [OF assms(1-5)] assms(6,7) by (simp add: tidy_def settled_def)

lemma invoke_elsewhere:
  assumes "t \<in> {iam_tool, send_paperwork_tool, archive_tool}"
  shows "guar (elsewhere (build_key rid s operation)) (invoke_tool rid s t kw (Some operation))"
proof -
  have "side_effecting (spec t)" using assms by auto
  then show ?thesis
    using elsewhere_run_once [OF assms] by (auto simp: invoke_tool_def intro!: other_effects.guar_intros)
qed

lemma only_store_wf: "only_store w w' \<Longrightarrow> trace_wf w' = trace_wf w"
  using trace_wf_cong [of w' w] by (simp add: only_store_def)

text \<open>The ledger around a tool that works.\<close>

lemma invoke_works:
  assumes tool: "side_effecting (spec t)" "tool_lookup t = Some (provider_lookup p)"
    and fresh: "unused (build_key rid s operation) w" "lookup_run w rid \<noteq> None"
    and call: "\<And>w1. only_effects w w1 \<Longrightarrow> \<exists>w2. tool_call t (kw @ [(''idempotency_key'', PStr (build_key rid s operation))]) w1 =
        (Inr v, w2) \<and> only_provider w1 w2 \<and> lookup_provider w2 p (build_key rid s operation) = Some u
        \<and> applied_at p (build_key rid s operation) w2 = 1"
  shows "\<exists>w'. invoke_tool rid s t kw (Some operation) w = (Inr (v, False, False), w') \<and> only_store w w'
    \<and> row_state w' (build_key rid s operation) = Some COMPLETED \<and> applied_at p (build_key rid s operation) w' = 1"
proof -
  let ?key = "build_key rid s operation"
  have none: "lookup_provider w p ?key = None" "row_state w ?key = None \<and> lookup_run w rid \<noteq> None \<or> row_state w ?key = Some IN_PROGRESS"
    using fresh by (simp_all add: unused_def row_state_def)
  obtain wa where wa: "run_once (Suc 999) ?key rid s t kw w = perform ?key t kw wa" "only_effects w wa" "row_state wa ?key \<noteq> None"
    by (rule run_once_reaches_perform [OF tool(2) none])
  have "\<exists>w2. tool_call t (kw @ [(''idempotency_key'', PStr ?key)]) w1 = (Inr v, w2) \<and> only_provider w1 w2
      \<and> lookup_provider w2 p ?key = Some u \<and> applied_at p ?key w2 = 1" if "only_effects wa w1" for w1
    using call [OF effects_only.rel_trans [OF wa(2) that]] .
  from perform_returns [OF wa(3) this] obtain w' where w':
    "perform ?key t kw wa = (Inr \<lparr>result = v, replayed = False, reconciled = False\<rparr>, w')"
    "only_store wa w'" "row_state w' ?key = Some COMPLETED" "applied_at p ?key w' = 1"
    by blast
  have "invoke_tool rid s t kw (Some operation) w = (Inr (v, False, False), w')"
    using tool(1) wa(1) w'(1) by (simp add: invoke_tool_def recursion_limit mbind_apply)
  moreover have "only_store w w'" using only_storeI(1) [OF wa(2)] w'(2) by (rule store_only.rel_trans)
  ultimately show ?thesis using w'(3,4) by blast
qed

lemma ready_effect:
  assumes t: "t \<in> {send_paperwork_tool, archive_tool}" "resolve (ex_registry ex) tname allow = Inr t" "b < N"
    and keys: "key = build_key rid s operation" "key \<in> ks" "key \<notin> snd ` ds" "tool_lookup t = Some (provider_lookup p)"
    and call: "\<And>w. lookup_provider w p key = None \<Longrightarrow> paperwork_failures w \<le> 0 \<Longrightarrow>
      tool_call t (kw @ [(''idempotency_key'', PStr key)]) w = (Inr v, snd (provider_record p key v w))"
  shows "yields (ready M N rid f ks ds a b) (execute ex rid s tname allow kw (Some operation))
    \<lparr>exec_result = v, exec_attempts = 1, exec_replayed = False, exec_reconciled = False\<rparr>
    (ready M N rid None (ks - {key}) (insert (p, key) ds) a (b + 1))"
proof (rule ready_execute [OF t(2,3)])
  fix w assume w: "ready M N rid f ks ds a (b + 1) w"
  then have tidy: "tidy ks ds w" "unused key w" "paperwork_failures w \<le> 0" "lookup_run w rid \<noteq> None"
    using keys(2) by (auto simp: stands_def tidy_def on_run_def)
  have works: "\<exists>w2. tool_call t (kw @ [(''idempotency_key'', PStr key)]) w1 = (Inr v, w2) \<and> only_provider w1 w2
      \<and> lookup_provider w2 p key = Some (json_roundtrip v) \<and> applied_at p key w2 = 1" if "only_effects w w1" for w1
  proof -
    have "lookup_provider w1 p key = None" "paperwork_failures w1 \<le> 0"
      using that tidy(2,3) by (simp_all add: only_effects_def lookup_provider_def unused_def)
    then show ?thesis using call provider_record_fresh by blast
  qed
  have side: "side_effecting (spec t)" using t(1) by auto
  obtain w' where w': "invoke_tool rid s t kw (Some operation) w = (Inr (v, False, False), w')" "only_store w w'"
      "row_state w' key = Some COMPLETED" "applied_at p key w' = 1"
    using invoke_works [OF side keys(4) tidy(2) [unfolded keys(1)] tidy(4) works [unfolded keys(1)]] keys(1) by blast
  have "elsewhere key w w'"
    using guarD' [OF invoke_elsewhere w'(1)] t(1) keys(1) by auto
  moreover have "tidy (ks - {key}) ds w" using tidy(1) by (simp add: tidy_def)
  moreover have "trace_wf w'" using tidy(1) only_store_wf [OF w'(2)] by (simp add: tidy_def)
  ultimately have "tidy (ks - {key}) (insert (p, key) ds) w'"
    using w'(3,4) keys(3) by (intro tidy_settled) auto
  with w'(1,2) show "\<exists>w'. invoke_tool rid s t kw (Some operation) w = (Inr (v, False, False), w') \<and> only_store w w'
      \<and> tidy (ks - {key}) (insert (p, key) ds) w' \<and> None \<in> {None, Some (iam w')}"
    by blast
qed simp

text \<open>The IAM gateway, down for its next \<open>k\<close> calls; the effect may be in flight already.\<close>

definition flaky :: "nat \<Rightarrow> iam_faults" where
  "flaky k = \<lparr>remaining_failures = int k, fail_permanently = False, crash_after_apply = False\<rparr>"

lemma iam_loop:
  fixes rid s operation
  defines "key \<equiv> build_key rid s operation"
  assumes doc: "retries_as_documented af"
  shows "ready M N rid (Some (flaky k)) ks ds a b w \<Longrightarrow> b + int k < N \<Longrightarrow> key \<notin> ks \<Longrightarrow> key \<notin> snd ` ds \<Longrightarrow>
    lookup_provider w ''iam'' key = None \<Longrightarrow> row_state w key \<in> {None, Some IN_PROGRESS} \<Longrightarrow>
    int (n + k) \<le> max_attempts p \<or> k = 0 \<Longrightarrow> k \<le> fuel \<Longrightarrow>
    \<exists>w'. attempt_loop (Suc fuel) af (build p)
        (run_attempt ex rid s tname iam_tool (iam_kw emp systems) (Some operation)) n w =
      (Inr \<lparr>exec_result = iam_receipt emp systems key, exec_attempts = n + k, exec_replayed = False,
         exec_reconciled = False\<rparr>, w')
    \<and> ready M N rid None ks (insert (''iam'', key) ds) a (b + int k + 1) w'"
proof (induction k arbitrary: w b n fuel)
  case 0
  have "b < N" using "0.prems"(2) by simp
  with "0.prems"(1) obtain row w1 where opened:
    "run_attempt ex rid s tname iam_tool (iam_kw emp systems) (Some operation) n w =
       call_and_close ex rid s iam_tool (iam_kw emp systems) (Some operation) n (att_id row) w1"
    "trace_tbl w1 = trace_tbl w @ [row]" "att_status row = SRunning" "trace_wf w1" "lookup_run w1 rid \<noteq> None"
    "ready M N rid (Some (flaky 0)) ks ds a (b + 1) w1" "provider_tbl w1 = provider_tbl w" "effects_tbl w1 = effects_tbl w"
    by (rule ready_count)
  have "row_state w1 key \<in> {None, Some IN_PROGRESS}" "lookup_provider w1 ''iam'' key = None"
    using "0.prems"(5,6) opened(7,8) by (simp_all add: row_state_def lookup_effect_def lookup_provider_def)
  then obtain w2 where w2: "invoke_tool rid s iam_tool (iam_kw emp systems) (Some operation) w1 =
        (Inr (iam_receipt emp systems key, False, False), w2)" "only_store w1 w2"
      "row_state w2 key = Some COMPLETED" "applied_at ''iam'' key w2 = 1"
    using invoke_iam(1) [of w1 rid s operation 0 emp systems] opened(5,6) unfolding key_def
    by (auto simp: stands_def flaky_def)
  from w2(1,2) opened(4,2,3) obtain row' n' where closed:
    "call_and_close ex rid s iam_tool (iam_kw emp systems) (Some operation) n (att_id row) w1 =
      (Inr \<lparr>exec_result = iam_receipt emp systems key, exec_attempts = n, exec_replayed = False, exec_reconciled = False\<rparr>,
       w2\<lparr>clock_reads := n', trace_tbl := trace_tbl w @ [row']\<rparr>)"
    "trace_wf (w2\<lparr>clock_reads := n', trace_tbl := trace_tbl w @ [row']\<rparr>)"
    by (rule call_and_close_returns)
  let ?w' = "w2\<lparr>clock_reads := n', trace_tbl := trace_tbl w @ [row']\<rparr>"
  have moved: "elsewhere key w1 w2" using guarD' [OF invoke_elsewhere w2(1)] by (simp add: key_def)
  have "tidy ks ds w1" "trace_wf w2" using opened(6) w2(2) only_store_wf [OF w2(2)] by (simp_all add: stands_def tidy_def)
  from tidy_settled [OF this(1) moved this(2) "0.prems"(3,4) w2(3,4)] have "tidy ks (insert (''iam'', key) ds) w2" .
  then have "tidy ks (insert (''iam'', key) ds) ?w'" by (rule tidy_same) (simp_all add: closed(2))
  moreover have "on_run RRunning M N rid a (b + 1) ?w'"
    using opened(6) w2(2) by (simp add: stands_def only_store_def on_run_def lookup_run_def)
  ultimately show ?case using opened(1) closed(1) by (simp add: eff_apply stands_def)
next
  case (Suc k)
  have "b < N" using Suc.prems(2) by simp
  with Suc.prems(1) obtain row w1 where opened:
    "run_attempt ex rid s tname iam_tool (iam_kw emp systems) (Some operation) n w =
       call_and_close ex rid s iam_tool (iam_kw emp systems) (Some operation) n (att_id row) w1"
    "trace_tbl w1 = trace_tbl w @ [row]" "att_status row = SRunning" "trace_wf w1" "lookup_run w1 rid \<noteq> None"
    "ready M N rid (Some (flaky (Suc k))) ks ds a (b + 1) w1" "provider_tbl w1 = provider_tbl w" "effects_tbl w1 = effects_tbl w"
    by (rule ready_count)
  have "row_state w1 key \<in> {None, Some IN_PROGRESS}" "lookup_provider w1 ''iam'' key = None"
    using Suc.prems(5,6) opened(7,8) by (simp_all add: row_state_def lookup_effect_def lookup_provider_def)
  then obtain m w2 where w2: "invoke_tool rid s iam_tool (iam_kw emp systems) (Some operation) w1 =
        (Inl (Exc TransientToolError m), w2)" "only_store w1 w2" "row_state w2 key = Some IN_PROGRESS"
      "provider_tbl w2 = provider_tbl w1" "iam w2 = flaky k"
    using invoke_iam(2) [of w1 rid s operation "int (Suc k)" emp systems] opened(5,6) unfolding key_def
    by (auto simp: stands_def flaky_def)
  from w2(1,2) opened(4,2,3) obtain row' n' where closed:
    "call_and_close ex rid s iam_tool (iam_kw emp systems) (Some operation) n (att_id row) w1 =
      (Inl (Exc TransientToolError m), w2\<lparr>clock_reads := n', trace_tbl := trace_tbl w @ [row']\<rparr>)"
    "trace_wf (w2\<lparr>clock_reads := n', trace_tbl := trace_tbl w @ [row']\<rparr>)"
    by (rule call_and_close_transient)
  let ?w = "w2\<lparr>clock_reads := n', trace_tbl := trace_tbl w @ [row']\<rparr>"
  obtain fuel' where fuel: "fuel = Suc fuel'" using Suc.prems(8) by (cases fuel) auto
  have again: "attempt_loop (Suc fuel) af (build p)
      (run_attempt ex rid s tname iam_tool (iam_kw emp systems) (Some operation)) n w =
    attempt_loop (Suc fuel') af (build p)
      (run_attempt ex rid s tname iam_tool (iam_kw emp systems) (Some operation)) (Suc n) ?w"
    using opened(1) closed(1) Suc.prems(7)
    by (simp add: fuel attempt_loop.simps(2) [of "Suc fuel'"] eff_apply after_failure_build [OF doc]
        del: attempt_loop.simps)
  have moved: "elsewhere key w1 w2" using guarD' [OF invoke_elsewhere w2(1)] by (simp add: key_def)
  have "tidy ks ds w1" "trace_wf w2" using opened(6) w2(2) only_store_wf [OF w2(2)] by (simp_all add: stands_def tidy_def)
  from tidy_elsewhere [OF this(1) moved this(2) Suc.prems(3,4)] have "tidy ks ds w2" .
  then have "tidy ks ds ?w" by (rule tidy_same) (simp_all add: closed(2))
  moreover have "on_run RRunning M N rid a (b + 1) ?w"
    using opened(6) w2(2) by (simp add: stands_def only_store_def on_run_def lookup_run_def)
  ultimately have ready: "ready M N rid (Some (flaky k)) ks ds a (b + 1) ?w" using w2(5) by (simp add: stands_def)
  have "\<exists>w'. attempt_loop (Suc fuel') af (build p)
        (run_attempt ex rid s tname iam_tool (iam_kw emp systems) (Some operation)) (Suc n) ?w =
      (Inr \<lparr>exec_result = iam_receipt emp systems key, exec_attempts = Suc n + k, exec_replayed = False,
         exec_reconciled = False\<rparr>, w')
    \<and> ready M N rid None ks (insert (''iam'', key) ds) a (b + 1 + int k + 1) w'"
  proof (rule Suc.IH [OF ready])
    show "lookup_provider ?w ''iam'' key = None"
      using Suc.prems(5) opened(7) w2(4) by (simp add: lookup_provider_def)
    show "row_state ?w key \<in> {None, Some IN_PROGRESS}" using w2(3) by (simp add: row_state_def)
    show "b + 1 + int k < N" using Suc.prems(2) by simp
    show "int (Suc n + k) \<le> max_attempts p \<or> k = 0" "k \<le> fuel'" using Suc.prems(7,8) fuel by simp_all
  qed fact+
  moreover have "n + Suc k = Suc n + k" "b + int (Suc k) + 1 = b + 1 + int k + 1" by simp_all
  ultimately show ?case unfolding again by (simp only:)
qed

lemma ready_iam:
  assumes "ex_registry ex = app_registry" "retries_as_documented (ex_tenacity ex)"
    and "int k < max_attempts (ex_policy ex)" "b + int k < N"
    and key: "key = build_key rid s operation" "key \<in> ks" "key \<notin> snd ` ds"
  shows "yields (ready M N rid (Some (flaky k)) ks ds a b)
    (execute ex rid s ''iam.revoke_access'' (ALLOWLISTS REVOKE_ACCESS) (iam_kw emp systems) (Some operation))
    \<lparr>exec_result = iam_receipt emp systems key, exec_attempts = k + 1, exec_replayed = False, exec_reconciled = False\<rparr>
    (ready M N rid None (ks - {key}) (insert (''iam'', key) ds) a (b + int k + 1))"
proof (rule endsI)
  fix w assume w: "ready M N rid (Some (flaky k)) ks ds a b w"
  then have w': "ready M N rid (Some (flaky k)) (ks - {key}) ds a b w" by (simp add: stands_def tidy_def)
  have none: "lookup_provider w ''iam'' key = None" "row_state w key \<in> {None, Some IN_PROGRESS}"
    using w key(2) by (auto simp: stands_def tidy_def unused_def row_state_def)
  have res: "resolve (ex_registry ex) ''iam.revoke_access'' (ALLOWLISTS REVOKE_ACCESS) = Inr iam_tool"
    by (simp add: assms(1) resolve_Inr_iff ALLOWLISTS_def app_registry_def APP_TOOLS_def)
  obtain m where m: "loop_bound (ex_policy ex) = Suc m" "k \<le> m"
    using assms(3) by (cases "loop_bound (ex_policy ex)") (auto simp: loop_bound_def)
  show "\<exists>w'. execute ex rid s ''iam.revoke_access'' (ALLOWLISTS REVOKE_ACCESS) (iam_kw emp systems) (Some operation) w =
      (Inr \<lparr>exec_result = iam_receipt emp systems key, exec_attempts = k + 1, exec_replayed = False, exec_reconciled = False\<rparr>, w')
    \<and> ready M N rid None (ks - {key}) (insert (''iam'', key) ds) a (b + int k + 1) w'"
    using iam_loop [OF assms(2) w' assms(4), of s operation 1 "ex_policy ex" m ex "''iam.revoke_access''" emp systems]
      none key(1,3) assms(3) m
    by (simp add: execute_def res del: attempt_loop.simps)
qed

section \<open>The nodes\<close>

definition packet_key :: "string \<Rightarrow> string" where
  "packet_key rid = build_key rid (step_value SEND_EXIT_PAPERWORK) ''send_packet''"

definition archive_key :: "string \<Rightarrow> string" where
  "archive_key rid = build_key rid (step_value FINALIZE) ''archive''"

text \<open>What the records of the HR directory have in common.\<close>

definition hr_record :: "string \<Rightarrow> pyval \<Rightarrow> bool" where
  "hr_record emp v \<longleftrightarrow> (\<exists>nm mail dep man day sys hw. v = PDict [(''employee_id'', PStr emp), (''name'', PStr nm),
     (''email'', PStr mail), (''department'', PStr dep), (''manager'', PStr man), (''last_day'', PStr day),
     (''systems'', PList sys), (''has_company_hardware'', hw)])"

lemma hr_records: "map_of EMPLOYEE_DIRECTORY emp = Some v \<Longrightarrow> hr_record emp v"
  by (auto simp: EMPLOYEE_DIRECTORY_def hr_record_def split: if_splits)

lemma hr_recordD:
  assumes "hr_record emp v"
  obtains nm mail dep day sys where "py_item v ''employee_id'' = Inr (PStr emp)" "py_item v ''name'' = Inr (PStr nm)"
    "py_item v ''email'' = Inr (PStr mail)" "py_item v ''department'' = Inr (PStr dep)"
    "py_item v ''last_day'' = Inr (PStr day)" "py_item v ''systems'' = Inr (PList sys)"
  using assms by (auto simp: hr_record_def py_item_def)

lemma fetch_progress:
  assumes app: "ex_registry (svc_executor svc) = app_registry" and "a < M" "b < N"
    and st: "state_run_id st = Inr rid" "py_item st ''employee_id'' = Inr (PStr emp)"
    and rec: "map_of EMPLOYEE_DIRECTORY emp = Some v"
  shows "\<exists>note. yields (ready M N rid f ks ds a b) (fetch_employee svc intr st) [(''employee'', v), note_event note]
    (ready M N rid f ks ds (a + 1) (b + 1))"
proof -
  obtain nm mail dep day sys where v: "py_item v ''name'' = Inr (PStr nm)" "py_item v ''last_day'' = Inr (PStr day)"
      "py_item v ''systems'' = Inr (PList sys)"
    using hr_records [OF rec] by (rule hr_recordD)
  show ?thesis
    unfolding fetch_employee_def st Let_def
    by (intro exI ends_seq [OF ready_guard [OF st(1) assms(2)]] ends_bind [OF ends_basic(1)]
        ends_bind [OF ready_hr [OF app rec assms(3)]])
      (simp add: v, rule ends_basic)
qed

lemma dumped_systems: "sum_map (\<lambda>i. py_item i ''system'') (map dumped items) = Inr (map (\<lambda>i. PStr (item_system i)) items)"
  by (induction items) (simp_all add: dumped_def py_item_def)

text \<open>A model that plans this record, leaving the world alone.\<close>

definition plans :: "services \<Rightarrow> pyval \<Rightarrow> plan \<Rightarrow> bool" where
  "plans svc v p \<longleftrightarrow> pydantic_ok (svc_pydantic svc) \<and> (\<forall>w. generate_plan (svc_llm svc) v w = (Inr p, w))"

definition checklist_of :: "plan \<Rightarrow> pyval" where
  "checklist_of p = PList (map dumped (plan_items p))"

lemma plan_progress:
  assumes "plans svc v p" and "a < M" and st: "state_run_id st = Inr rid" "py_item st ''employee'' = Inr v"
  shows "\<exists>note. yields (ready M N rid f ks ds a b) (plan_deprovisioning svc intr st)
    [(''checklist'', checklist_of p), (''plan_notes'', PStr (plan_notes p)), note_event note] (ready M N rid f ks ds (a + 1) b)"
proof -
  have dump: "map (model_dump (svc_pydantic svc)) (plan_items p) = map dumped (plan_items p)"
    using assms(1) by (simp add: plans_def pydantic_ok_def)
  let ?body = "mbind (lift_sum (py_item st ''employee'')) (\<lambda>employee.
         mbind (in_span (generate_plan (svc_llm svc) employee)) (\<lambda>p.
         let checklist = map (model_dump (svc_pydantic svc)) (plan_items p) in
         mbind (lift_sum (sum_map (\<lambda>i. py_item i ''system'') checklist)) (\<lambda>systems.
         mseq (set_detail [(''provider'', PStr (llm_name (svc_llm svc))),
                 (''item_count'', PInt (int (length checklist))), (''systems'', PList systems)])
         (ret (p, checklist)))))"
  have "\<exists>d. \<forall>w. ?body (w, []) = (Inr (p, map dumped (plan_items p)), (w, d))"
    using assms(1) by (simp add: st in_span_def mbind_apply mseq_apply plans_def dump dumped_systems Let_def set_detail_def)
  then obtain d where "?body (w, []) = (Inr (p, map dumped (plan_items p)), (w, d))" for w by blast
  note span = ready_span [of ?body "(p, map dumped (plan_items p))" d, OF this]
  show ?thesis
    unfolding plan_deprovisioning_def st(1) mbind_lift
    by (intro exI ends_seq [OF ready_guard [OF st(1) assms(2)]] ends_bind [OF span])
      (simp add: checklist_of_def, rule ends_basic)
qed

lemma approval_asks:
  assumes "hr_record emp v" and "st = PDict d" "map_of d ''employee'' = Some v" "map_of d ''checklist'' = Some (checklist_of p)"
  obtains q n where "approval_request st rid = Inr (PDict ((''pause_reason'', PStr (pause_value HR_APPROVAL)) # q))"
    "sum_bind (py_get st ''checklist'' (PList [])) (\<lambda>c. sum_bind (py_len c) (\<lambda>n. Inr (PDict [(''item_count'', PInt n)]))) = Inr n"
proof -
  have "py_item st ''employee'' = Inr v" "py_get st ''checklist'' (PList []) = Inr (checklist_of p)"
      "\<exists>x. py_get st ''plan_notes'' (PStr []) = Inr x"
    using assms by (simp_all add: py_item_def py_get_def)
  moreover obtain nm dep day where "py_item v ''employee_id'' = Inr (PStr emp)" "py_item v ''name'' = Inr (PStr nm)"
      "py_item v ''department'' = Inr (PStr dep)" "py_item v ''last_day'' = Inr (PStr day)"
    using assms(1) by (rule hr_recordD)
  ultimately show ?thesis by (auto simp: approval_request_def checklist_of_def intro: that)
qed

lemma approval_waits:
  assumes "hr_record emp v" "a < M" "state_run_id st = Inr rid"
    and st: "st = PDict d" "map_of d ''employee'' = Some v" "map_of d ''checklist'' = Some (checklist_of p)"
  shows "\<exists>q. ends (ready M N rid f ks ds a b) (await_hr_approval svc (interrupt_with None) st)
    (Inl (GraphInterrupt (PDict ((''pause_reason'', PStr (pause_value HR_APPROVAL)) # q)))) (ready M N rid f ks ds (a + 1) b)"
proof -
  obtain q n where q: "approval_request st rid = Inr (PDict ((''pause_reason'', PStr (pause_value HR_APPROVAL)) # q))"
    "sum_bind (py_get st ''checklist'' (PList [])) (\<lambda>c. sum_bind (py_len c) (\<lambda>n. Inr (PDict [(''item_count'', PInt n)]))) = Inr n"
    by (rule approval_asks [OF assms(1) st])
  show ?thesis
    unfolding await_hr_approval_def assms(3) mbind_lift q(1) interrupt_with_def option.case
    by (rule exI [of _ q]) (intro ends_seq [OF ready_guard [OF assms(3,2)]] ends_seq [OF ready_pause [OF q(2)]] ends_basic)
qed

definition decision :: "string \<Rightarrow> string option \<Rightarrow> pyval" where
  "decision approver nte = PDict [(''approved'', PBool True), (''approver'', PStr approver), (''note'', opt_val nte)]"

lemma approval_passes:
  assumes "hr_record emp v" "a < M" "state_run_id st = Inr rid"
    and st: "st = PDict d" "map_of d ''employee'' = Some v" "map_of d ''checklist'' = Some (checklist_of p)"
  shows "\<exists>note. yields (ready M N rid f ks ds a b)
    (await_hr_approval svc (interrupt_with (Some (decision approver nte))) st)
    [(''approval'', decision approver nte), note_event note] (ready M N rid f ks ds (a + 1) b)"
proof -
  obtain q n where q: "approval_request st rid = Inr (PDict ((''pause_reason'', PStr (pause_value HR_APPROVAL)) # q))"
    "sum_bind (py_get st ''checklist'' (PList [])) (\<lambda>c. sum_bind (py_len c) (\<lambda>n. Inr (PDict [(''item_count'', PInt n)]))) = Inr n"
    by (rule approval_asks [OF assms(1) st])
  have "\<exists>dd. \<forall>w. record_decision (decision approver nte) (w, []) = (Inr (), (w, dd))"
    by (simp add: decision_def record_decision_eq decided_def)
  then obtain dd where "record_decision (decision approver nte) (w, []) = (Inr (), (w, dd))" for w by blast
  note span = ready_span [of "record_decision (decision approver nte)", OF this]
  show ?thesis
    unfolding await_hr_approval_def assms(3) mbind_lift q(1) interrupt_with_def option.case
    by (intro exI ends_seq [OF ready_guard [OF assms(3,2)]] ends_seq [OF ready_pause [OF q(2)]] ends_seq [OF span])
      (simp add: py_get_def decision_def, rule ends_basic)
qed

definition plan_systems :: "plan \<Rightarrow> pyval list" where
  "plan_systems p = map (\<lambda>i. PStr (item_system i)) (plan_items p)"

lemma systems_of_checklist: "systems_of (checklist_of p) = Inr (plan_systems p)"
  by (simp add: systems_of_def checklist_of_def plan_systems_def dumped_systems)

lemma revoke_progress:
  assumes app: "ex_registry (svc_executor svc) = app_registry" "retries_as_documented (ex_tenacity (svc_executor svc))"
    and k: "int k < max_attempts (ex_policy (svc_executor svc))" "a < M" "b + int k < N"
    and keys: "revoke_key rid \<in> ks" "revoke_key rid \<notin> snd ` ds"
    and st: "state_run_id st = Inr rid" "py_item st ''employee_id'' = Inr (PStr emp)" "py_item st ''checklist'' = Inr (checklist_of p)"
  shows "\<exists>note. yields (ready M N rid (Some (flaky k)) ks ds a b) (revoke_access svc intr st)
    [(''revocation'', iam_receipt (PStr emp) (plan_systems p) (revoke_key rid)), note_event note]
    (ready M N rid None (ks - {revoke_key rid}) (insert (''iam'', revoke_key rid) ds) (a + 1) (b + int k + 1))"
proof -
  have rev: "\<exists>r. py_item (iam_receipt (PStr emp) (plan_systems p) (revoke_key rid)) ''revocation_id'' = Inr r"
    by (simp add: iam_receipt_def py_item_def)
  then obtain r where r: "py_item (iam_receipt (PStr emp) (plan_systems p) (revoke_key rid)) ''revocation_id'' = Inr r" by blast
  show ?thesis
    unfolding revoke_access_def st sum_bind_simps systems_of_checklist mbind_lift
    by (intro exI ends_seq [OF ready_guard [OF st(1) k(2)]]
        ends_bind [OF ready_iam [OF app k(1,3) revoke_key_def keys]])
      (simp add: r, rule ends_basic)
qed

lemma send_progress:
  assumes app: "ex_registry (svc_executor svc) = app_registry" and "a < M" "b < N"
    and keys: "packet_key rid \<in> ks" "packet_key rid \<notin> snd ` ds"
    and rec: "hr_record emp v"
    and st: "state_run_id st = Inr rid" "py_item st ''employee_id'' = Inr (PStr emp)" "py_item st ''checklist'' = Inr (checklist_of p)"
      "py_item st ''employee'' = Inr v"
  shows "\<exists>mail n note. yields (ready M N rid f ks ds a b) (send_exit_paperwork svc intr st)
    [(''paperwork'', paperwork_receipt (PStr emp) mail n (packet_key rid)), note_event note]
    (ready M N rid None (ks - {packet_key rid}) (insert (''documents'', packet_key rid) ds) (a + 1) (b + 1))"
proof -
  obtain mail where mail: "py_item v ''email'' = Inr (PStr mail)" using rec by (rule hr_recordD)
  let ?n = "int (length (plan_items p))"
  let ?receipt = "paperwork_receipt (PStr emp) (PStr mail) ?n (packet_key rid)"
  have res: "resolve (ex_registry (svc_executor svc)) ''documents.send_exit_paperwork'' (ALLOWLISTS SEND_EXIT_PAPERWORK) =
      Inr send_paperwork_tool"
    by (simp add: app resolve_Inr_iff ALLOWLISTS_def app_registry_def APP_TOOLS_def)
  let ?kw = "[(''employee_id'', PStr emp), (''email'', PStr mail), (''checklist'', checklist_of p)]"
  have kws: "check_kwargs [''employee_id'', ''email'', ''checklist'', ''idempotency_key''] (?kw @ [(''idempotency_key'', key)]) = Inr ()" for key
    by (auto simp: check_kwargs_def)
  have call: "tool_call send_paperwork_tool (?kw @ [(''idempotency_key'', PStr (packet_key rid))]) w =
      (Inr ?receipt, snd (provider_record ''documents'' (packet_key rid) ?receipt w))"
    if "lookup_provider w ''documents'' (packet_key rid) = None" "paperwork_failures w \<le> 0" for w
    using that kws by (simp add: send_paperwork_call_def eff_apply arg_def provider_record_eq checklist_of_def Let_def)
  have doc: "\<exists>x. py_item ?receipt ''document_id'' = Inr x" by (simp add: paperwork_receipt_def py_item_def)
  then obtain x where x: "py_item ?receipt ''document_id'' = Inr x" by blast
  have t: "send_paperwork_tool \<in> {send_paperwork_tool, archive_tool}" by simp
  show ?thesis
    unfolding send_exit_paperwork_def st sum_bind_simps mail mbind_lift
    by (intro exI ends_seq [OF ready_guard [OF st(1) assms(2)]]
        ends_bind [OF ready_effect [OF t res assms(3) packet_key_def keys tool_lookups(3) call]])
      (assumption+, simp add: x, rule ends_basic)
qed

text \<open>The state after the packet was sent: the signature gate and the archive.\<close>

lemma signature_asks:
  assumes "st = PDict d" "map_of d ''paperwork'' = Some (paperwork_receipt e mail n key)"
  obtains x q where "document_of st = Inr x"
    "signature_request st rid = Inr (PDict ((''pause_reason'', PStr (pause_value SIGNED_DOCUMENT)) # q))"
  using assms by (simp add: signature_request_def document_of_def py_item_def paperwork_receipt_def)

lemma signature_waits:
  assumes "a < M" "state_run_id st = Inr rid" and st: "st = PDict d" "map_of d ''paperwork'' = Some (paperwork_receipt e mail n key)"
  shows "\<exists>q. ends (ready M N rid f ks ds a b) (await_signed_document svc (interrupt_with None) st)
    (Inl (GraphInterrupt (PDict ((''pause_reason'', PStr (pause_value SIGNED_DOCUMENT)) # q)))) (ready M N rid f ks ds (a + 1) b)"
proof -
  obtain x q where x: "document_of st = Inr x"
    "signature_request st rid = Inr (PDict ((''pause_reason'', PStr (pause_value SIGNED_DOCUMENT)) # q))"
    by (rule signature_asks [OF st])
  have det: "sum_bind (document_of st) (\<lambda>doc. Inr (PDict [(''document_id'', doc)])) = Inr (PDict [(''document_id'', x)])"
    by (simp add: x)
  show ?thesis
    unfolding await_signed_document_def assms(2) mbind_lift x(2) interrupt_with_def option.case
    by (rule exI [of _ q]) (intro ends_seq [OF ready_guard [OF assms(2,1)]] ends_seq [OF ready_pause [OF det]] ends_basic)
qed

definition signed_event :: "string \<Rightarrow> string \<Rightarrow> pyval" where
  "signed_event doc time = PDict [(''document_id'', PStr doc), (''signed_at'', PStr time)]"

lemma signature_passes:
  assumes "a < M" "state_run_id st = Inr rid" and st: "st = PDict d" "map_of d ''paperwork'' = Some (paperwork_receipt e mail n key)"
  shows "\<exists>note. yields (ready M N rid f ks ds a b)
    (await_signed_document svc (interrupt_with (Some (signed_event doc time))) st)
    [(''signed_document'', signed_event doc time), note_event note] (ready M N rid f ks ds (a + 1) b)"
proof -
  obtain x q where x: "document_of st = Inr x"
    "signature_request st rid = Inr (PDict ((''pause_reason'', PStr (pause_value SIGNED_DOCUMENT)) # q))"
    by (rule signature_asks [OF st])
  have det: "sum_bind (document_of st) (\<lambda>doc. Inr (PDict [(''document_id'', doc)])) = Inr (PDict [(''document_id'', x)])"
    by (simp add: x)
  have "\<exists>dd. \<forall>w. record_signature (signed_event doc time) (w, []) = (Inr (), (w, dd))"
    by (simp add: signed_event_def record_signature_def eff_apply py_get_def set_detail_def)
  then obtain dd where "record_signature (signed_event doc time) (w, []) = (Inr (), (w, dd))" for w by blast
  note span = ready_span [of "record_signature (signed_event doc time)", OF this]
  show ?thesis
    unfolding await_signed_document_def assms(2) mbind_lift x(2) interrupt_with_def option.case
    by (intro exI ends_seq [OF ready_guard [OF assms(2,1)]] ends_seq [OF ready_pause [OF det]] ends_seq [OF span])
      (simp add: py_get_def signed_event_def, rule ends_basic)
qed

lemma finalize_progress:
  assumes app: "ex_registry (svc_executor svc) = app_registry" and "a < M" "b < N"
    and keys: "archive_key rid \<in> ks" "archive_key rid \<notin> snd ` ds"
    and st: "st = PDict d" "map_of d ''run_id'' = Some (PStr rid)" "map_of d ''employee_id'' = Some (PStr emp)"
      "map_of d ''checklist'' = Some (checklist_of p)" "map_of d ''approval'' = Some (decision approver nte)"
      "map_of d ''revocation'' = Some (iam_receipt e1 sys k1)" "map_of d ''paperwork'' = Some (paperwork_receipt e mail n k2)"
  shows "\<exists>x note. yields (ready M N rid f ks ds a b) (finalize svc intr st)
    [(''archive'', x), note_event note]
    (ready M N rid None (ks - {archive_key rid}) (insert (''archive'', archive_key rid) ds) (a + 1) (b + 1))"
proof -
  have items: "state_run_id st = Inr rid" "py_item st ''employee_id'' = Inr (PStr emp)"
    "py_item st ''checklist'' = Inr (checklist_of p)"
    using st by (simp_all add: py_item_def state_run_id_def)
  have "\<exists>s. archive_summary st = Inr s"
    using st systems_of_checklist [of p]
    by (simp add: archive_summary_def items document_of_def py_item_def py_get_def iam_receipt_def paperwork_receipt_def decision_def)
  then obtain summary where summary: "archive_summary st = Inr summary" by blast
  let ?receipt = "archive_receipt (PStr emp) summary (archive_key rid)"
  have res: "resolve (ex_registry (svc_executor svc)) ''documents.archive_record'' (ALLOWLISTS FINALIZE) = Inr archive_tool"
    by (simp add: app resolve_Inr_iff ALLOWLISTS_def app_registry_def APP_TOOLS_def)
  let ?kw = "[(''employee_id'', PStr emp), (''summary'', summary)]"
  have kws: "check_kwargs [''employee_id'', ''summary'', ''idempotency_key''] (?kw @ [(''idempotency_key'', key)]) = Inr ()" for key
    by (auto simp: check_kwargs_def)
  have call: "tool_call archive_tool (?kw @ [(''idempotency_key'', PStr (archive_key rid))]) w =
      (Inr ?receipt, snd (provider_record ''archive'' (archive_key rid) ?receipt w))"
    if "lookup_provider w ''archive'' (archive_key rid) = None" "paperwork_failures w \<le> 0" for w
    using that kws by (simp add: archive_call_def eff_apply arg_def provider_record_eq Let_def)
  have "\<exists>x. py_item ?receipt ''archive_id'' = Inr x" by (simp add: archive_receipt_def py_item_def)
  then obtain x where x: "py_item ?receipt ''archive_id'' = Inr x" by blast
  have t: "archive_tool \<in> {send_paperwork_tool, archive_tool}" by simp
  show ?thesis
    unfolding finalize_def items summary mbind_lift
    by (intro exI ends_seq [OF ready_guard [OF items(1) assms(2)]]
        ends_bind [OF ready_effect [OF t res assms(3) archive_key_def keys tool_lookups(4) call]])
      (assumption+, simp add: x, rule ends_basic)
qed

end
