(* ===== verification/Service_Progress.thy ===== *)
theory Service_Progress
  imports Service_Invariant Node_Progress
begin

text \<open>
  That an offboarding gets to its end: started, approved and signed, a run is COMPLETED, with the
  attempts and the tool calls it takes and every effect applied once, unless the process is killed
  on the way.  The node lemmas are composed along the edges of the graph for every engine that
  keeps LangGraph's contract.
\<close>

section \<open>Along the graph\<close>

definition killed :: "outcome \<Rightarrow> bool" where
  "killed out \<longleftrightarrow> (\<exists>m. out = Raised (Exc BaseException m))"

definition reaches ::
  "graph \<Rightarrow> string \<Rightarrow> pyval option \<Rightarrow> ostate \<Rightarrow> (world \<Rightarrow> bool) \<Rightarrow> (outcome \<Rightarrow> checkpoint \<Rightarrow> world \<Rightarrow> bool) \<Rightarrow> bool" where
  "reaches g s r v P X \<longleftrightarrow> (\<forall>w out ck w'. drives g s r v w out ck w' \<longrightarrow> P w \<longrightarrow> killed out \<or> X out ck w')"

lemma reaches_step:
  assumes "map_of (g_nodes g) s = Some n" "s \<noteq> END" "map_of (g_edges g) s = Some t"
    and "yields P (n (interrupt_with r) v) upd Q" and "reaches g t None (merge_state v upd) Q X"
  shows "reaches g s r v P X"
  unfolding reaches_def
proof (intro allI impI)
  fix w out ck w' assume d: "drives g s r v w out ck w'" and "P w"
  then obtain w1 where w1: "n (interrupt_with r) v w = (Inr upd, w1)" "Q w1" using endsD [OF assms(4)] by blast
  from d show "killed out \<or> X out ck w'"
  proof cases
    case (step n' upd' w1' t')
    then show ?thesis using assms(1,3,5) w1 unfolding reaches_def by auto
  qed (use assms(1,2) w1(1) in \<open>auto simp: killed_def\<close>)
qed

lemma reaches_pause:
  assumes "map_of (g_nodes g) s = Some n" "s \<noteq> END"
    and "ends P (n (interrupt_with r) v) (Inl (GraphInterrupt p)) Q"
  shows "reaches g s r v P (\<lambda>out ck w'. out = Interrupted p v \<and> ck = \<lparr>ck_next = s, ck_values = v, ck_resume = None\<rparr> \<and> Q w')"
  unfolding reaches_def
proof (intro allI impI)
  fix w out ck w' assume d: "drives g s r v w out ck w'" and "P w"
  then obtain w1 where w1: "n (interrupt_with r) v w = (Inl (GraphInterrupt p), w1)" "Q w1" using endsD [OF assms(3)] by blast
  from d show "killed out \<or> out = Interrupted p v \<and> ck = \<lparr>ck_next = s, ck_values = v, ck_resume = None\<rparr> \<and> Q w'"
    by cases (use assms(1,2) w1 in \<open>auto simp: killed_def\<close>)
qed

lemma reaches_end:
  assumes "map_of (g_nodes g) END = None"
  shows "reaches g END r v P (\<lambda>out ck w'. out = Finished v \<and> ck_next ck = END \<and> P w')"
  unfolding reaches_def
proof (intro allI impI)
  fix w out ck w' assume d: "drives g END r v w out ck w'" and "P w"
  from d show "killed out \<or> out = Finished v \<and> ck_next ck = END \<and> P w'"
    by cases (use assms \<open>P w\<close> in auto)
qed

lemma reaches_weaken: "reaches g s r v P X \<Longrightarrow> (\<And>out ck w. X out ck w \<Longrightarrow> Y out ck w) \<Longrightarrow> reaches g s r v P Y"
  unfolding reaches_def by blast

text \<open>The state a node hands on.\<close>

lemma merge_one:
  assumes "k \<noteq> ''events''"
  obtains d' where "merge_state (PDict d) [(k, v), note_event n] = PDict d'" "map_of d' k = Some v"
    "\<forall>j. j \<noteq> k \<and> j \<noteq> ''events'' \<longrightarrow> map_of d' j = map_of d j"
  using assms that by (simp add: merge_state_def merge_field_def note_event_def map_of_dict_set)

lemma merge_two:
  assumes "k \<noteq> ''events''" "l \<noteq> ''events''" "k \<noteq> l"
  obtains d' where "merge_state (PDict d) [(k, v), (l, u), note_event n] = PDict d'" "map_of d' k = Some v" "map_of d' l = Some u"
    "\<forall>j. j \<noteq> k \<and> j \<noteq> l \<and> j \<noteq> ''events'' \<longrightarrow> map_of d' j = map_of d j"
  using assms that by (simp add: merge_state_def merge_field_def note_event_def map_of_dict_set)

lemma fields_differ: "''employee'' \<noteq> ''events''" "''checklist'' \<noteq> ''events''" "''plan_notes'' \<noteq> ''events''"
  "''checklist'' \<noteq> ''plan_notes''" "''approval'' \<noteq> ''events''" "''revocation'' \<noteq> ''events''" "''paperwork'' \<noteq> ''events''"
  "''signed_document'' \<noteq> ''events''" "''archive'' \<noteq> ''events''"
  by simp_all

section \<open>The three drives\<close>

definition run_keys :: "string \<Rightarrow> string set" where
  "run_keys rid = {revoke_key rid, packet_key rid, archive_key rid}"

lemma keys_differ [simp]:
  "revoke_key rid \<noteq> packet_key rid'" "packet_key rid' \<noteq> revoke_key rid"
  "revoke_key rid \<noteq> archive_key rid'" "archive_key rid' \<noteq> revoke_key rid"
  "packet_key rid \<noteq> archive_key rid'" "archive_key rid' \<noteq> packet_key rid"
proof -
  have "rev (revoke_key rid) \<noteq> rev (packet_key rid')" "rev (revoke_key rid) \<noteq> rev (archive_key rid')"
    "rev (packet_key rid) \<noteq> rev (archive_key rid')"
    by (simp_all add: revoke_key_def packet_key_def archive_key_def build_key_def)
  then show "revoke_key rid \<noteq> packet_key rid'" "packet_key rid' \<noteq> revoke_key rid"
    "revoke_key rid \<noteq> archive_key rid'" "archive_key rid' \<noteq> revoke_key rid"
    "packet_key rid \<noteq> archive_key rid'" "archive_key rid' \<noteq> packet_key rid"
    by metis+
qed

text \<open>What the thread's state holds at the first gate, and at the second.\<close>

definition planned :: "string \<Rightarrow> string \<Rightarrow> pyval \<Rightarrow> plan \<Rightarrow> (string \<times> pyval) list \<Rightarrow> bool" where
  "planned rid emp v p d \<longleftrightarrow> map_of d ''run_id'' = Some (PStr rid) \<and> map_of d ''employee_id'' = Some (PStr emp)
     \<and> map_of d ''employee'' = Some v \<and> map_of d ''checklist'' = Some (checklist_of p)"

definition dispatched :: "string \<Rightarrow> string \<Rightarrow> plan \<Rightarrow> (string \<times> pyval) list \<Rightarrow> bool" where
  "dispatched rid emp p d \<longleftrightarrow> map_of d ''run_id'' = Some (PStr rid) \<and> map_of d ''employee_id'' = Some (PStr emp)
     \<and> map_of d ''checklist'' = Some (checklist_of p) \<and> (\<exists>approver nte. map_of d ''approval'' = Some (decision approver nte))
     \<and> (\<exists>e sys k. map_of d ''revocation'' = Some (iam_receipt e sys k))
     \<and> (\<exists>e mail n k. map_of d ''paperwork'' = Some (paperwork_receipt e mail n k))"

lemma dict_run_id: "map_of d ''run_id'' = Some (PStr rid) \<Longrightarrow> state_run_id (PDict d) = Inr rid"
  by (simp add: state_run_id_def py_item_def)

lemma dict_item: "map_of d k = Some x \<Longrightarrow> py_item (PDict d) k = Inr x"
  by (simp add: py_item_def)

definition gate_stop :: "pause_reason \<Rightarrow> (string \<times> pyval) list \<Rightarrow> (world \<Rightarrow> bool) \<Rightarrow> outcome \<Rightarrow> checkpoint \<Rightarrow> world \<Rightarrow> bool" where
  "gate_stop reason d Q out ck w \<longleftrightarrow> (\<exists>q. out = Interrupted (PDict ((''pause_reason'', PStr (pause_value reason)) # q)) (PDict d))
     \<and> ck_next ck = step_value (gate_of reason) \<and> ck_values ck = PDict d \<and> Q w"

lemma first_drive:
  assumes svc: "app_services svc" and rec: "map_of EMPLOYEE_DIRECTORY emp = Some v" and plan: "plans svc v p"
    and room: "3 \<le> M" "1 \<le> N"
    and start: "map_of d ''run_id'' = Some (PStr rid)" "map_of d ''employee_id'' = Some (PStr emp)"
  obtains d' where "planned rid emp v p d'"
    "reaches (build_graph svc) (step_value FETCH_EMPLOYEE) None (PDict d) (ready M N rid f ks ds 0 0)
       (gate_stop HR_APPROVAL d' (ready M N rid f ks ds 3 1))"
proof -
  have app: "ex_registry (svc_executor svc) = app_registry" using svc by (simp add: app_services_def)
  have lt: "0 < M" "0 + 1 < M" "0 + 1 + 1 < M" "0 < N" using room by simp_all
  obtain n1 where one: "yields (ready M N rid f ks ds 0 0) (fetch_employee svc (interrupt_with None) (PDict d))
      [(''employee'', v), note_event n1] (ready M N rid f ks ds (0 + 1) (0 + 1))"
    using fetch_progress [OF app lt(1,4) dict_run_id [OF start(1)] dict_item [OF start(2)] rec] by blast
  obtain d1 where d1: "merge_state (PDict d) [(''employee'', v), note_event n1] = PDict d1" "map_of d1 ''employee'' = Some v"
    "\<forall>j. j \<noteq> ''employee'' \<and> j \<noteq> ''events'' \<longrightarrow> map_of d1 j = map_of d j"
    by (rule merge_one [OF fields_differ(1)])
  have s1: "map_of d1 ''run_id'' = Some (PStr rid)" "map_of d1 ''employee_id'' = Some (PStr emp)" using d1(3) start by simp_all
  obtain n2 where two: "yields (ready M N rid f ks ds (0 + 1) (0 + 1)) (plan_deprovisioning svc (interrupt_with None) (PDict d1))
      [(''checklist'', checklist_of p), (''plan_notes'', PStr (plan_notes p)), note_event n2] (ready M N rid f ks ds (0 + 1 + 1) (0 + 1))"
    using plan_progress [OF plan lt(2) dict_run_id [OF s1(1)] dict_item [OF d1(2)]] by blast
  obtain d2 where d2: "merge_state (PDict d1) [(''checklist'', checklist_of p), (''plan_notes'', PStr (plan_notes p)), note_event n2] = PDict d2"
    "map_of d2 ''checklist'' = Some (checklist_of p)"
    "\<forall>j. j \<noteq> ''checklist'' \<and> j \<noteq> ''plan_notes'' \<and> j \<noteq> ''events'' \<longrightarrow> map_of d2 j = map_of d1 j"
    by (rule merge_two [OF fields_differ(2,3,4)])
  have planned: "planned rid emp v p d2" using d2(2,3) d1(2) s1 by (simp add: planned_def)
  then obtain q where three: "ends (ready M N rid f ks ds (0 + 1 + 1) (0 + 1)) (await_hr_approval svc (interrupt_with None) (PDict d2))
      (Inl (GraphInterrupt (PDict ((''pause_reason'', PStr (pause_value HR_APPROVAL)) # q)))) (ready M N rid f ks ds (0 + 1 + 1 + 1) (0 + 1))"
    using planned approval_waits [OF hr_records [OF rec] lt(3) dict_run_id refl, of d2] unfolding planned_def by blast
  have "reaches (build_graph svc) (step_value AWAIT_HR_APPROVAL) None (PDict d2) (ready M N rid f ks ds (0 + 1 + 1) (0 + 1))
      (gate_stop HR_APPROVAL d2 (ready M N rid f ks ds 3 1))"
    by (rule reaches_weaken [OF reaches_pause [OF workflow_nodes(3) step_not_END three]]) (auto simp: gate_stop_def)
  then have "reaches (build_graph svc) (step_value PLAN_DEPROVISIONING) None (PDict d1) (ready M N rid f ks ds (0 + 1) (0 + 1))
      (gate_stop HR_APPROVAL d2 (ready M N rid f ks ds 3 1))"
    by (intro reaches_step [OF workflow_nodes(2) step_not_END build_graph_edges(3) two]) (simp only: d2(1))
  then have "reaches (build_graph svc) (step_value FETCH_EMPLOYEE) None (PDict d) (ready M N rid f ks ds 0 0)
      (gate_stop HR_APPROVAL d2 (ready M N rid f ks ds 3 1))"
    by (intro reaches_step [OF workflow_nodes(1) step_not_END build_graph_edges(2) one]) (simp only: d1(1))
  with planned show ?thesis by (rule that)
qed

lemma second_drive:
  assumes svc: "app_services svc" and rec: "hr_record emp v" and k: "int k < max_attempts (ex_policy (svc_executor svc))"
    and room: "a + 4 \<le> M" "b + int k + 2 \<le> N" and st: "planned rid emp v p d"
    and keys: "revoke_key rid \<in> ks" "packet_key rid \<in> ks" "snd ` ds \<inter> run_keys rid = {}"
  obtains d' where "dispatched rid emp p d'"
    "reaches (build_graph svc) (step_value AWAIT_HR_APPROVAL) (Some (decision approver nte)) (PDict d)
       (ready M N rid (Some (flaky k)) ks ds a b)
       (gate_stop SIGNED_DOCUMENT d' (ready M N rid None (ks - {revoke_key rid} - {packet_key rid})
          (insert (''documents'', packet_key rid) (insert (''iam'', revoke_key rid) ds)) (a + 4) (b + int k + 2)))"
proof -
  let ?f = "Some (flaky k)"
  let ?ks1 = "ks - {revoke_key rid}" and ?ds1 = "insert (''iam'', revoke_key rid) ds"
  let ?ks2 = "?ks1 - {packet_key rid}" and ?ds2 = "insert (''documents'', packet_key rid) ?ds1"
  have app: "ex_registry (svc_executor svc) = app_registry" "retries_as_documented (ex_tenacity (svc_executor svc))"
    using svc by (simp_all add: app_services_def)
  have lt: "a < M" "a + 1 < M" "a + 1 + 1 < M" "a + 1 + 1 + 1 < M" "b + int k < N" "b + int k + 1 < N" using room by simp_all
  have fresh: "revoke_key rid \<notin> snd ` ds" "packet_key rid \<in> ?ks1" "packet_key rid \<notin> snd ` ?ds1"
    using keys by (auto simp: run_keys_def)
  have d: "map_of d ''run_id'' = Some (PStr rid)" "map_of d ''employee_id'' = Some (PStr emp)"
      "map_of d ''employee'' = Some v" "map_of d ''checklist'' = Some (checklist_of p)"
    using st by (simp_all add: planned_def)
  obtain n1 where one: "yields (ready M N rid ?f ks ds a b)
      (await_hr_approval svc (interrupt_with (Some (decision approver nte))) (PDict d))
      [(''approval'', decision approver nte), note_event n1] (ready M N rid ?f ks ds (a + 1) b)"
    using approval_passes [OF rec lt(1) dict_run_id [OF d(1)] refl d(3,4)] by blast
  obtain d1 where d1: "merge_state (PDict d) [(''approval'', decision approver nte), note_event n1] = PDict d1"
    "map_of d1 ''approval'' = Some (decision approver nte)"
    "\<forall>j. j \<noteq> ''approval'' \<and> j \<noteq> ''events'' \<longrightarrow> map_of d1 j = map_of d j"
    by (rule merge_one [OF fields_differ(5)])
  have s1: "map_of d1 ''run_id'' = Some (PStr rid)" "map_of d1 ''employee_id'' = Some (PStr emp)"
      "map_of d1 ''employee'' = Some v" "map_of d1 ''checklist'' = Some (checklist_of p)"
    using d1(3) d by simp_all
  obtain n2 where two: "yields (ready M N rid ?f ks ds (a + 1) b) (revoke_access svc (interrupt_with None) (PDict d1))
      [(''revocation'', iam_receipt (PStr emp) (plan_systems p) (revoke_key rid)), note_event n2]
      (ready M N rid None ?ks1 ?ds1 (a + 1 + 1) (b + int k + 1))"
    using revoke_progress [OF app k lt(2,5) keys(1) fresh(1) dict_run_id [OF s1(1)] dict_item [OF s1(2)] dict_item [OF s1(4)]] by blast
  obtain d2 where d2: "merge_state (PDict d1) [(''revocation'', iam_receipt (PStr emp) (plan_systems p) (revoke_key rid)), note_event n2] = PDict d2"
    "map_of d2 ''revocation'' = Some (iam_receipt (PStr emp) (plan_systems p) (revoke_key rid))"
    "\<forall>j. j \<noteq> ''revocation'' \<and> j \<noteq> ''events'' \<longrightarrow> map_of d2 j = map_of d1 j"
    by (rule merge_one [OF fields_differ(6)])
  have s2: "map_of d2 ''run_id'' = Some (PStr rid)" "map_of d2 ''employee_id'' = Some (PStr emp)"
      "map_of d2 ''employee'' = Some v" "map_of d2 ''checklist'' = Some (checklist_of p)"
      "map_of d2 ''approval'' = Some (decision approver nte)"
    using d2(3) s1 d1(2) by simp_all
  obtain mail n n3 where three: "yields (ready M N rid None ?ks1 ?ds1 (a + 1 + 1) (b + int k + 1))
      (send_exit_paperwork svc (interrupt_with None) (PDict d2))
      [(''paperwork'', paperwork_receipt (PStr emp) mail n (packet_key rid)), note_event n3]
      (ready M N rid None ?ks2 ?ds2 (a + 1 + 1 + 1) (b + int k + 1 + 1))"
    using send_progress [OF app(1) lt(3,6) fresh(2,3) rec dict_run_id [OF s2(1)] dict_item [OF s2(2)] dict_item [OF s2(4)] dict_item [OF s2(3)]]
    by blast
  obtain d3 where d3: "merge_state (PDict d2) [(''paperwork'', paperwork_receipt (PStr emp) mail n (packet_key rid)), note_event n3] = PDict d3"
    "map_of d3 ''paperwork'' = Some (paperwork_receipt (PStr emp) mail n (packet_key rid))"
    "\<forall>j. j \<noteq> ''paperwork'' \<and> j \<noteq> ''events'' \<longrightarrow> map_of d3 j = map_of d2 j"
    by (rule merge_one [OF fields_differ(7)])
  have s3: "map_of d3 ''run_id'' = Some (PStr rid)" and sent: "dispatched rid emp p d3"
    using d3(2,3) s2 d2(2) by (auto simp: dispatched_def)
  obtain q where four: "ends (ready M N rid None ?ks2 ?ds2 (a + 1 + 1 + 1) (b + int k + 1 + 1))
      (await_signed_document svc (interrupt_with None) (PDict d3))
      (Inl (GraphInterrupt (PDict ((''pause_reason'', PStr (pause_value SIGNED_DOCUMENT)) # q))))
      (ready M N rid None ?ks2 ?ds2 (a + 1 + 1 + 1 + 1) (b + int k + 1 + 1))"
    using signature_waits [OF lt(4) dict_run_id [OF s3] refl d3(2)] by blast
  have sums: "a + 1 + 1 + 1 + 1 = a + 4" "b + int k + 1 + 1 = b + int k + 2" by simp_all
  let ?X = "gate_stop SIGNED_DOCUMENT d3 (ready M N rid None ?ks2 ?ds2 (a + 4) (b + int k + 2))"
  have "reaches (build_graph svc) (step_value AWAIT_SIGNED_DOCUMENT) None (PDict d3)
      (ready M N rid None ?ks2 ?ds2 (a + 1 + 1 + 1) (b + int k + 1 + 1)) ?X"
    by (rule reaches_weaken [OF reaches_pause [OF workflow_nodes(6) step_not_END four]])
      (auto simp only: gate_stop_def sums gate_of.simps checkpoint.simps)
  then have "reaches (build_graph svc) (step_value SEND_EXIT_PAPERWORK) None (PDict d2)
      (ready M N rid None ?ks1 ?ds1 (a + 1 + 1) (b + int k + 1)) ?X"
    by (intro reaches_step [OF workflow_nodes(5) step_not_END build_graph_edges(6) three]) (simp only: d3(1))
  then have "reaches (build_graph svc) (step_value REVOKE_ACCESS) None (PDict d1) (ready M N rid ?f ks ds (a + 1) b) ?X"
    by (intro reaches_step [OF workflow_nodes(4) step_not_END build_graph_edges(5) two]) (simp only: d2(1))
  then have "reaches (build_graph svc) (step_value AWAIT_HR_APPROVAL) (Some (decision approver nte)) (PDict d) (ready M N rid ?f ks ds a b) ?X"
    by (intro reaches_step [OF workflow_nodes(3) step_not_END build_graph_edges(4) one]) (simp only: d1(1))
  with sent show ?thesis by (rule that)
qed

lemma third_drive:
  assumes svc: "app_services svc" and room: "a + 2 \<le> M" "b + 1 \<le> N" and st: "dispatched rid emp p d"
    and keys: "archive_key rid \<in> ks" "archive_key rid \<notin> snd ` ds"
  shows "reaches (build_graph svc) (step_value AWAIT_SIGNED_DOCUMENT) (Some (signed_event doc time)) (PDict d)
      (ready M N rid f ks ds a b)
      (\<lambda>out ck w. (\<exists>v. out = Finished v) \<and> ck_next ck = END
         \<and> ready M N rid None (ks - {archive_key rid}) (insert (''archive'', archive_key rid) ds) (a + 2) (b + 1) w)"
    (is "reaches _ _ _ _ _ ?X")
proof -
  have app: "ex_registry (svc_executor svc) = app_registry" using svc by (simp add: app_services_def)
  have lt: "a < M" "a + 1 < M" "b < N" using room by simp_all
  obtain approver nte e1 sys k1 e2 mail n k2 where d: "map_of d ''run_id'' = Some (PStr rid)" "map_of d ''employee_id'' = Some (PStr emp)"
      "map_of d ''checklist'' = Some (checklist_of p)" "map_of d ''approval'' = Some (decision approver nte)"
      "map_of d ''revocation'' = Some (iam_receipt e1 sys k1)" "map_of d ''paperwork'' = Some (paperwork_receipt e2 mail n k2)"
    using st unfolding dispatched_def by blast
  obtain n1 where one: "yields (ready M N rid f ks ds a b)
      (await_signed_document svc (interrupt_with (Some (signed_event doc time))) (PDict d))
      [(''signed_document'', signed_event doc time), note_event n1] (ready M N rid f ks ds (a + 1) b)"
    using signature_passes [OF lt(1) dict_run_id [OF d(1)] refl d(6)] by blast
  obtain d1 where d1: "merge_state (PDict d) [(''signed_document'', signed_event doc time), note_event n1] = PDict d1"
    "map_of d1 ''signed_document'' = Some (signed_event doc time)"
    "\<forall>j. j \<noteq> ''signed_document'' \<and> j \<noteq> ''events'' \<longrightarrow> map_of d1 j = map_of d j"
    by (rule merge_one [OF fields_differ(8)])
  have s1: "map_of d1 ''run_id'' = Some (PStr rid)" "map_of d1 ''employee_id'' = Some (PStr emp)"
      "map_of d1 ''checklist'' = Some (checklist_of p)" "map_of d1 ''approval'' = Some (decision approver nte)"
      "map_of d1 ''revocation'' = Some (iam_receipt e1 sys k1)" "map_of d1 ''paperwork'' = Some (paperwork_receipt e2 mail n k2)"
    using d1(3) d by simp_all
  obtain x n2 where two: "yields (ready M N rid f ks ds (a + 1) b) (finalize svc (interrupt_with None) (PDict d1))
      [(''archive'', x), note_event n2]
      (ready M N rid None (ks - {archive_key rid}) (insert (''archive'', archive_key rid) ds) (a + 1 + 1) (b + 1))"
    using finalize_progress [OF app lt(2,3) keys refl s1] by blast
  have none: "map_of (g_nodes (build_graph svc)) END = None"
    by (simp add: build_graph_def WORKFLOW_def END_def)
  have sum: "a + 1 + 1 = a + 2" by simp
  have "reaches (build_graph svc) END None (merge_state (PDict d1) [(''archive'', x), note_event n2])
      (ready M N rid None (ks - {archive_key rid}) (insert (''archive'', archive_key rid) ds) (a + 1 + 1) (b + 1)) ?X"
    by (rule reaches_weaken [OF reaches_end [OF none]]) (auto simp only: sum)
  then have "reaches (build_graph svc) (step_value FINALIZE) None (PDict d1) (ready M N rid f ks ds (a + 1) b) ?X"
    by (intro reaches_step [OF workflow_nodes(7) step_not_END build_graph_edges(8) two])
  then show ?thesis
    by (intro reaches_step [OF workflow_nodes(6) step_not_END build_graph_edges(7) one]) (simp only: d1(1))
qed

section \<open>The requests\<close>

lemma stands_set_status:
  assumes w: "stands s M N rid f ks ds a b w" and t: "t \<in> ALLOWED_RUN_TRANSITIONS s"
  obtains r w' where "set_status rid t pr None None w = (Inr r, w')" "lookup_run w' rid = Some r" "run_id r = rid"
    "status r = t" "pause_reason r = pr" "map_option thread_id (lookup_run w rid) = Some (thread_id r)"
    "stands t M N rid f ks ds a b w'"
proof -
  obtain r where r: "lookup_run w rid = Some r" "status r = s" "\<not> cancel_requested r" "step_count r = a"
      "tool_call_count r = b" "max_steps r = M" "max_tool_calls r = N"
    using w by (auto simp: stands_def on_run_def)
  let ?t = "clock w (clock_reads w)"
  let ?w' = "w\<lparr>clock_reads := Suc (clock_reads w),
      runs_tbl := tupdate run_id rid (write_status t pr None None ?t) (runs_tbl w)\<rparr>"
  let ?r = "write_status t pr None None ?t r"
  have set: "set_status rid t pr None None w = (Inr ?r, ?w')"
    using r(1,2) t run_cycle.accepts by (simp add: set_status_eq Let_def)
  have row: "lookup_run ?w' rid = Some ?r" using r(1) by (simp add: lookup_run_def tfind_tupdate)
  have "tidy ks ds w" using w by (simp add: stands_def)
  then have wf: "trace_wf w" by (simp add: tidy_def)
  have "tidy ks ds w" using w by (simp add: stands_def)
  then have "tidy ks ds ?w'" by (rule tidy_same) (simp_all add: wf)
  moreover have "on_run t M N rid a b ?w'" using row r by (simp add: on_run_def)
  ultimately have "stands t M N rid f ks ds a b ?w'" using w by (simp add: stands_def)
  with set row show ?thesis using r(1) lookup_run_id [OF r(1)] by (intro that [of ?r ?w']) simp_all
qed

definition dead :: "exc + 'a \<Rightarrow> bool" where
  "dead res \<longleftrightarrow> (\<exists>m. res = Inl (Exc BaseException m))"

lemma base_not_caught: "failure_for (Exc BaseException m) = None" "\<not> is_instance (Exc BaseException m) RunCancelled"
proof -
  have "failure_for (Exc BaseException []) = None" "\<not> is_instance (Exc BaseException []) RunCancelled" by code_simp+
  then show "failure_for (Exc BaseException m) = None" "\<not> is_instance (Exc BaseException m) RunCancelled"
    by (simp_all add: failure_for_def is_instance_def)
qed

lemma advance_invokes:
  assumes lg: "langgraph_ok lg (build_graph svc)"
    and entry: "entry (build_graph svc) (lg_view lg c (thread_id r)) inp = Some (s, x, v)"
    and drive: "reaches (build_graph svc) s x v P X" and "P w"
  obtains (killed) e s' where "advance lg svc r inp (w, c) = (e, s')" "dead e"
  | (stopped) out ck w1 c1 where "lg_invoke lg (build_graph svc) inp (thread_id r) (w, c) = (deliver out, (w1, c1))"
      "X out ck w1" "lg_view lg c1 (thread_id r) = Some ck"
proof -
  obtain res w1 c1 where inv: "lg_invoke lg (build_graph svc) inp (thread_id r) (w, c) = (res, (w1, c1))"
    by (metis surj_pair)
  obtain out ck where out: "drives (build_graph svc) s x v w out ck w1" "res = deliver out"
      "lg_view lg c1 (thread_id r) = Some ck"
    using langgraph_okD [OF lg entry inv] by metis
  show ?thesis
  proof (cases "killed out")
    case True
    then obtain m where "res = Inl (Exc BaseException m)" using out(2) by (auto simp: killed_def deliver_def)
    then have "advance lg svc r inp (w, c) = (Inl (Exc BaseException m), (w1, c1))"
      using inv by (simp add: advance_def mtry_apply base_not_caught)
    then show ?thesis by (rule killed) (simp add: dead_def)
  next
    case False
    then have "X out ck w1" using drive out(1) \<open>P w\<close> by (auto simp: reaches_def)
    then show ?thesis using inv out(2,3) by (intro stopped [of out w1 c1 ck]) simp_all
  qed
qed

text \<open>A run that waits at a gate, with the thread that waits for it.\<close>

definition waiting :: "pause_reason \<Rightarrow> string \<Rightarrow> (string \<times> pyval) list \<Rightarrow> 'c langgraph \<Rightarrow> world \<Rightarrow> 'c \<Rightarrow> bool" where
  "waiting reason rid d lg w c \<longleftrightarrow> (\<exists>r. lookup_run w rid = Some r \<and> status r = RPaused \<and> pause_reason r = Some reason)
     \<and> (\<exists>ck. lg_view lg c (thread_of rid) = Some ck \<and> ck_next ck = step_value (gate_of reason) \<and> ck_values ck = PDict d)"

lemma advance_pauses:
  assumes lg: "langgraph_ok lg (build_graph svc)" and r: "thread_id r = thread_of rid" "run_id r = rid"
    and entry: "entry (build_graph svc) (lg_view lg c (thread_of rid)) inp = Some (s, x, v)"
    and drive: "reaches (build_graph svc) s x v P (gate_stop reason d (ready M N rid f ks ds a b))" and "P w"
  obtains (killed) e s' where "advance lg svc r inp (w, c) = (e, s')" "dead e"
  | (waits) w' c' where "advance lg svc r inp (w, c) = (Inr (), (w', c'))" "waiting reason rid d lg w' c'"
      "stands RPaused M N rid f ks ds a b w'"
proof (rule advance_invokes [OF lg entry [folded r(1)] drive \<open>P w\<close>])
  fix e s' assume "advance lg svc r inp (w, c) = (e, s')" "dead e"
  then show thesis by (rule killed)
next
  fix out ck w1 c1
  assume inv: "lg_invoke lg (build_graph svc) inp (thread_id r) (w, c) = (deliver out, (w1, c1))"
    and stop: "gate_stop reason d (ready M N rid f ks ds a b) out ck w1" and view: "lg_view lg c1 (thread_id r) = Some ck"
  obtain q where q: "out = Interrupted (PDict ((''pause_reason'', PStr (pause_value reason)) # q)) (PDict d)"
      "ck_next ck = step_value (gate_of reason)" "ck_values ck = PDict d" "ready M N rid f ks ds a b w1"
    using stop by (auto simp: gate_stop_def)
  have move: "RPaused \<in> ALLOWED_RUN_TRANSITIONS RRunning" by simp
  obtain r' w' where set: "set_status rid RPaused (Some reason) None None w1 = (Inr r', w')" "lookup_run w' rid = Some r'"
    "run_id r' = rid" "status r' = RPaused" "pause_reason r' = Some reason" "stands RPaused M N rid f ks ds a b w'"
    by (rule stands_set_status [OF q(4) move])
  have "requested_pause (PDict ((''pause_reason'', PStr (pause_value reason)) # q)) = Inr reason"
    by (simp add: requested_pause_def py_item_def)
  then have "advance lg svc r inp (w, c) = (Inr (), (w', c1))"
    using inv set(1) q(1) r(2) by (simp add: advance_def mtry_apply deliver_def on_db_apply mseq_apply)
  moreover have "waiting reason rid d lg w' c1" using set(2,4,5) view q(2,3) r(1) by (simp add: waiting_def)
  ultimately show thesis using set(6) by (rule waits)
qed

lemma start_progress:
  assumes svc: "app_services svc" and lg: "langgraph_ok lg (build_graph svc)" and inv: "service_inv lg (w, c)"
    and rec: "map_of EMPLOYEE_DIRECTORY emp = Some v" and plan: "plans svc v p" and room: "3 \<le> M" "1 \<le> N"
    and rid: "rid = ''run_'' @ take 12 (uuids w (uuid_reads w))" "lookup_run w rid = None"
    and world: "\<forall>k \<in> run_keys rid. unused k w" "iam w = flaky k" "paperwork_failures w \<le> 0"
    and run: "start_run lg svc emp M N (w, c) = (res, (w', c'))"
  shows "dead res \<or> (\<exists>d r. res = Inr r \<and> lookup_run w' rid = Some r \<and> planned rid emp v p d \<and> waiting HR_APPROVAL rid d lg w' c'
    \<and> stands RPaused M N rid (Some (flaky k)) (run_keys rid) {} 3 1 w')"
proof -
  have "thread_ok lg w c rid" using service_invD(3) [OF inv] .
  then have db: "db_inv w" "lg_view lg c (thread_of rid) = None"
    using service_invD(1) [OF inv] by (simp_all only: thread_ok_def rid(2) option.case)
  have wf: "runs_wf w" "trace_wf w" using db(1) by (simp_all add: db_inv_def)
  let ?t = "clock w (clock_reads w)"
  let ?r = "new_run rid emp M N ?t"
  let ?u = "w\<lparr>uuid_reads := Suc (uuid_reads w), clock_reads := Suc (clock_reads w)\<rparr>"
  let ?w1 = "?u\<lparr>runs_tbl := runs_tbl w @ [?r]\<rparr>"
  have "runs_wf ?u" using wf(1) by (simp add: runs_wf_def)
  from insert_run_eq [OF this, of ?r] have ins: "insert_run ?r ?u = (Inr (), ?w1)" using rid(2) by simp
  have row1: "lookup_run ?w1 rid = Some ?r" using rid(2) by (simp add: lookup_run_def tfind_append tfind_Cons)
  have create: "runs_create emp None M N w = (Inr ?r, ?w1)"
    using ins row1 rid(1) by (simp add: runs_create_def fresh_run_id_def eff_apply runs_get_eq)
  have "tidy (run_keys rid) {} w" using world(1,3) wf(2) by (simp add: tidy_def)
  then have "tidy (run_keys rid) {} ?w1" by (rule tidy_same) (simp_all add: wf(2))
  then have pending: "stands RPending M N rid (Some (flaky k)) (run_keys rid) {} 0 0 ?w1"
    using row1 world(2) by (simp add: stands_def on_run_def)
  have move: "RRunning \<in> ALLOWED_RUN_TRANSITIONS RPending" by simp
  obtain r2 w2 where two: "set_status rid RRunning None None None ?w1 = (Inr r2, w2)" "lookup_run w2 rid = Some r2"
    "run_id r2 = rid" "map_option thread_id (lookup_run ?w1 rid) = Some (thread_id r2)"
    "ready M N rid (Some (flaky k)) (run_keys rid) {} 0 0 w2"
    by (rule stands_set_status [OF pending move])
  let ?inp = "[(''run_id'', PStr rid), (''employee_id'', PStr emp), (''events'', PList [])]"
  obtain d0 where d0: "merge_state (PDict []) ?inp = PDict d0" "map_of d0 ''run_id'' = Some (PStr rid)"
      "map_of d0 ''employee_id'' = Some (PStr emp)"
    by (simp add: merge_state_def merge_field_def)
  have entry: "entry (build_graph svc) (lg_view lg c (thread_of rid)) (Input ?inp) =
      Some (step_value FETCH_EMPLOYEE, None, PDict d0)"
    by (simp add: entry_def db(2) d0(1))
  obtain d where d: "planned rid emp v p d" "reaches (build_graph svc) (step_value FETCH_EMPLOYEE) None (PDict d0)
      (ready M N rid (Some (flaky k)) (run_keys rid) {} 0 0)
      (gate_stop HR_APPROVAL d (ready M N rid (Some (flaky k)) (run_keys rid) {} 3 1))"
    by (rule first_drive [OF svc rec plan room d0(2,3)])
  have thread: "thread_id r2 = thread_of rid" using two(4) row1 by simp
  have start: "start_run lg svc emp M N (w, c) =
      mseq (advance lg svc r2 (Input ?inp)) (on_db (runs_get rid)) (w2, c)"
    using create two(1,3) by (simp add: start_run_def mbind_apply on_db_apply)
  show ?thesis
  proof (rule advance_pauses [OF lg thread two(3) entry d(2) two(5)])
    fix e s' assume "advance lg svc r2 (Input ?inp) (w2, c) = (e, s')" "dead e"
    then have "dead res" using run start by (auto simp: dead_def mseq_apply)
    then show ?thesis ..
  next
    fix w3 c3 assume adv: "advance lg svc r2 (Input ?inp) (w2, c) = (Inr (), (w3, c3))" "waiting HR_APPROVAL rid d lg w3 c3"
      "stands RPaused M N rid (Some (flaky k)) (run_keys rid) {} 3 1 w3"
    then obtain r where "lookup_run w3 rid = Some r" by (auto simp: waiting_def)
    then have "res = Inr r \<and> w' = w3 \<and> c' = c3" using run start adv(1) by (simp add: mseq_apply on_db_get)
    with adv d(1) \<open>lookup_run w3 rid = Some r\<close> show ?thesis by blast
  qed
qed

lemma approve_progress:
  assumes svc: "app_services svc" and lg: "langgraph_ok lg (build_graph svc)" and inv: "service_inv lg (w, c)"
    and rec: "hr_record emp v" and k: "int k < max_attempts (ex_policy (svc_executor svc))" and room: "a + 4 \<le> M" "b + int k + 2 \<le> N"
    and wait: "planned rid emp v p d" "waiting HR_APPROVAL rid d lg w c" "stands RPaused M N rid (Some (flaky k)) (run_keys rid) {} a b w"
    and run: "approve lg svc rid approver nte (w, c) = (res, (w', c'))"
  shows "dead res \<or> (\<exists>d r. res = Inr r \<and> lookup_run w' rid = Some r \<and> dispatched rid emp p d \<and> waiting SIGNED_DOCUMENT rid d lg w' c'
    \<and> stands RPaused M N rid None {archive_key rid} {(''documents'', packet_key rid), (''iam'', revoke_key rid)} (a + 4) (b + int k + 2) w')"
proof -
  obtain r ck where r: "lookup_run w rid = Some r" "status r = RPaused" "pause_reason r = Some HR_APPROVAL"
    and ck: "lg_view lg c (thread_of rid) = Some ck" "ck_next ck = step_value AWAIT_HR_APPROVAL" "ck_values ck = PDict d"
    using wait(2) by (auto simp: waiting_def)
  have move: "RRunning \<in> ALLOWED_RUN_TRANSITIONS RPaused" by simp
  obtain r2 w2 where two: "set_status rid RRunning None None None w = (Inr r2, w2)" "lookup_run w2 rid = Some r2"
    "run_id r2 = rid" "map_option thread_id (lookup_run w rid) = Some (thread_id r2)"
    "ready M N rid (Some (flaky k)) (run_keys rid) {} a b w2"
    by (rule stands_set_status [OF wait(3) move])
  have thread: "thread_id r2 = thread_of rid"
    using two(4) r(1) thread_id_of [OF service_invD(1) [OF inv] r(1)] by simp
  have "step_value AWAIT_HR_APPROVAL \<in> fst ` set (g_nodes (build_graph svc))" using step_names_iff by blast
  then have entry: "entry (build_graph svc) (lg_view lg c (thread_of rid)) (Resume (decision approver nte)) =
      Some (step_value AWAIT_HR_APPROVAL, Some (decision approver nte), PDict d)"
    by (simp add: entry_def ck del: step_value.simps)
  have keys: "revoke_key rid \<in> run_keys rid" "packet_key rid \<in> run_keys rid" "snd ` {} \<inter> run_keys rid = {}"
    by (simp_all add: run_keys_def)
  have left: "run_keys rid - {revoke_key rid} - {packet_key rid} = {archive_key rid}" by (auto simp: run_keys_def)
  obtain d' where d': "dispatched rid emp p d'" "reaches (build_graph svc) (step_value AWAIT_HR_APPROVAL) (Some (decision approver nte)) (PDict d)
      (ready M N rid (Some (flaky k)) (run_keys rid) {} a b)
      (gate_stop SIGNED_DOCUMENT d' (ready M N rid None {archive_key rid} {(''documents'', packet_key rid), (''iam'', revoke_key rid)}
         (a + 4) (b + int k + 2)))"
    by (rule second_drive [OF svc rec k room wait(1) keys, unfolded left])
  have act: "approve lg svc rid approver nte (w, c) =
      mseq (advance lg svc r2 (Resume (decision approver nte))) (on_db (runs_get rid)) (w2, c)"
    using r two(1,3) lookup_run_id [OF r(1)]
    by (simp add: approve_def resolve_approval_def decision_def mbind_apply mseq_apply on_db_apply require_paused_for_def runs_get_eq)
  show ?thesis
  proof (rule advance_pauses [OF lg thread two(3) entry d'(2) two(5)])
    fix e s' assume "advance lg svc r2 (Resume (decision approver nte)) (w2, c) = (e, s')" "dead e"
    then have "dead res" using run act by (auto simp: dead_def mseq_apply)
    then show ?thesis ..
  next
    fix w3 c3 assume adv: "advance lg svc r2 (Resume (decision approver nte)) (w2, c) = (Inr (), (w3, c3))"
      "waiting SIGNED_DOCUMENT rid d' lg w3 c3"
      "stands RPaused M N rid None {archive_key rid} {(''documents'', packet_key rid), (''iam'', revoke_key rid)} (a + 4) (b + int k + 2) w3"
    then obtain r3 where "lookup_run w3 rid = Some r3" by (auto simp: waiting_def)
    then have "res = Inr r3 \<and> w' = w3 \<and> c' = c3" using run act adv(1) by (simp add: mseq_apply on_db_get)
    with adv d'(1) \<open>lookup_run w3 rid = Some r3\<close> show ?thesis by blast
  qed
qed

lemma stands_clock:
  assumes "stands s M N rid f ks ds a b w"
  shows "stands s M N rid f ks ds a b (w\<lparr>clock_reads := n\<rparr>)"
proof -
  have "tidy ks ds w" using assms by (simp add: stands_def)
  moreover from this have "trace_wf w" by (simp add: tidy_def)
  ultimately have "tidy ks ds (w\<lparr>clock_reads := n\<rparr>)" by (elim tidy_same) simp_all
  then show ?thesis using assms by (simp add: stands_def on_run_def)
qed

lemma sign_progress:
  assumes svc: "app_services svc" and lg: "langgraph_ok lg (build_graph svc)" and inv: "service_inv lg (w, c)"
    and room: "a + 2 \<le> M" "b + 1 \<le> N"
    and wait: "dispatched rid emp p d" "waiting SIGNED_DOCUMENT rid d lg w c"
      "stands RPaused M N rid None {archive_key rid} ds a b w" "archive_key rid \<notin> snd ` ds"
    and run: "submit_signed_document lg svc rid doc signed (w, c) = (res, (w', c'))"
  shows "dead res \<or> (\<exists>r. res = Inr r \<and> lookup_run w' rid = Some r \<and> pause_reason r = None
    \<and> stands RCompleted M N rid None {} (insert (''archive'', archive_key rid) ds) (a + 2) (b + 1) w')"
proof -
  obtain r ck where r: "lookup_run w rid = Some r" "status r = RPaused" "pause_reason r = Some SIGNED_DOCUMENT"
    and ck: "lg_view lg c (thread_of rid) = Some ck" "ck_next ck = step_value AWAIT_SIGNED_DOCUMENT" "ck_values ck = PDict d"
    using wait(2) by (auto simp: waiting_def)
  have move: "RRunning \<in> ALLOWED_RUN_TRANSITIONS RPaused" "RCompleted \<in> ALLOWED_RUN_TRANSITIONS RRunning" by simp_all
  obtain r2 w2 where two: "set_status rid RRunning None None None w = (Inr r2, w2)" "lookup_run w2 rid = Some r2"
    "run_id r2 = rid" "map_option thread_id (lookup_run w rid) = Some (thread_id r2)"
    "ready M N rid None {archive_key rid} ds a b w2"
    by (rule stands_set_status [OF wait(3) move(1)])
  have thread: "thread_id r2 = thread_of rid"
    using two(4) r(1) thread_id_of [OF service_invD(1) [OF inv] r(1)] by simp
  obtain time n where time: "signing_time svc signed w2 = (Inr time, w2\<lparr>clock_reads := n\<rparr>)"
    by (rule signing_time_eq)
  let ?w3 = "w2\<lparr>clock_reads := n\<rparr>"
  have ready: "ready M N rid None {archive_key rid} ds a b ?w3" using two(5) by (rule stands_clock)
  have "step_value AWAIT_SIGNED_DOCUMENT \<in> fst ` set (g_nodes (build_graph svc))" using step_names_iff by blast
  then have entry: "entry (build_graph svc) (lg_view lg c (thread_id r2)) (Resume (signed_event doc time)) =
      Some (step_value AWAIT_SIGNED_DOCUMENT, Some (signed_event doc time), PDict d)"
    by (simp add: entry_def ck thread del: step_value.simps)
  have left: "{archive_key rid} - {archive_key rid} = {}" by simp
  note drive = third_drive [OF svc room wait(1) _ wait(4), of "{archive_key rid}" doc time None, unfolded left]
  have act: "submit_signed_document lg svc rid doc signed (w, c) =
      mseq (advance lg svc r2 (Resume (signed_event doc time))) (on_db (runs_get rid)) (?w3, c)"
    using r two(1,3) lookup_run_id [OF r(1)] time
    by (simp add: submit_signed_document_def signed_event_def mbind_apply mseq_apply on_db_apply require_paused_for_def runs_get_eq)
  show ?thesis
  proof (rule advance_invokes [OF lg entry drive ready])
    fix e s' assume "advance lg svc r2 (Resume (signed_event doc time)) (?w3, c) = (e, s')" "dead e"
    then have "dead res" using run act by (auto simp: dead_def mseq_apply)
    then show ?thesis ..
  next
    fix out ck' w4 c4
    assume inv4: "lg_invoke lg (build_graph svc) (Resume (signed_event doc time)) (thread_id r2) (?w3, c) = (deliver out, (w4, c4))"
      and fin: "(\<exists>v. out = Finished v) \<and> ck_next ck' = END
        \<and> ready M N rid None {} (insert (''archive'', archive_key rid) ds) (a + 2) (b + 1) w4"
    then have w4: "ready M N rid None {} (insert (''archive'', archive_key rid) ds) (a + 2) (b + 1) w4" by blast
    obtain r5 w5 where five: "set_status rid RCompleted None None None w4 = (Inr r5, w5)" "lookup_run w5 rid = Some r5"
      "pause_reason r5 = None" "stands RCompleted M N rid None {} (insert (''archive'', archive_key rid) ds) (a + 2) (b + 1) w5"
      by (rule stands_set_status [OF w4 move(2)])
    have "advance lg svc r2 (Resume (signed_event doc time)) (?w3, c) = (Inr (), (w5, c4))"
      using inv4 fin five(1) two(3) by (auto simp: advance_def mtry_apply deliver_def on_db_apply mseq_apply)
    then have "res = Inr r5 \<and> w' = w5" using run act five(2) by (simp add: mseq_apply on_db_get)
    with five(2-4) show ?thesis by blast
  qed simp
qed

section \<open>From start to finish\<close>

text \<open>
  C5. An offboarding gets done: asked to start a run for an employee of the directory, then to
  approve it, then to take in the signed document, the service, in any reachable state and over any
  engine that keeps the contract, either is killed on the way or answers with the run waiting for
  HR, then waiting for the signature, then COMPLETED, although the IAM gateway fails \<open>k\<close> times,
  fewer than the retry policy allows.  Nine steps and \<open>k + 4\<close> tool calls are spent, so these
  allowances are enough, and the revocation, the packet and the archive record have each been
  applied exactly once.
\<close>

theorem approved_and_signed_runs_complete:
  assumes "app_services svc" and "langgraph_ok lg (build_graph svc)" and "\<And>t. lg_view lg c0 t = None"
    and "reachable lg svc c0 (w, c)"
    and "map_of EMPLOYEE_DIRECTORY emp = Some v" and "plans svc v p"
    and "rid = ''run_'' @ take 12 (uuids w (uuid_reads w))" and "lookup_run w rid = None" and "\<forall>key \<in> run_keys rid. unused key w"
    and "iam w = flaky k" and "int k < max_attempts (ex_policy (svc_executor svc))" and "paperwork_failures w \<le> 0"
    and "9 \<le> M" and "int k + 4 \<le> N"
    and "play lg svc [Ask (Start emp M N), Ask (Approve rid approver nte), Ask (Sign rid doc signed)] (w, c) = (rs, (w', c'))"
  shows "(\<exists>res \<in> set rs. dead res)
    \<or> map (map_sum id (\<lambda>r. (status r, pause_reason r))) rs =
        [Inr (RPaused, Some HR_APPROVAL), Inr (RPaused, Some SIGNED_DOCUMENT), Inr (RCompleted, None)]
      \<and> (\<exists>r. lookup_run w' rid = Some r \<and> status r = RCompleted \<and> step_count r = 9 \<and> tool_call_count r = int k + 4)
      \<and> applied_at ''iam'' (revoke_key rid) w' = 1 \<and> applied_at ''documents'' (packet_key rid) w' = 1
      \<and> applied_at ''archive'' (archive_key rid) w' = 1"
proof -
  note inv = reachable_inv [OF assms(1-4)]
  obtain ra wa ca where sa: "start_run lg svc emp M N (w, c) = (ra, (wa, ca))" by (metis surj_pair)
  obtain rb wb cb where sb: "approve lg svc rid approver nte (wa, ca) = (rb, (wb, cb))" by (metis surj_pair)
  obtain rc wc cc where sc: "submit_signed_document lg svc rid doc signed (wb, cb) = (rc, (wc, cc))" by (metis surj_pair)
  have rs: "rs = [ra, rb, rc]" "w' = wc" using assms(15) sa sb sc by simp_all
  have inva: "service_inv lg (wa, ca)"
    using serve_keeps [OF assms(1,2) inv, of "Start emp M N"] sa by simp
  have invb: "service_inv lg (wb, cb)"
    using serve_keeps [OF assms(1,2) inva, of "Approve rid approver nte"] sb by simp
  show ?thesis
  proof (cases "dead ra \<or> dead rb \<or> dead rc")
    case True
    then show ?thesis using rs by auto
  next
    case False
    have room: "3 \<le> M" "1 \<le> N" "3 + 4 \<le> M" "1 + int k + 2 \<le> N" "3 + 4 + 2 \<le> M" "1 + int k + 2 + 1 \<le> N"
      using assms(13,14) by simp_all
    obtain da r1 where a: "ra = Inr r1" "lookup_run wa rid = Some r1" "planned rid emp v p da" "waiting HR_APPROVAL rid da lg wa ca"
        "stands RPaused M N rid (Some (flaky k)) (run_keys rid) {} 3 1 wa"
      using start_progress [OF assms(1,2) inv assms(5,6) room(1,2) assms(7-10,12) sa] False by blast
    obtain db r2 where b: "rb = Inr r2" "lookup_run wb rid = Some r2" "dispatched rid emp p db" "waiting SIGNED_DOCUMENT rid db lg wb cb"
        "stands RPaused M N rid None {archive_key rid} {(''documents'', packet_key rid), (''iam'', revoke_key rid)} (3 + 4) (1 + int k + 2) wb"
      using approve_progress [OF assms(1,2) inva hr_records [OF assms(5)] assms(11) room(3,4) a(3-5) sb] False by blast
    have "archive_key rid \<notin> snd ` {(''documents'', packet_key rid), (''iam'', revoke_key rid)}" by simp
    from sign_progress [OF assms(1,2) invb room(5,6) b(3-5) this sc] False obtain r3 where
      c: "rc = Inr r3" "lookup_run wc rid = Some r3" "pause_reason r3 = None"
        "stands RCompleted M N rid None {} {(''archive'', archive_key rid), (''documents'', packet_key rid), (''iam'', revoke_key rid)}
           (3 + 4 + 2) (1 + int k + 2 + 1) wc"
      by blast
    have "status r1 = RPaused \<and> pause_reason r1 = Some HR_APPROVAL" "status r2 = RPaused \<and> pause_reason r2 = Some SIGNED_DOCUMENT"
      using a(2,4) b(2,4) by (auto simp: waiting_def)
    moreover have "status r3 = RCompleted" "step_count r3 = 9" "tool_call_count r3 = int k + 4"
        "applied_at ''iam'' (revoke_key rid) wc = 1" "applied_at ''documents'' (packet_key rid) wc = 1"
        "applied_at ''archive'' (archive_key rid) wc = 1"
      using c(2,4) by (auto simp: stands_def on_run_def tidy_def settled_def)
    ultimately show ?thesis using rs a(1) b(1) c(1-3) by simp
  qed
qed

text \<open>An instance: the gateway fails twice, the policy allows three attempts.\<close>

definition flaky_world :: world where
  "flaky_world = (empty_world (\<lambda>n. n) (\<lambda>n. show_int (int n)))\<lparr>iam := flaky 2, paperwork_failures := 0\<rparr>"

definition sample_ending :: "(exc + run) list \<times> world \<times> (string \<Rightarrow> checkpoint option)" where
  "sample_ending = play linear_engine sample_services
     [Ask (Start ''emp-003'' 20 30), Ask (Approve ''run_0'' ''hr'' None), Ask (Sign ''run_0'' ''doc'' None)] (flaky_world, \<lambda>t. None)"

lemma sample_ending_returns: "map (\<lambda>r. isl r) (fst sample_ending) = [False, False, False]"
  by code_simp

lemma sample_plan: "\<exists>p. plans sample_services (the (map_of EMPLOYEE_DIRECTORY ''emp-003'')) p"
proof -
  have "\<not> isl (fake_plan documented_pydantic (the (map_of EMPLOYEE_DIRECTORY ''emp-003'')))" by code_simp
  then obtain p where "fake_plan documented_pydantic (the (map_of EMPLOYEE_DIRECTORY ''emp-003'')) = Inr p"
    by (cases "fake_plan documented_pydantic (the (map_of EMPLOYEE_DIRECTORY ''emp-003''))") auto
  then show ?thesis by (auto simp: plans_def sample_services_def fake_llm_def)
qed

theorem approved_and_signed_runs_complete_witness:
  "\<exists>rs w' c' r. sample_ending = (rs, (w', c')) \<and> lookup_run w' ''run_0'' = Some r \<and> status r = RCompleted
    \<and> step_count r = 9 \<and> tool_call_count r = 6 \<and> applied_at ''iam'' (revoke_key ''run_0'') w' = 1"
proof -
  obtain rs w' c' where e: "sample_ending = (rs, (w', c'))" by (metis surj_pair)
  obtain p where p: "plans sample_services (the (map_of EMPLOYEE_DIRECTORY ''emp-003'')) p" using sample_plan by blast
  have fresh: "lg_view linear_engine (\<lambda>t. None) t = None" for t by (simp add: linear_engine_def)
  have reach: "reachable linear_engine sample_services (\<lambda>t. None) (flaky_world, \<lambda>t. None)"
    unfolding flaky_world_def by (intro restarted new_database)
  have world: "\<forall>key \<in> run_keys ''run_0''. unused key flaky_world" "lookup_run flaky_world ''run_0'' = None" "iam flaky_world = flaky 2"
      "paperwork_failures flaky_world \<le> 0"
    by (simp_all add: flaky_world_def empty_world_def unused_def lookup_effect_def lookup_provider_def lookup_run_def)
  have rid: "''run_0'' = ''run_'' @ take 12 (uuids flaky_world (uuid_reads flaky_world))" by code_simp
  have emp: "map_of EMPLOYEE_DIRECTORY ''emp-003'' = Some (the (map_of EMPLOYEE_DIRECTORY ''emp-003''))"
    by (simp add: EMPLOYEE_DIRECTORY_def)
  have policy: "int 2 < max_attempts (ex_policy (svc_executor sample_services))" by (simp add: default_policy_def)
  have "res \<in> set rs \<Longrightarrow> \<not> dead res" for res
  proof -
    have "map (\<lambda>r. isl r) rs = [False, False, False]" using sample_ending_returns unfolding e fst_conv .
    then have "\<forall>res \<in> set rs. \<not> isl res" by (auto simp: map_eq_Cons_conv)
    then show "res \<in> set rs \<Longrightarrow> \<not> dead res" by (auto simp: dead_def)
  qed
  with approved_and_signed_runs_complete [OF sample_app_services linear_engine_ok fresh reach emp p rid world(2,1,3) policy world(4)
      _ _ e [unfolded sample_ending_def]] e
  show ?thesis by auto
qed

end
