(* ===== verification/Json.thy ===== *)
theory Json
  imports Redaction
begin

text \<open>
  The part of Python's \<open>json\<close> the repositories store values with: \<open>json.dumps\<close> with its default
  settings and \<open>json.loads\<close>.  The values are those of \<open>pyval\<close>, so a text with a float or with a
  character above U+00FF is one the reader here gives no value for; \<open>None\<close> is either that or a
  \<open>JSONDecodeError\<close>.  The limit of the interpreter's stack on nested values is not modelled.
\<close>

section \<open>Printing\<close>

abbreviation quote :: char where "quote \<equiv> CHR 0x22"
abbreviation backslash :: char where "backslash \<equiv> CHR 0x5C"
abbreviation open_brace :: char where "open_brace \<equiv> CHR 0x7B"
abbreviation close_brace :: char where "close_brace \<equiv> CHR 0x7D"
abbreviation open_bracket :: char where "open_bracket \<equiv> CHR 0x5B"
abbreviation close_bracket :: char where "close_bracket \<equiv> CHR 0x5D"
abbreviation comma :: char where "comma \<equiv> CHR 0x2C"
abbreviation colon :: char where "colon \<equiv> CHR 0x3A"

text \<open>\<open>py_encode_basestring_ascii\<close>: printable ASCII as it is, the rest escaped.\<close>

definition esc_char :: "char \<Rightarrow> string" where
  "esc_char c =
     (if c = quote then [backslash, quote]
      else if c = backslash then [backslash, backslash]
      else if c = CHR 0x0A then [backslash, CHR ''n'']
      else if c = CHR 0x0D then [backslash, CHR ''r'']
      else if c = CHR 0x09 then [backslash, CHR ''t'']
      else if c = CHR 0x0C then [backslash, CHR ''f'']
      else if c = CHR 0x08 then [backslash, CHR ''b'']
      else let n = of_char c :: nat in
        if 32 \<le> n \<and> n \<le> 126 then [c]
        else [backslash, CHR ''u'', CHR ''0'', CHR ''0'', hex_digit (n div 16), hex_digit (n mod 16)])"

definition dumps_str :: "string \<Rightarrow> string" where
  "dumps_str s = [quote] @ concat (map esc_char s) @ [quote]"

fun dumps :: "pyval \<Rightarrow> string" where
  "dumps PNone = ''null''"
| "dumps (PBool b) = (if b then ''true'' else ''false'')"
| "dumps (PInt i) = show_int i"
| "dumps (PStr s) = dumps_str s"
| "dumps (PList xs) = [open_bracket] @ join '', '' (map dumps xs) @ [close_bracket]"
| "dumps (PTuple xs) = [open_bracket] @ join '', '' (map dumps xs) @ [close_bracket]"
| "dumps (PDict d) = [open_brace] @ join '', '' (map (\<lambda>(k, v). dumps_str k @ '': '' @ dumps v) d) @ [close_brace]"

section \<open>Reading\<close>

definition is_ws :: "char \<Rightarrow> bool" where
  "is_ws c \<longleftrightarrow> c \<in> {CHR '' '', CHR 0x09, CHR 0x0A, CHR 0x0D}"

abbreviation skip_ws :: "string \<Rightarrow> string" where
  "skip_ws s \<equiv> dropWhile is_ws s"

definition is_digit :: "char \<Rightarrow> bool" where
  "is_digit c \<longleftrightarrow> (let n = of_char c :: nat in 48 \<le> n \<and> n \<le> 57)"

definition hex_value :: "char \<Rightarrow> nat option" where
  "hex_value c = (let n = of_char c :: nat in
     if 48 \<le> n \<and> n \<le> 57 then Some (n - 48)
     else if 97 \<le> n \<and> n \<le> 102 then Some (n - 87)
     else if 65 \<le> n \<and> n \<le> 70 then Some (n - 55)
     else None)"

text \<open>\<open>_decode_uXXXX\<close>, for the code points a \<open>char\<close> has.\<close>

definition hex4 :: "char \<Rightarrow> char \<Rightarrow> char \<Rightarrow> char \<Rightarrow> char option" where
  "hex4 a b c d = (case (hex_value a, hex_value b, hex_value c, hex_value d) of
     (Some w, Some x, Some y, Some z) \<Rightarrow> (if w = 0 \<and> x = 0 then Some (char_of (16 * y + z)) else None)
   | _ \<Rightarrow> None)"

definition escape_value :: "char \<Rightarrow> char option" where
  "escape_value e = map_of [(quote, quote), (backslash, backslash), (CHR ''/'', CHR ''/''), (CHR ''b'', CHR 0x08),
     (CHR ''f'', CHR 0x0C), (CHR ''n'', CHR 0x0A), (CHR ''r'', CHR 0x0D), (CHR ''t'', CHR 0x09)] e"

definition prepend :: "char \<Rightarrow> (string \<times> string) option \<Rightarrow> (string \<times> string) option" where
  "prepend c r = map_option (apfst (Cons c)) r"

text \<open>\<open>py_scanstring\<close> after the opening quote: the string and what follows the closing one.\<close>

fun scan_str :: "string \<Rightarrow> (string \<times> string) option" where
  "scan_str [] = None"
| "scan_str (c # s) =
     (if c = quote then Some ([], s)
      else if c = backslash then (case s of
          [] \<Rightarrow> None
        | e # t \<Rightarrow>
            if e = CHR ''u'' then (case t of
                h1 # h2 # h3 # h4 # u \<Rightarrow> (case hex4 h1 h2 h3 h4 of None \<Rightarrow> None | Some x \<Rightarrow> prepend x (scan_str u))
              | _ \<Rightarrow> None)
            else (case escape_value e of None \<Rightarrow> None | Some x \<Rightarrow> prepend x (scan_str t)))
      else if (of_char c :: nat) < 32 then None
      else prepend c (scan_str s))"

text \<open>\<open>NUMBER_RE\<close>: an integer is one not followed by a fraction or an exponent.\<close>

definition digits_value :: "string \<Rightarrow> nat" where
  "digits_value ds = fold (\<lambda>c a. 10 * a + (of_char c - 48)) ds 0"

definition exponent_follows :: "string \<Rightarrow> bool" where
  "exponent_follows s = (case s of
     e # t \<Rightarrow> e \<in> {CHR ''e'', CHR ''E''} \<and> (case t of
         g # u \<Rightarrow> is_digit g \<or> g \<in> {CHR ''+'', CHR ''-''} \<and> u \<noteq> [] \<and> is_digit (hd u)
       | [] \<Rightarrow> False)
   | [] \<Rightarrow> False)"

definition fraction_follows :: "string \<Rightarrow> bool" where
  "fraction_follows s = (case s of
     p # g # u \<Rightarrow> p = CHR ''.'' \<and> is_digit g
   | _ \<Rightarrow> False)"

definition scan_nat :: "string \<Rightarrow> (nat \<times> string) option" where
  "scan_nat s = (case s of
     [] \<Rightarrow> None
   | c # t \<Rightarrow>
       if \<not> is_digit c then None
       else let u = (if c = CHR ''0'' then t else dropWhile is_digit s) in
         if fraction_follows u \<or> exponent_follows u then None
         else Some (if c = CHR ''0'' then 0 else digits_value (takeWhile is_digit s), u))"

definition scan_int :: "string \<Rightarrow> (int \<times> string) option" where
  "scan_int s = (case s of
     [] \<Rightarrow> None
   | c # t \<Rightarrow> if c = CHR ''-'' then map_option (apfst (\<lambda>n. - int n)) (scan_nat t) else map_option (apfst int) (scan_nat s))"

text \<open>
  The items of an array or an object up to the closing bracket: an item, then a comma and more
  items or the bracket.
\<close>

fun scan_items :: "char \<Rightarrow> nat \<Rightarrow> (string \<Rightarrow> ('a \<times> string) option) \<Rightarrow> string \<Rightarrow> ('a list \<times> string) option" where
  "scan_items cl 0 p s = None"
| "scan_items cl (Suc m) p s = (case p s of
     None \<Rightarrow> None
   | Some (v, t) \<Rightarrow> (case skip_ws t of
       [] \<Rightarrow> None
     | c # u \<Rightarrow>
         if c = cl then Some ([v], u)
         else if c = comma then map_option (apfst (Cons v)) (scan_items cl m p (skip_ws u))
         else None))"

definition scan_bracket :: "char \<Rightarrow> (string \<Rightarrow> ('a \<times> string) option) \<Rightarrow> string \<Rightarrow> ('a list \<times> string) option" where
  "scan_bracket cl p s = (case skip_ws s of
     [] \<Rightarrow> None
   | c # u \<Rightarrow> if c = cl then Some ([], u) else scan_items cl (length s) p (c # u))"

definition scan_member :: "(string \<Rightarrow> ('a \<times> string) option) \<Rightarrow> string \<Rightarrow> ((string \<times> 'a) \<times> string) option" where
  "scan_member p s = (case s of
     [] \<Rightarrow> None
   | c # t \<Rightarrow> if c \<noteq> quote then None else Option.bind (scan_str t) (\<lambda>(k, u). case skip_ws u of
         [] \<Rightarrow> None
       | g # x \<Rightarrow> if g \<noteq> colon then None else map_option (apfst (Pair k)) (p (skip_ws x))))"

definition keyword :: "string \<Rightarrow> pyval \<Rightarrow> string \<Rightarrow> (pyval \<times> string) option" where
  "keyword k v s = (if take (length k) s = k then Some (v, drop (length k) s) else None)"

text \<open>\<open>scan_once\<close>; the first argument bounds how deep values nest.\<close>

fun scan_value :: "nat \<Rightarrow> string \<Rightarrow> (pyval \<times> string) option" where
  "scan_value 0 s = None"
| "scan_value (Suc n) s = (case s of
     [] \<Rightarrow> None
   | c # t \<Rightarrow>
       if c = quote then map_option (apfst PStr) (scan_str t)
       else if c = open_brace then
         map_option (apfst (\<lambda>kvs. PDict (dict_update [] kvs))) (scan_bracket close_brace (scan_member (scan_value n)) t)
       else if c = open_bracket then map_option (apfst PList) (scan_bracket close_bracket (scan_value n) t)
       else if c = CHR ''n'' then keyword ''null'' PNone s
       else if c = CHR ''t'' then keyword ''true'' (PBool True) s
       else if c = CHR ''f'' then keyword ''false'' (PBool False) s
       else map_option (apfst PInt) (scan_int s))"

text \<open>\<open>json.loads\<close>: nesting is never deeper than the text is long.\<close>

definition loads :: "string \<Rightarrow> pyval option" where
  "loads s = (case scan_value (length s) (skip_ws s) of
     None \<Rightarrow> None
   | Some (v, t) \<Rightarrow> if skip_ws t = [] then Some v else None)"

section \<open>Reading back what was printed\<close>

text \<open>Every key of a dict is there once, at every depth, as in a Python dict.\<close>

fun keyed :: "pyval \<Rightarrow> bool" where
  "keyed (PDict d) = (distinct (map fst d) \<and> (\<forall>(k, v) \<in> set d. keyed v))"
| "keyed (PList xs) = (\<forall>x \<in> set xs. keyed x)"
| "keyed (PTuple xs) = (\<forall>x \<in> set xs. keyed x)"
| "keyed v = True"

fun nesting :: "pyval \<Rightarrow> nat" where
  "nesting (PDict d) = Suc (foldr max (map (\<lambda>(k, v). nesting v) d) 0)"
| "nesting (PList xs) = Suc (foldr max (map nesting xs) 0)"
| "nesting (PTuple xs) = Suc (foldr max (map nesting xs) 0)"
| "nesting v = 1"

lemma foldr_max_le: "foldr max ns 0 \<le> (m :: nat) \<longleftrightarrow> (\<forall>n \<in> set ns. n \<le> m)"
  by (induction ns) auto

subsection \<open>Strings\<close>

lemma hex_value_digit: "n < 16 \<Longrightarrow> hex_value (hex_digit n) = Some n"
  by (simp add: hex_value_def hex_digit_def Let_def)

lemma hex4_digits: "hex4 (CHR ''0'') (CHR ''0'') (hex_digit (of_char c div 16)) (hex_digit (of_char c mod 16)) = Some c"
proof -
  have "(of_char c :: nat) < 256" using nat_of_char_less_256 by simp
  then have "(of_char c :: nat) div 16 < 16" by (simp add: div_less_iff_less_mult)
  moreover have "hex_value (CHR ''0'') = Some 0" by (simp add: hex_value_def Let_def)
  ultimately show ?thesis by (simp add: hex4_def hex_value_digit)
qed

lemma scan_esc_char: "scan_str (esc_char c @ s) = prepend c (scan_str s)"
proof -
  have "scan_str ([backslash, CHR ''u'', CHR ''0'', CHR ''0'', hex_digit (of_char c div 16), hex_digit (of_char c mod 16)] @ s)
      = prepend c (scan_str s)"
    by (simp add: hex4_digits)
  moreover have "(of_char quote :: nat) = 34" "(of_char backslash :: nat) = 92" by simp_all
  ultimately show ?thesis by (simp add: esc_char_def escape_value_def Let_def)
qed

lemma scan_str_dumped: "scan_str (concat (map esc_char s) @ quote # r) = Some (s, r)"
  by (induction s) (simp_all add: scan_esc_char prepend_def)

subsection \<open>Numbers\<close>

lemma is_digit_char: "d < 10 \<Longrightarrow> is_digit (char_of (48 + d :: nat))"
  and digit_value: "d < 10 \<Longrightarrow> of_char (char_of (48 + d :: nat) :: char) - 48 = (d :: nat)"
  by (simp_all add: is_digit_def Let_def)

lemma show_digits_digits: "c \<in> set (show_digits n) \<Longrightarrow> is_digit c"
  by (induction n rule: show_digits.induct) (subst (asm) (2) show_digits.simps, auto simp: is_digit_char split: if_splits)

lemma digits_value_show: "digits_value (show_digits n) = n"
proof (induction n rule: show_digits.induct)
  case (1 n)
  show ?case
  proof (cases "n < 10")
    case True
    then show ?thesis by (simp add: show_digits.simps [of n] digits_value_def)
  next
    case False
    then have "digits_value (show_digits n) = 10 * digits_value (show_digits (n div 10)) + n mod 10"
      by (subst show_digits.simps) (simp add: digits_value_def)
    with 1 False show ?thesis by simp
  qed
qed

lemma show_digits_ne [simp]: "show_digits n \<noteq> []"
  by (subst show_digits.simps) simp

lemma show_digits_hd: "hd (show_digits n) = CHR ''0'' \<Longrightarrow> n = 0"
proof (induction n rule: show_digits.induct)
  case (1 n)
  show ?case
  proof (cases "n < 10")
    case True
    then have "char_of (48 + n) = CHR ''0''" using 1(2) by (simp add: show_digits.simps [of n])
    then have "(of_char (char_of (48 + n) :: char) :: nat) = 48" by simp
    then show ?thesis using True by simp
  next
    case False
    then have "hd (show_digits (n div 10)) = CHR ''0''" using 1(2) by (simp add: show_digits.simps [of n])
    with 1(1) False show ?thesis by simp
  qed
qed

text \<open>What may come after a value: the end or a comma or bracket.\<close>

definition ends_value :: "string \<Rightarrow> bool" where
  "ends_value r \<longleftrightarrow> r = [] \<or> hd r \<in> {comma, close_bracket, close_brace}"

lemma ends_value_simps [simp]: "ends_value []" "ends_value (comma # r)" "ends_value (close_bracket # r)" "ends_value (close_brace # r)"
  by (simp_all add: ends_value_def)

lemma ends_value_not:
  assumes "ends_value r"
  shows "\<not> fraction_follows r" "\<not> exponent_follows r" "dropWhile is_digit r = r" "takeWhile is_digit r = []"
  using assms by (cases r; auto simp: ends_value_def fraction_follows_def exponent_follows_def is_digit_def Let_def split: list.splits)+

lemma scan_nat_show:
  assumes "ends_value r"
  shows "scan_nat (show_digits n @ r) = Some (n, r)"
proof -
  obtain c ds where ds: "show_digits n = c # ds" by (cases "show_digits n") auto
  have digits: "\<forall>x \<in> set (show_digits n). is_digit x" using show_digits_digits by blast
  have all: "takeWhile is_digit (show_digits n @ r) = show_digits n" "dropWhile is_digit (show_digits n @ r) = r"
    using digits ends_value_not(3,4) [OF assms] by (simp_all add: takeWhile_append2 dropWhile_append2)
  have zero: "n = 0 \<and> ds = []" if "c = CHR ''0''"
    using show_digits_hd [of n] that ds by (auto simp: show_digits.simps [of 0])
  have "is_digit c" using digits ds by simp
  then show ?thesis
    using all zero ends_value_not(1,2) [OF assms] digits_value_show [of n]
    by (auto simp: scan_nat_def ds Let_def split: if_splits)
qed

lemma scan_int_show:
  assumes "ends_value r"
  shows "scan_int (show_int i @ r) = Some (i, r)"
proof (cases "i < 0")
  case True
  then show ?thesis using scan_nat_show [OF assms, of "nat (- i)"] by (simp add: scan_int_def show_int_def)
next
  case False
  obtain c ds where ds: "show_digits (nat i) = c # ds" by (cases "show_digits (nat i)") auto
  have "is_digit c" using show_digits_digits [of c "nat i"] ds by simp
  then have "c \<noteq> CHR ''-''" by (auto simp: is_digit_def Let_def)
  then show ?thesis using False scan_nat_show [OF assms, of "nat i"] ds by (simp add: scan_int_def show_int_def)
qed

subsection \<open>Values\<close>

text \<open>A printed value starts with a character that neither is space nor ends a value.\<close>

definition starts_value :: "string \<Rightarrow> bool" where
  "starts_value s \<longleftrightarrow> s \<noteq> [] \<and> \<not> is_ws (hd s) \<and> hd s \<notin> {comma, close_bracket, close_brace}"

lemma starts_value_simps: "starts_value (c # s) \<longleftrightarrow> \<not> is_ws c \<and> c \<notin> {comma, close_bracket, close_brace}"
  by (simp add: starts_value_def)

lemma starts_digit: "is_digit c \<Longrightarrow> starts_value (c # s)"
  by (auto simp: starts_value_def is_digit_def is_ws_def Let_def)

lemma dumps_str_starts: "starts_value (dumps_str s)"
  by (simp add: dumps_str_def starts_value_def is_ws_def)

lemma dumps_starts: "starts_value (dumps v)"
proof (cases v)
  case (PInt i)
  obtain c ds where ds: "show_digits (nat i) = c # ds" by (cases "show_digits (nat i)") auto
  have "is_digit c" using show_digits_digits [of c "nat i"] ds by simp
  then show ?thesis using PInt ds by (auto simp: show_int_def starts_digit) (simp add: starts_value_def is_ws_def)
qed (simp_all add: dumps_str_starts, simp_all add: starts_value_def is_ws_def)

lemma skip_starts: "starts_value s \<Longrightarrow> skip_ws (s @ r) = s @ r"
  by (cases s) (simp_all add: starts_value_def)

lemma length_in_join: "x \<in> set xs \<Longrightarrow> length x \<le> length (join sep xs)"
  by (induction sep xs rule: join.induct) auto

lemma length_le_join: "\<forall>x \<in> set xs. x \<noteq> [] \<Longrightarrow> length xs \<le> length (join sep xs)"
  by (induction sep xs rule: join.induct) (auto simp: neq_Nil_conv)

lemma join_starts: "xs \<noteq> [] \<Longrightarrow> \<forall>x \<in> set xs. starts_value x \<Longrightarrow> starts_value (join sep xs)"
  by (induction sep xs rule: join.induct) (auto simp: starts_value_def)

text \<open>A list of printed items between its brackets, once its items are read back.\<close>

lemma scan_items_joined:
  assumes "\<And>x r. x \<in> set xs \<Longrightarrow> ends_value r \<Longrightarrow> p (d x @ r) = Some (g x, r)"
    and "\<And>x. x \<in> set xs \<Longrightarrow> starts_value (d x)" and "cl \<in> {close_bracket, close_brace}"
    and "xs \<noteq> []" and "length xs \<le> m"
  shows "scan_items cl m p (join '', '' (map d xs) @ cl # r) = Some (map g xs, r)"
  using assms
proof (induction xs arbitrary: m)
  case (Cons x xs)
  then obtain m' where m: "m = Suc m'" by (cases m) auto
  have ends: "ends_value (cl # r)" "ends_value ('', '' @ r')" for r' using Cons.prems(3) by auto
  have ws: "\<not> is_ws cl" using Cons.prems(3) by (auto simp: is_ws_def)
  show ?case
  proof (cases xs)
    case Nil
    then show ?thesis using Cons.prems(1) [of x "cl # r"] ends m ws by simp
  next
    case (Cons y ys)
    let ?t = "join '', '' (map d xs) @ cl # r"
    have "starts_value (join '', '' (map d xs))" using Cons.prems(2) Cons by (intro join_starts) auto
    then have "skip_ws (CHR '' '' # ?t) = ?t" by (simp add: skip_starts) (simp add: is_ws_def)
    moreover have "scan_items cl m' p ?t = Some (map g xs, r)"
      using Cons.prems m Cons by (intro Cons.IH) auto
    moreover have "p (d x @ '', '' @ ?t) = Some (g x, '', '' @ ?t)" by (rule Cons.prems(1)) (simp_all add: ends)
    moreover have "\<not> is_ws comma" "cl \<noteq> comma" using Cons.prems(3) by (auto simp: is_ws_def)
    ultimately show ?thesis using Cons m by simp
  qed
qed simp

lemma scan_bracket_joined:
  assumes "\<And>x r. x \<in> set xs \<Longrightarrow> ends_value r \<Longrightarrow> p (d x @ r) = Some (g x, r)"
    and "\<And>x. x \<in> set xs \<Longrightarrow> starts_value (d x)" and "cl \<in> {close_bracket, close_brace}"
  shows "scan_bracket cl p (join '', '' (map d xs) @ cl # r) = Some (map g xs, r)"
proof (cases "xs = []")
  case True
  then show ?thesis using assms(3) by (auto simp: scan_bracket_def is_ws_def)
next
  case False
  let ?t = "join '', '' (map d xs)"
  have starts: "starts_value ?t" using assms(2) False by (intro join_starts) auto
  then obtain c u where u: "?t = c # u" "c \<noteq> cl" using assms(3) by (cases ?t) (auto simp: starts_value_def)
  have "length (map d xs) \<le> length ?t" using assms(2) by (intro length_le_join) (auto simp: starts_value_def)
  then have "scan_items cl (length (?t @ cl # r)) p (?t @ cl # r) = Some (map g xs, r)"
    using assms False by (intro scan_items_joined) auto
  then show ?thesis using skip_starts [OF starts, of "cl # r"] u by (simp add: scan_bracket_def)
qed

lemma scan_member_printed:
  assumes "p (dumps v @ r) = Some (x, r)"
  shows "scan_member p (dumps_str k @ '': '' @ dumps v @ r) = Some ((k, x), r)"
  using assms skip_starts [OF dumps_starts, of v r] scan_str_dumped [of k "'': '' @ dumps v @ r"]
  by (simp add: scan_member_def dumps_str_def is_ws_def)

lemma dict_update_fresh:
  "distinct (map fst d @ map fst e) \<Longrightarrow> dict_update d e = d @ e"
proof (induction e arbitrary: d)
  case (Cons kv e)
  have "dict_set k v d = d @ [(k, v)]" if "k \<notin> fst ` set d" for k v
    using that by (induction d) auto
  with Cons show ?case by (cases kv) (simp add: dict_update_def)
qed (simp add: dict_update_def)

lemma not_digit_start:
  "\<not> is_digit quote" "\<not> is_digit open_brace" "\<not> is_digit open_bracket" "\<not> is_digit (CHR ''n'')" "\<not> is_digit (CHR ''t'')"
  "\<not> is_digit (CHR ''f'')"
  by (simp_all add: is_digit_def Let_def)

lemma scan_value_int:
  assumes "ends_value r"
  shows "scan_value (Suc n) (show_int i @ r) = Some (PInt i, r)"
proof -
  obtain c ds where ds: "show_digits (nat i) = c # ds" by (cases "show_digits (nat i)") auto
  have "is_digit c" using show_digits_digits [of c "nat i"] ds by simp
  then have "c \<notin> {quote, open_brace, open_bracket, CHR ''n'', CHR ''t'', CHR ''f''}" using not_digit_start by auto
  moreover have "show_int i @ r = (if i < 0 then CHR ''-'' # show_digits (nat (- i)) @ r else c # ds @ r)"
    using ds by (simp add: show_int_def)
  ultimately show ?thesis using scan_int_show [OF assms, of i] by (auto split: if_splits)
qed

lemma scan_value_dumped:
  "keyed v \<Longrightarrow> nesting v \<le> n \<Longrightarrow> ends_value r \<Longrightarrow> scan_value n (dumps v @ r) = Some (json_roundtrip v, r)"
proof (induction v arbitrary: n r)
  case (PInt i)
  then obtain m where "n = Suc m" by (cases n) auto
  then show ?case using PInt scan_value_int by simp
next
  case (PStr s)
  then obtain m where "n = Suc m" by (cases n) auto
  then show ?case using scan_str_dumped [of s r] by (simp add: dumps_str_def)
next
  case (PList xs)
  then obtain m where m: "n = Suc m" by (cases n) auto
  have "scan_bracket close_bracket (scan_value m) (join '', '' (map dumps xs) @ close_bracket # r) = Some (map json_roundtrip xs, r)"
    using PList m by (intro scan_bracket_joined) (auto simp: dumps_starts foldr_max_le)
  then show ?case using m by simp
next
  case (PTuple xs)
  then obtain m where m: "n = Suc m" by (cases n) auto
  have "scan_bracket close_bracket (scan_value m) (join '', '' (map dumps xs) @ close_bracket # r) = Some (map json_roundtrip xs, r)"
    using PTuple m by (intro scan_bracket_joined) (auto simp: dumps_starts foldr_max_le)
  then show ?case using m by simp
next
  case (PDict d)
  then obtain m where m: "n = Suc m" by (cases n) auto
  let ?g = "\<lambda>(k, v). (k, json_roundtrip v)"
  have "scan_bracket close_brace (scan_member (scan_value m))
      (join '', '' (map (\<lambda>(k, v). dumps_str k @ '': '' @ dumps v) d) @ close_brace # r) = Some (map ?g d, r)"
  proof (rule scan_bracket_joined)
    fix x r' assume x: "x \<in> set d" and ends: "ends_value r'"
    obtain k v where kv: "x = (k, v)" by (cases x)
    have "scan_value m (dumps v @ r') = Some (json_roundtrip v, r')"
      using PDict.prems x kv m ends by (intro PDict.IH [of x]) (auto simp: foldr_max_le)
    then show "scan_member (scan_value m) ((case x of (k, v) \<Rightarrow> dumps_str k @ '': '' @ dumps v) @ r') = Some (?g x, r')"
      using scan_member_printed kv by simp
  next
    fix x :: "string \<times> pyval"
    show "starts_value (case x of (k, v) \<Rightarrow> dumps_str k @ '': '' @ dumps v)"
      using dumps_str_starts by (cases x) (auto simp: starts_value_def)
  qed simp
  moreover have "dict_update [] (map ?g d) = map ?g d"
    using PDict.prems by (subst dict_update_fresh) (simp_all add: comp_def case_prod_beta)
  ultimately show ?case using m by simp
qed (auto simp: keyword_def dest: Suc_le_D)

lemma items_nesting:
  assumes "\<And>x. x \<in> set xs \<Longrightarrow> f x \<le> length (d x)"
  shows "foldr max (map f xs) 0 \<le> Suc (length (join sep (map d xs)))"
proof -
  have "f x \<le> length (join sep (map d xs))" if "x \<in> set xs" for x
    using assms [OF that] length_in_join [of "d x" "map d xs" sep] that by simp
  then show ?thesis by (auto simp: foldr_max_le intro: le_SucI)
qed

lemma nesting_le_dumps: "nesting v \<le> length (dumps v)"
proof (induction v)
  case (PList xs)
  then show ?case using items_nesting [of xs nesting dumps] by simp
next
  case (PTuple xs)
  then show ?case using items_nesting [of xs nesting dumps] by simp
next
  case (PDict d)
  have "nesting (snd x) \<le> length (case x of (k, v) \<Rightarrow> dumps_str k @ '': '' @ dumps v)" if "x \<in> set d" for x
    using PDict [of x "snd x"] that by (cases x) auto
  then show ?case
    using items_nesting [of d "\<lambda>(k, v). nesting v" "\<lambda>(k, v). dumps_str k @ '': '' @ dumps v" "'', ''"]
    by (simp add: case_prod_beta)
next
  case (PInt i)
  then show ?case by (simp add: show_int_def Suc_le_eq)
qed (simp_all add: dumps_str_def)

text \<open>What is stored as JSON text is read back as \<open>json_roundtrip\<close> says.\<close>

theorem loads_dumps:
  assumes "keyed v"
  shows "loads (dumps v) = Some (json_roundtrip v)"
  using scan_value_dumped [OF assms nesting_le_dumps, of "[]"] skip_starts [OF dumps_starts, of v "[]"]
  by (simp add: loads_def)

end
