(* ===== verification/Timestamps.thy ===== *)
theory Timestamps
  imports Json
begin

text \<open>
  The timestamps of \<open>persistence/base.py\<close>: a \<open>datetime\<close> in UTC, the ISO text every table stores it
  as (\<open>now().isoformat()\<close>) and its reading back (\<open>parse_ts\<close>).  Elsewhere an instant is a number,
  the digits of the \<open>datetime\<close> read in a mixed radix; the queries compare texts, and the two orders
  are shown to agree.
\<close>

section \<open>A datetime and its text\<close>

record datetime =
  year :: nat
  month :: nat
  day :: nat
  hour :: nat
  minute :: nat
  second :: nat
  microsecond :: nat

definition is_leap :: "nat \<Rightarrow> bool" where
  "is_leap y \<longleftrightarrow> y mod 4 = 0 \<and> (y mod 100 \<noteq> 0 \<or> y mod 400 = 0)"

definition days_in_month :: "nat \<Rightarrow> nat \<Rightarrow> nat" where
  "days_in_month y m = (if m = 2 then if is_leap y then 29 else 28 else if m \<in> {4, 6, 9, 11} then 30 else 31)"

text \<open>What the constructor of \<open>datetime\<close> accepts.\<close>

definition valid :: "datetime \<Rightarrow> bool" where
  "valid d \<longleftrightarrow> 1 \<le> year d \<and> year d \<le> 9999 \<and> 1 \<le> month d \<and> month d \<le> 12
     \<and> 1 \<le> day d \<and> day d \<le> days_in_month (year d) (month d)
     \<and> hour d < 24 \<and> minute d < 60 \<and> second d < 60 \<and> microsecond d < 1000000"

text \<open>The format specification \<open>:0k\<close> for a number of at most \<open>k\<close> digits.\<close>

fun fixed :: "nat \<Rightarrow> nat \<Rightarrow> string" where
  "fixed 0 n = []"
| "fixed (Suc k) n = fixed k (n div 10) @ [char_of (48 + n mod 10)]"

text \<open>\<open>datetime.isoformat\<close> of a value in UTC: the microseconds are left out when zero.\<close>

definition isoformat :: "datetime \<Rightarrow> string" where
  "isoformat d = fixed 4 (year d) @ ''-'' @ fixed 2 (month d) @ ''-'' @ fixed 2 (day d) @ ''T''
     @ fixed 2 (hour d) @ '':'' @ fixed 2 (minute d) @ '':'' @ fixed 2 (second d)
     @ (if microsecond d = 0 then [] else ''.'' @ fixed 6 (microsecond d)) @ ''+00:00''"

text \<open>
  \<open>datetime.fromisoformat\<close> on the texts of that form; Python reads others too, for which there
  is no value here.
\<close>

definition scan_fixed :: "nat \<Rightarrow> string \<Rightarrow> (nat \<times> string) option" where
  "scan_fixed k s = (if k \<le> length s \<and> list_all is_digit (take k s) then Some (digits_value (take k s), drop k s) else None)"

definition expect :: "string \<Rightarrow> string \<Rightarrow> string option" where
  "expect p s = (if take (length p) s = p then Some (drop (length p) s) else None)"

definition scan_field :: "nat \<Rightarrow> string \<Rightarrow> string \<Rightarrow> (nat \<times> string) option" where
  "scan_field k p s = Option.bind (expect p s) (scan_fixed k)"

definition scan_micros :: "string \<Rightarrow> (nat \<times> string) option" where
  "scan_micros s = (case s of
     c # t \<Rightarrow> if c = CHR ''.'' then scan_fixed 6 t else Some (0, s)
   | [] \<Rightarrow> Some (0, s))"

definition fromisoformat :: "string \<Rightarrow> datetime option" where
  "fromisoformat s =
     Option.bind (scan_field 4 [] s) (\<lambda>(y, s). Option.bind (scan_field 2 ''-'' s) (\<lambda>(mo, s).
     Option.bind (scan_field 2 ''-'' s) (\<lambda>(dd, s). Option.bind (scan_field 2 ''T'' s) (\<lambda>(h, s).
     Option.bind (scan_field 2 '':'' s) (\<lambda>(mi, s). Option.bind (scan_field 2 '':'' s) (\<lambda>(sec, s).
     Option.bind (scan_micros s) (\<lambda>(us, s).
     let d = \<lparr>year = y, month = mo, day = dd, hour = h, minute = mi, second = sec, microsecond = us\<rparr> in
     if s = ''+00:00'' \<and> valid d then Some d else None)))))))"

lemma isoformat_example: "isoformat \<lparr>year = 2026, month = 2, day = 28, hour = 9, minute = 5, second = 0, microsecond = 1200\<rparr> = ''2026-02-28T09:05:00.001200+00:00''"
  by code_simp

section \<open>Reading back\<close>

lemma length_fixed [simp]: "length (fixed k n) = k"
  by (induction k arbitrary: n) simp_all

lemma fixed_digits: "list_all is_digit (fixed k n)"
  by (induction k arbitrary: n) (simp_all add: is_digit_char)

lemma fixed_value: "n < 10 ^ k \<Longrightarrow> digits_value (fixed k n) = n"
proof (induction k arbitrary: n)
  case (Suc k)
  then have "digits_value (fixed k (n div 10)) = n div 10" by (intro Suc.IH) (simp add: div_less_iff_less_mult mult.commute)
  then show ?case by (simp add: digits_value_def)
qed (simp add: digits_value_def)

lemma scan_fixed_text: "n < 10 ^ k \<Longrightarrow> scan_fixed k (fixed k n @ s) = Some (n, s)"
  by (simp add: scan_fixed_def fixed_digits fixed_value)

lemma scan_field_text: "n < 10 ^ k \<Longrightarrow> scan_field k p (p @ fixed k n @ s) = Some (n, s)"
  by (simp add: scan_field_def expect_def scan_fixed_text)

lemma valid_bounds:
  assumes "valid d"
  shows "year d < 10 ^ 4" "month d < 10 ^ 2" "day d < 10 ^ 2" "hour d < 10 ^ 2" "minute d < 10 ^ 2" "second d < 10 ^ 2"
    "microsecond d < 10 ^ 6" "month d < 13" "day d < 32" "hour d < 24" "minute d < 60" "second d < 60" "microsecond d < 1000000"
  using assms by (auto simp: valid_def days_in_month_def split: if_splits)

theorem fromisoformat_isoformat:
  assumes "valid d"
  shows "fromisoformat (isoformat d) = Some d"
proof -
  note b = valid_bounds [OF assms]
  let ?us = "(if microsecond d = 0 then [] else ''.'' @ fixed 6 (microsecond d)) @ ''+00:00''"
  have micros: "scan_micros ?us = Some (microsecond d, ''+00:00'')"
    using scan_fixed_text [OF b(7), of "''+00:00''"] by (simp add: scan_micros_def)
  have year: "scan_field 4 [] (fixed 4 (year d) @ s) = Some (year d, s)" for s
    using scan_field_text [OF b(1), of "[]"] by simp
  have same: "\<lparr>year = year d, month = month d, day = day d, hour = hour d, minute = minute d, second = second d, microsecond = microsecond d\<rparr> = d"
    by simp
  show ?thesis
    unfolding fromisoformat_def isoformat_def
    by (simp only: year micros scan_field_text [OF b(2)] scan_field_text [OF b(3)] scan_field_text [OF b(4)]
        scan_field_text [OF b(5)] scan_field_text [OF b(6)] Option.bind.simps prod.case Let_def same)
      (simp add: assms)
qed

section \<open>The order of the texts\<close>

lemma radix: "b < n \<Longrightarrow> (a * n + b) div n = (a :: nat)" "b < n \<Longrightarrow> (a * n + b) mod n = (b :: nat)"
  by (simp_all add: mult.commute)

lemma radix_less: "b < n \<Longrightarrow> d < n \<Longrightarrow> a * n + b < c * n + d \<longleftrightarrow> a < c \<or> a = c \<and> b < (d :: nat)"
proof -
  assume b: "b < n" "d < n"
  have less: "x * n + u < y * n + v" if "x < y" "u < n" for x y u v :: nat
  proof -
    have "x * n + u < Suc x * n" using that by simp
    also have "\<dots> \<le> y * n" using that by (intro mult_le_mono1) simp
    finally show ?thesis by simp
  qed
  show ?thesis
    using less [of a c b d] less [of c a d b] b by (cases a c rule: linorder_cases) auto
qed

lemma radix_eq: "b < n \<Longrightarrow> d < n \<Longrightarrow> a * n + b = c * n + d \<longleftrightarrow> a = c \<and> b = (d :: nat)"
  by (metis radix)

lemma less_append: "length a = length b \<Longrightarrow> a @ x < b @ y \<longleftrightarrow> a < b \<or> a = b \<and> x < (y :: string)"
  by (induction a b rule: list_induct2) auto

lemma fixed_inject: "n < 10 ^ k \<Longrightarrow> m < 10 ^ k \<Longrightarrow> fixed k n = fixed k m \<longleftrightarrow> n = m"
  by (metis fixed_value)

lemma digit_less: "a < 10 \<Longrightarrow> b < 10 \<Longrightarrow> char_of (48 + a) < (char_of (48 + b) :: char) \<longleftrightarrow> a < (b :: nat)"
  by (simp add: less_char_def)

lemma fixed_less: "n < 10 ^ k \<Longrightarrow> m < 10 ^ k \<Longrightarrow> fixed k n < fixed k m \<longleftrightarrow> n < m"
proof (induction k arbitrary: n m)
  case (Suc k)
  have small: "n div 10 < 10 ^ k" "m div 10 < 10 ^ k"
    using Suc.prems by (simp_all add: div_less_iff_less_mult mult.commute)
  have "fixed (Suc k) n < fixed (Suc k) m \<longleftrightarrow> n div 10 < m div 10 \<or> n div 10 = m div 10 \<and> n mod 10 < m mod 10"
    using Suc.IH [OF small] fixed_inject [OF small] by (simp add: less_append digit_less)
  also have "\<dots> \<longleftrightarrow> n < m"
    using radix_less [of "n mod 10" 10 "m mod 10" "n div 10" "m div 10"] by simp
  finally show ?case .
qed simp

lemma field_less:
  "n < 10 ^ k \<Longrightarrow> m < 10 ^ k \<Longrightarrow> fixed k n @ p @ x < fixed k m @ p @ y \<longleftrightarrow> n < m \<or> n = m \<and> x < (y :: string)"
  by (subst less_append) (auto simp: fixed_less fixed_inject less_append)

text \<open>The instant a \<open>datetime\<close> is, as a number: its fields in a mixed radix.\<close>

definition instant :: "datetime \<Rightarrow> nat" where
  "instant d = (((((year d * 13 + month d) * 32 + day d) * 24 + hour d) * 60 + minute d) * 60 + second d) * 1000000 + microsecond d"

definition of_instant :: "nat \<Rightarrow> datetime" where
  "of_instant t =
     (let us = t mod 1000000; s = t div 1000000; mi = s div 60; h = mi div 60; dd = h div 24; mo = dd div 32 in
      \<lparr>year = mo div 13, month = mo mod 13, day = dd mod 32, hour = h mod 24, minute = mi mod 60, second = s mod 60, microsecond = us\<rparr>)"

lemma instant_of_instant [simp]: "instant (of_instant t) = t"
  by (simp add: instant_def of_instant_def Let_def)

lemma of_instant_instant:
  assumes "valid d"
  shows "of_instant (instant d) = d"
proof -
  note b = valid_bounds [OF assms]
  have *: "instant d mod 1000000 = microsecond d"
    "instant d div 1000000 = ((((year d * 13 + month d) * 32 + day d) * 24 + hour d) * 60 + minute d) * 60 + second d"
    by (simp_all only: instant_def radix [OF b(13)])
  show ?thesis
    by (simp only: of_instant_def Let_def * radix [OF b(8)] radix [OF b(9)] radix [OF b(10)] radix [OF b(11)] radix [OF b(12)]) simp
qed

lemma micros_less:
  assumes "n < 1000000" "m < 1000000"
  shows "(if n = 0 then [] else ''.'' @ fixed 6 n) @ ''+00:00'' < (if m = 0 then [] else ''.'' @ fixed 6 m) @ ''+00:00'' \<longleftrightarrow> n < m"
proof -
  have "fixed 6 n @ ''+00:00'' @ [] < fixed 6 m @ ''+00:00'' @ [] \<longleftrightarrow> n < m" if "n \<noteq> 0 \<or> m \<noteq> 0"
    using assms by (subst field_less) auto
  moreover have "CHR ''+'' < CHR ''.''" "\<not> CHR ''.'' < CHR ''+''" by (simp_all add: less_char_def)
  ultimately show ?thesis by auto
qed

lemma instant_less:
  assumes "valid d" and "valid e"
  shows "instant d < instant e \<longleftrightarrow> year d < year e \<or> year d = year e \<and> (month d < month e \<or> month d = month e
    \<and> (day d < day e \<or> day d = day e \<and> (hour d < hour e \<or> hour d = hour e \<and> (minute d < minute e \<or> minute d = minute e
    \<and> (second d < second e \<or> second d = second e \<and> microsecond d < microsecond e)))))"
proof -
  note bd = valid_bounds [OF assms(1)] and be = valid_bounds [OF assms(2)]
  note digit = bd(8) be(8) bd(9) be(9) bd(10) be(10) bd(11) be(11) bd(12) be(12) bd(13) be(13)
  note place = radix_less [OF digit(1,2)] radix_less [OF digit(3,4)] radix_less [OF digit(5,6)]
    radix_less [OF digit(7,8)] radix_less [OF digit(9,10)] radix_less [OF digit(11,12)]
    radix_eq [OF digit(1,2)] radix_eq [OF digit(3,4)] radix_eq [OF digit(5,6)] radix_eq [OF digit(7,8)] radix_eq [OF digit(9,10)]
  show ?thesis
    unfolding instant_def place
    by (cases "year d = year e"; cases "month d = month e"; cases "day d = day e"; cases "hour d = hour e";
        cases "minute d = minute e"; simp)
qed

theorem isoformat_order:
  assumes "valid d" and "valid e"
  shows "isoformat d < isoformat e \<longleftrightarrow> instant d < instant e"
  using valid_bounds [OF assms(1)] valid_bounds [OF assms(2)] unfolding instant_less [OF assms] isoformat_def
  by (simp add: field_less less_append fixed_less fixed_inject micros_less del: append.simps append_assoc)

end
