(* ===== verification/Rows.thy ===== *)
theory Rows
  imports Side_Effects Timestamps
begin

text \<open>
  The tables as SQLite keeps them: the schema of \<open>persistence/db.py\<close>, a row as its columns with
  their values, the statements of the repositories and the conversions \<open>_to_run\<close>, \<open>_to_attempt\<close>
  and \<open>_to_record\<close> of a row into a read model.  The other theories keep read models in their
  tables; here each of them is shown to be what its stored row reads back as, and each change of
  one to be what the repository's statement does to the row.
\<close>

section \<open>The schema\<close>

datatype sql = NULL | INTEGER int | TEXT string

type_synonym row = "(string \<times> sql) list"

datatype affinity = Text_Column | Integer_Column

record column =
  col_name :: string
  col_type :: affinity
  not_null :: bool
  col_default :: sql

record table_def =
  table_name :: string
  columns :: "column list"
  primary_key :: "string list"
  unique_columns :: "string list"
  foreign_keys :: "(string \<times> string \<times> string) list"

definition text_col :: "string \<Rightarrow> column" where
  "text_col n = \<lparr>col_name = n, col_type = Text_Column, not_null = False, col_default = NULL\<rparr>"

definition text_required :: "string \<Rightarrow> column" where
  "text_required n = (text_col n)\<lparr>not_null := True\<rparr>"

definition integer_default :: "string \<Rightarrow> int \<Rightarrow> column" where
  "integer_default n i = \<lparr>col_name = n, col_type = Integer_Column, not_null = True, col_default = INTEGER i\<rparr>"

definition integer_col :: "string \<Rightarrow> bool \<Rightarrow> column" where
  "integer_col n required = \<lparr>col_name = n, col_type = Integer_Column, not_null = required, col_default = NULL\<rparr>"

definition text_default :: "string \<Rightarrow> string \<Rightarrow> column" where
  "text_default n s = \<lparr>col_name = n, col_type = Text_Column, not_null = True, col_default = TEXT s\<rparr>"

definition RUNS :: table_def where
  "RUNS = \<lparr>table_name = ''runs'',
     columns = [text_col ''run_id'', text_required ''thread_id'', text_required ''employee_id'', text_required ''status'',
       text_col ''pause_reason'', text_col ''failure_reason'', text_col ''failure_detail'',
       integer_default ''cancel_requested'' 0, integer_default ''step_count'' 0, integer_default ''tool_call_count'' 0,
       integer_default ''max_steps'' 20, integer_default ''max_tool_calls'' 30,
       text_required ''created_at'', text_required ''updated_at''],
     primary_key = [''run_id''], unique_columns = [''thread_id''], foreign_keys = []\<rparr>"

definition STEP_TRACE :: table_def where
  "STEP_TRACE = \<lparr>table_name = ''step_trace'',
     columns = [integer_col ''id'' False,
       text_required ''run_id'', text_required ''step_name'',
       integer_col ''attempt'' True,
       text_required ''status'', text_col ''tool_invoked'', text_col ''pause_reason'', text_col ''error_type'', text_col ''error_message'',
       text_default ''detail'' [open_brace, close_brace],
       text_required ''started_at'', text_col ''ended_at''],
     primary_key = [''id''], unique_columns = [], foreign_keys = [(''run_id'', ''runs'', ''run_id'')]\<rparr>"

definition SIDE_EFFECTS :: table_def where
  "SIDE_EFFECTS = \<lparr>table_name = ''side_effects'',
     columns = [text_col ''idempotency_key'', text_required ''run_id'', text_required ''step_name'', text_required ''tool_name'',
       text_required ''state'', text_col ''result'', text_required ''created_at'', text_col ''completed_at''],
     primary_key = [''idempotency_key''], unique_columns = [], foreign_keys = [(''run_id'', ''runs'', ''run_id'')]\<rparr>"

definition PROVIDER_EFFECTS :: table_def where
  "PROVIDER_EFFECTS = \<lparr>table_name = ''provider_effects'',
     columns = [text_required ''provider'', text_required ''idempotency_key'', text_required ''payload'', text_required ''created_at''],
     primary_key = [''provider'', ''idempotency_key''], unique_columns = [], foreign_keys = []\<rparr>"

definition SCHEMA :: "table_def list" where
  "SCHEMA = [RUNS, STEP_TRACE, SIDE_EFFECTS, PROVIDER_EFFECTS]"

text \<open>What the schema demands of a database: its rows typed, its keys unique, its references met.\<close>

definition cell :: "row \<Rightarrow> string \<Rightarrow> sql" where
  "cell r n = (case map_of r n of Some v \<Rightarrow> v | None \<Rightarrow> NULL)"

fun value_ok :: "column \<Rightarrow> sql \<Rightarrow> bool" where
  "value_ok c NULL = (\<not> not_null c)"
| "value_ok c (INTEGER i) = (col_type c = Integer_Column)"
| "value_ok c (TEXT s) = (col_type c = Text_Column)"

definition row_ok :: "table_def \<Rightarrow> row \<Rightarrow> bool" where
  "row_ok t r \<longleftrightarrow> list_all2 (\<lambda>c (n, v). n = col_name c \<and> value_ok c v) (columns t) r"

definition table_ok :: "(string \<Rightarrow> row list) \<Rightarrow> table_def \<Rightarrow> bool" where
  "table_ok db t \<longleftrightarrow> (let rows = db (table_name t) in
     (\<forall>r \<in> set rows. row_ok t r)
     \<and> distinct (map (\<lambda>r. map (cell r) (primary_key t)) rows)
     \<and> (\<forall>u \<in> set (unique_columns t). distinct (map (\<lambda>r. cell r u) rows))
     \<and> (\<forall>(c, t', c') \<in> set (foreign_keys t). \<forall>r \<in> set rows. cell r c = NULL \<or> cell r c \<in> (\<lambda>r'. cell r' c') ` set (db t')))"

section \<open>The rows\<close>

definition text_or_null :: "string option \<Rightarrow> sql" where
  "text_or_null v = (case v of None \<Rightarrow> NULL | Some s \<Rightarrow> TEXT s)"

definition stamp :: "ts \<Rightarrow> string" where
  "stamp t = isoformat (of_instant t)"

definition run_row :: "run \<Rightarrow> row" where
  "run_row r = [(''run_id'', TEXT (run_id r)), (''thread_id'', TEXT (thread_id r)), (''employee_id'', TEXT (employee_id r)),
     (''status'', TEXT (run_status_value (status r))), (''pause_reason'', text_or_null (map_option pause_value (pause_reason r))),
     (''failure_reason'', text_or_null (map_option failure_value (failure_reason r))),
     (''failure_detail'', text_or_null (failure_detail r)),
     (''cancel_requested'', INTEGER (if cancel_requested r then 1 else 0)), (''step_count'', INTEGER (step_count r)),
     (''tool_call_count'', INTEGER (tool_call_count r)), (''max_steps'', INTEGER (max_steps r)),
     (''max_tool_calls'', INTEGER (max_tool_calls r)),
     (''created_at'', TEXT (stamp (created_at r))), (''updated_at'', TEXT (stamp (updated_at r)))]"

definition attempt_row :: "step_attempt \<Rightarrow> row" where
  "attempt_row a = [(''id'', INTEGER (int (att_id a))), (''run_id'', TEXT (att_run a)), (''step_name'', TEXT (att_step a)),
     (''attempt'', INTEGER (int (attempt a))), (''status'', TEXT (step_status_value (att_status a))),
     (''tool_invoked'', text_or_null (tool_invoked a)), (''pause_reason'', text_or_null (map_option pause_value (att_pause a))),
     (''error_type'', text_or_null (error_type a)), (''error_message'', text_or_null (error_message a)),
     (''detail'', TEXT (dumps (detail a))), (''started_at'', TEXT (stamp (started_at a))),
     (''ended_at'', text_or_null (map_option stamp (ended_at a)))]"

definition effect_row :: "side_effect_record \<Rightarrow> row" where
  "effect_row e = [(''idempotency_key'', TEXT (idempotency_key e)), (''run_id'', TEXT (eff_run e)), (''step_name'', TEXT (eff_step e)),
     (''tool_name'', TEXT (eff_tool e)), (''state'', TEXT (effect_state_value (eff_state e))),
     (''result'', text_or_null (map_option dumps (eff_result e))), (''created_at'', TEXT (stamp (eff_created e))),
     (''completed_at'', text_or_null (map_option stamp (completed_at e)))]"

definition provider_row :: "provider_effect \<Rightarrow> row" where
  "provider_row p = [(''provider'', TEXT (provider p)), (''idempotency_key'', TEXT (provider_key p)),
     (''payload'', TEXT (dumps (payload p))), (''created_at'', TEXT (stamp (prov_created p)))]"

definition tables_of :: "world \<Rightarrow> string \<Rightarrow> row list" where
  "tables_of w name =
     (if name = ''runs'' then map run_row (runs_tbl w)
      else if name = ''step_trace'' then map attempt_row (trace_tbl w)
      else if name = ''side_effects'' then map effect_row (effects_tbl w)
      else if name = ''provider_effects'' then map provider_row (provider_tbl w)
      else [])"

section \<open>Reading a row\<close>

text \<open>
  \<open>row[name]\<close> of an \<open>sqlite3.Row\<close>, and a column as a text or an integer.  The read models are typed
  here, so a value of another type, which Python would pass on, is a \<open>TypeError\<close>; no row that
  meets the schema has one.
\<close>

definition item :: "row \<Rightarrow> string \<Rightarrow> exc + sql" where
  "item r n = (case map_of r n of None \<Rightarrow> Inl (Exc IndexError ''No item with that key'') | Some v \<Rightarrow> Inr v)"

definition ill_typed :: "exc + 'a" where
  "ill_typed = Inl (Exc TypeError ''unexpected column type'')"

definition text_item :: "row \<Rightarrow> string \<Rightarrow> exc + string" where
  "text_item r n = sum_bind (item r n) (\<lambda>v. case v of TEXT s \<Rightarrow> Inr s | _ \<Rightarrow> ill_typed)"

definition nullable_item :: "row \<Rightarrow> string \<Rightarrow> exc + string option" where
  "nullable_item r n = sum_bind (item r n) (\<lambda>v. case v of TEXT s \<Rightarrow> Inr (Some s) | NULL \<Rightarrow> Inr None | INTEGER i \<Rightarrow> ill_typed)"

definition int_item :: "row \<Rightarrow> string \<Rightarrow> exc + int" where
  "int_item r n = sum_bind (item r n) (\<lambda>v. case v of INTEGER i \<Rightarrow> Inr i | _ \<Rightarrow> ill_typed)"

definition nat_item :: "row \<Rightarrow> string \<Rightarrow> exc + nat" where
  "nat_item r n = sum_bind (int_item r n) (\<lambda>i. if 0 \<le> i then Inr (nat i) else ill_typed)"

text \<open>\<open>E(value)\<close> for an enumeration with the given members and values.\<close>

definition member :: "string \<Rightarrow> ('a \<Rightarrow> string) \<Rightarrow> 'a list \<Rightarrow> string \<Rightarrow> exc + 'a" where
  "member name value ms v = (case find (\<lambda>m. value m = v) ms of
     Some m \<Rightarrow> Inr m | None \<Rightarrow> Inl (Exc ValueError (repr_str v @ '' is not a valid '' @ name)))"

definition run_status_of :: "string \<Rightarrow> exc + run_status" where
  "run_status_of = member ''RunStatus'' run_status_value [RPending, RRunning, RPaused, RCompleted, RFailed, RCancelled]"

definition step_status_of :: "string \<Rightarrow> exc + step_status" where
  "step_status_of = member ''StepStatus'' step_status_value [SPending, SRunning, SPaused, SCompleted, SFailed, SSkipped]"

definition failure_reason_of :: "string \<Rightarrow> exc + failure_reason" where
  "failure_reason_of = member ''FailureReason'' failure_value
     [TOOL_FAILED, APPROVAL_REJECTED, BUDGET_EXCEEDED, TOOL_NOT_ALLOWED, INVALID_PLAN, NEEDS_RECONCILIATION]"

definition effect_state_of :: "string \<Rightarrow> exc + effect_state" where
  "effect_state_of = member ''state'' effect_state_value [RESERVED, IN_PROGRESS, COMPLETED, FAILED]"

text \<open>\<open>f(v) if v else None\<close>.\<close>

definition if_given :: "(string \<Rightarrow> exc + 'a) \<Rightarrow> string option \<Rightarrow> exc + 'a option" where
  "if_given f v = (case v of None \<Rightarrow> Inr None
     | Some s \<Rightarrow> if s = [] then Inr None else sum_bind (f s) (\<lambda>a. Inr (Some a)))"

definition parse_ts :: "string option \<Rightarrow> exc + ts option" where
  "parse_ts = if_given (\<lambda>s. case fromisoformat s of
     None \<Rightarrow> Inl (Exc ValueError (''Invalid isoformat string: '' @ repr_str s)) | Some d \<Rightarrow> Inr (instant d))"

definition json_text :: "string \<Rightarrow> exc + pyval" where
  "json_text s = (case loads s of None \<Rightarrow> Inl (Exc JSONDecodeError []) | Some v \<Rightarrow> Inr v)"

definition ts_item :: "row \<Rightarrow> string \<Rightarrow> exc + ts" where
  "ts_item r n = sum_bind (nullable_item r n) (\<lambda>v. sum_bind (parse_ts v) (\<lambda>t. case t of None \<Rightarrow> ill_typed | Some t \<Rightarrow> Inr t))"

definition to_run :: "row \<Rightarrow> exc + run" where
  "to_run r =
     sum_bind (text_item r ''run_id'') (\<lambda>rid. sum_bind (text_item r ''thread_id'') (\<lambda>tid.
     sum_bind (text_item r ''employee_id'') (\<lambda>emp.
     sum_bind (text_item r ''status'') (\<lambda>st. sum_bind (run_status_of st) (\<lambda>st.
     sum_bind (nullable_item r ''pause_reason'') (\<lambda>p. sum_bind (if_given pause_reason_of p) (\<lambda>p.
     sum_bind (nullable_item r ''failure_reason'') (\<lambda>f. sum_bind (if_given failure_reason_of f) (\<lambda>f.
     sum_bind (nullable_item r ''failure_detail'') (\<lambda>d. sum_bind (int_item r ''cancel_requested'') (\<lambda>cr.
     sum_bind (int_item r ''step_count'') (\<lambda>sc. sum_bind (int_item r ''tool_call_count'') (\<lambda>tc.
     sum_bind (int_item r ''max_steps'') (\<lambda>ms. sum_bind (int_item r ''max_tool_calls'') (\<lambda>mc.
     sum_bind (ts_item r ''created_at'') (\<lambda>ca. sum_bind (ts_item r ''updated_at'') (\<lambda>ua.
     Inr \<lparr>run_id = rid, thread_id = tid, employee_id = emp, status = st, created_at = ca, updated_at = ua, pause_reason = p,
       failure_reason = f, failure_detail = d, cancel_requested = (cr \<noteq> 0), step_count = sc, tool_call_count = tc,
       max_steps = ms, max_tool_calls = mc\<rparr>)))))))))))))))))"

definition to_attempt :: "row \<Rightarrow> exc + step_attempt" where
  "to_attempt r =
     sum_bind (nat_item r ''id'') (\<lambda>aid. sum_bind (text_item r ''run_id'') (\<lambda>rid. sum_bind (text_item r ''step_name'') (\<lambda>sn.
     sum_bind (nat_item r ''attempt'') (\<lambda>n. sum_bind (text_item r ''status'') (\<lambda>st. sum_bind (step_status_of st) (\<lambda>st.
     sum_bind (nullable_item r ''tool_invoked'') (\<lambda>tool.
     sum_bind (nullable_item r ''pause_reason'') (\<lambda>p. sum_bind (if_given pause_reason_of p) (\<lambda>p.
     sum_bind (nullable_item r ''error_type'') (\<lambda>et. sum_bind (nullable_item r ''error_message'') (\<lambda>em.
     sum_bind (text_item r ''detail'') (\<lambda>d. sum_bind (json_text d) (\<lambda>d.
     sum_bind (ts_item r ''started_at'') (\<lambda>sa. sum_bind (nullable_item r ''ended_at'') (\<lambda>ea. sum_bind (parse_ts ea) (\<lambda>ea.
     Inr \<lparr>att_id = aid, att_run = rid, att_step = sn, attempt = n, att_status = st, started_at = sa, ended_at = ea,
       tool_invoked = tool, att_pause = p, error_type = et, error_message = em, detail = d\<rparr>))))))))))))))))"

definition to_record :: "row \<Rightarrow> exc + side_effect_record" where
  "to_record r =
     sum_bind (text_item r ''idempotency_key'') (\<lambda>key. sum_bind (text_item r ''run_id'') (\<lambda>rid.
     sum_bind (text_item r ''step_name'') (\<lambda>sn. sum_bind (text_item r ''tool_name'') (\<lambda>tn.
     sum_bind (text_item r ''state'') (\<lambda>st. sum_bind (effect_state_of st) (\<lambda>st.
     sum_bind (nullable_item r ''result'') (\<lambda>res. sum_bind (if_given json_text res) (\<lambda>res.
     sum_bind (ts_item r ''created_at'') (\<lambda>ca. sum_bind (nullable_item r ''completed_at'') (\<lambda>co. sum_bind (parse_ts co) (\<lambda>co.
     Inr \<lparr>idempotency_key = key, eff_run = rid, eff_step = sn, eff_tool = tn, eff_state = st, eff_created = ca,
       completed_at = co, eff_result = res\<rparr>)))))))))))"

section \<open>Rows read back\<close>

lemma member_value:
  "run_status_of (run_status_value s) = Inr s" "step_status_of (step_status_value t) = Inr t"
  "failure_reason_of (failure_value f) = Inr f" "effect_state_of (effect_state_value e) = Inr e"
  by - ((cases s; simp add: run_status_of_def member_def), (cases t; simp add: step_status_of_def member_def),
      (cases f; simp add: failure_reason_of_def member_def), (cases e; simp add: effect_state_of_def member_def))

lemma values_ne [simp]: "pause_value p \<noteq> []" "failure_value f \<noteq> []"
  by - ((cases p; simp), (cases f; simp))

lemma dumps_ne [simp]: "dumps v \<noteq> []"
  using dumps_starts [of v] by (auto simp: starts_value_def)

lemma stamp_ne [simp]: "stamp t \<noteq> []"
  by (simp add: stamp_def isoformat_def)

text \<open>An instant that a \<open>datetime\<close> has.\<close>

definition dated :: "ts \<Rightarrow> bool" where
  "dated t \<longleftrightarrow> valid (of_instant t)"

lemma parse_stamp:
  "dated t \<Longrightarrow> parse_ts (Some (stamp t)) = Inr (Some t)"
  "(\<forall>t \<in> set_option ot. dated t) \<Longrightarrow> parse_ts (map_option stamp ot) = Inr ot"
  using stamp_ne
  by (cases ot; simp add: parse_ts_def if_given_def stamp_def dated_def fromisoformat_isoformat)+

lemma if_given_values:
  "if_given pause_reason_of (map_option pause_value p) = Inr p"
  "if_given failure_reason_of (map_option failure_value f) = Inr f"
  by - ((cases p; simp add: if_given_def), (cases f; simp add: if_given_def member_value))

lemma if_given_json: "(\<forall>v \<in> set_option res. keyed v \<and> no_tuple v) \<Longrightarrow> if_given json_text (map_option dumps res) = Inr res"
  by (cases res) (simp_all add: if_given_def json_text_def loads_dumps json_roundtrip_fixed)

lemma item_simps:
  "item ((n, v) # r) n = Inr v" "m \<noteq> n \<Longrightarrow> item ((m, v) # r) n = item r n"
  by (simp_all add: item_def)

lemma nullable_text_or_null: "item r n = Inr (text_or_null v) \<Longrightarrow> nullable_item r n = Inr v"
  by (cases v) (simp_all add: nullable_item_def text_or_null_def)

lemma text_item_at: "item r n = Inr (TEXT s) \<Longrightarrow> text_item r n = Inr s"
  and int_item_at: "item r n = Inr (INTEGER i) \<Longrightarrow> int_item r n = Inr i"
  and nat_item_at: "item r n = Inr (INTEGER (int k)) \<Longrightarrow> nat_item r n = Inr k"
  and ts_item_at: "item r n = Inr (TEXT (stamp t)) \<Longrightarrow> dated t \<Longrightarrow> ts_item r n = Inr t"
  by (simp_all add: text_item_def int_item_def nat_item_def ts_item_def nullable_item_def parse_stamp)

lemmas item_at = text_item_at int_item_at nat_item_at ts_item_at nullable_text_or_null

text \<open>A Python dict written as JSON, or the empty one of the column's default: no tuple, no key twice.\<close>

definition json_value :: "pyval \<Rightarrow> bool" where
  "json_value v \<longleftrightarrow> keyed v \<and> no_tuple v"

lemma attempt_reads_back:
  assumes "dated (started_at a)" "\<forall>t \<in> set_option (ended_at a). dated t" "json_value (detail a)"
  shows "to_attempt (attempt_row a) = Inr a"
  using assms by (simp add: to_attempt_def attempt_row_def item_at item_simps member_value if_given_values parse_stamp
      json_text_def loads_dumps json_value_def json_roundtrip_fixed)

lemma record_reads_back:
  assumes "dated (eff_created e)" "\<forall>t \<in> set_option (completed_at e). dated t" "\<forall>v \<in> set_option (eff_result e). json_value v"
  shows "to_record (effect_row e) = Inr e"
  using assms by (simp add: to_record_def effect_row_def item_at item_simps member_value if_given_json parse_stamp json_value_def)

text \<open>
  C10. What is stored is what is read: the row of a run, of a step attempt and of a ledger entry, with
  its enumerations as their values, its timestamps as ISO texts and its detail and result as JSON
  texts, is converted back into exactly the read model it stores, by \<open>_to_run\<close>, \<open>_to_attempt\<close> and
  \<open>_to_record\<close>, whatever the strings in it.
\<close>

theorem rows_read_back:
  assumes "dated (created_at r)" and "dated (updated_at r)"
    and "dated (started_at a)" and "\<forall>t \<in> set_option (ended_at a). dated t" and "json_value (detail a)"
    and "dated (eff_created e)" and "\<forall>t \<in> set_option (completed_at e). dated t" and "\<forall>v \<in> set_option (eff_result e). json_value v"
  shows "to_run (run_row r) = Inr r \<and> to_attempt (attempt_row a) = Inr a \<and> to_record (effect_row e) = Inr e"
  using assms(1,2) attempt_reads_back [OF assms(3-5)] record_reads_back [OF assms(6-8)]
  by (simp add: to_run_def run_row_def item_at item_simps member_value if_given_values)

definition noon :: "nat \<Rightarrow> datetime" where
  "noon us = \<lparr>year = 2026, month = 9, day = 30, hour = 12, minute = 0, second = 0, microsecond = us\<rparr>"

lemma dated_noon: "us < 1000000 \<Longrightarrow> dated (instant (noon us))"
proof -
  assume "us < 1000000"
  then have "valid (noon us)" by (simp add: noon_def valid_def days_in_month_def)
  then show ?thesis by (simp add: dated_def of_instant_instant)
qed

theorem rows_read_back_witness:
  "to_attempt (attempt_row (close_row SPaused (Some HR_APPROVAL) None None (Some (PDict [(''note'', PStr [quote, CHR 0x0A])])) None
      (instant (noon 1)) (new_attempt 1 ''r1'' ''await_hr_approval'' 1 None (instant (noon 0))))) =
    Inr (close_row SPaused (Some HR_APPROVAL) None None (Some (PDict [(''note'', PStr [quote, CHR 0x0A])])) None
      (instant (noon 1)) (new_attempt 1 ''r1'' ''await_hr_approval'' 1 None (instant (noon 0))))"
  (is "to_attempt (attempt_row ?a) = _")
proof -
  let ?r = "new_run ''r1'' ''emp-001'' 20 30 (instant (noon 0))" and ?e = "new_effect ''k'' ''r1'' ''s'' ''t'' (instant (noon 0))"
  have "dated (created_at ?r)" "dated (updated_at ?r)" "dated (started_at ?a)" "\<forall>t \<in> set_option (ended_at ?a). dated t"
      "json_value (detail ?a)" "dated (eff_created ?e)" "\<forall>t \<in> set_option (completed_at ?e). dated t"
      "\<forall>v \<in> set_option (eff_result ?e). json_value v"
    by (simp_all add: new_run_def new_attempt_def close_row_def new_effect_def dated_noon json_value_def)
  from rows_read_back [OF this] show ?thesis by blast
qed

section \<open>The statements\<close>

text \<open>
  An assignment of an \<open>UPDATE\<close>: a parameter, \<open>COALESCE(?, column)\<close>, or \<open>column + ?\<close>.  Integers are
  SQLite's 64-bit ones only as long as the sum is one.
\<close>

datatype assignment = Param sql | Coalesce sql | Plus int

fun assigned :: "sql \<Rightarrow> assignment \<Rightarrow> sql" where
  "assigned old (Param v) = v"
| "assigned old (Coalesce v) = (if v = NULL then old else v)"
| "assigned (INTEGER i) (Plus n) = INTEGER (i + n)"
| "assigned old (Plus n) = NULL"

definition sql_set :: "(string \<times> assignment) list \<Rightarrow> row \<Rightarrow> row" where
  "sql_set as r = map (\<lambda>(n, v). (n, case map_of as n of None \<Rightarrow> v | Some a \<Rightarrow> assigned v a)) r"

definition sql_update :: "(string \<times> assignment) list \<Rightarrow> string \<Rightarrow> sql \<Rightarrow> row list \<Rightarrow> row list" where
  "sql_update as c key rows = map (\<lambda>r. if cell r c = key then sql_set as r else r) rows"

definition sql_values :: "table_def \<Rightarrow> (string \<times> sql) list \<Rightarrow> row" where
  "sql_values t vs = map (\<lambda>c. (col_name c, case map_of vs (col_name c) of None \<Rightarrow> col_default c | Some v \<Rightarrow> v)) (columns t)"

lemmas col_defs = text_col_def text_required_def integer_default_def integer_col_def text_default_def

text \<open>The statements of the repositories, with their parameters.\<close>

definition INSERT_RUN :: "string \<Rightarrow> string \<Rightarrow> int \<Rightarrow> int \<Rightarrow> ts \<Rightarrow> (string \<times> sql) list" where
  "INSERT_RUN rid emp ms mc t = [(''run_id'', TEXT rid), (''thread_id'', TEXT (''thread_'' @ rid)), (''employee_id'', TEXT emp),
     (''status'', TEXT (run_status_value RPending)), (''max_steps'', INTEGER ms), (''max_tool_calls'', INTEGER mc),
     (''created_at'', TEXT (stamp t)), (''updated_at'', TEXT (stamp t))]"

definition UPDATE_STATUS ::
  "run_status \<Rightarrow> pause_reason option \<Rightarrow> failure_reason option \<Rightarrow> string option \<Rightarrow> ts \<Rightarrow> (string \<times> assignment) list" where
  "UPDATE_STATUS target p f d t = [(''status'', Param (TEXT (run_status_value target))),
     (''pause_reason'', Param (text_or_null (map_option pause_value p))),
     (''failure_reason'', Coalesce (text_or_null (map_option failure_value f))),
     (''failure_detail'', Coalesce (text_or_null d)), (''updated_at'', Param (TEXT (stamp t)))]"

definition UPDATE_CANCEL :: "ts \<Rightarrow> (string \<times> assignment) list" where
  "UPDATE_CANCEL t = [(''cancel_requested'', Param (INTEGER 1)), (''updated_at'', Param (TEXT (stamp t)))]"

definition UPDATE_COUNTERS :: "int \<Rightarrow> int \<Rightarrow> ts \<Rightarrow> (string \<times> assignment) list" where
  "UPDATE_COUNTERS steps calls t = [(''step_count'', Plus steps), (''tool_call_count'', Plus calls),
     (''updated_at'', Param (TEXT (stamp t)))]"

definition INSERT_ATTEMPT :: "nat \<Rightarrow> string \<Rightarrow> string \<Rightarrow> nat \<Rightarrow> string option \<Rightarrow> ts \<Rightarrow> (string \<times> sql) list" where
  "INSERT_ATTEMPT aid rid s n tool t = [(''id'', INTEGER (int aid)), (''run_id'', TEXT rid), (''step_name'', TEXT s),
     (''attempt'', INTEGER (int n)), (''status'', TEXT (step_status_value SRunning)), (''tool_invoked'', text_or_null tool),
     (''started_at'', TEXT (stamp t))]"

definition UPDATE_ATTEMPT :: "step_status \<Rightarrow> pause_reason option \<Rightarrow> string option \<Rightarrow> string option \<Rightarrow> pyval option \<Rightarrow>
    string option \<Rightarrow> ts \<Rightarrow> (string \<times> assignment) list" where
  "UPDATE_ATTEMPT target p et em d tool t = [(''status'', Param (TEXT (step_status_value target))),
     (''pause_reason'', Param (text_or_null (map_option pause_value p))), (''error_type'', Param (text_or_null et)),
     (''error_message'', Param (text_or_null em)), (''detail'', Coalesce (text_or_null (map_option dumps d))),
     (''tool_invoked'', Coalesce (text_or_null tool)), (''ended_at'', Param (TEXT (stamp t)))]"

definition INSERT_EFFECT :: "string \<Rightarrow> string \<Rightarrow> string \<Rightarrow> string \<Rightarrow> ts \<Rightarrow> (string \<times> sql) list" where
  "INSERT_EFFECT key rid s tool t = [(''idempotency_key'', TEXT key), (''run_id'', TEXT rid), (''step_name'', TEXT s),
     (''tool_name'', TEXT tool), (''state'', TEXT (effect_state_value RESERVED)), (''created_at'', TEXT (stamp t))]"

definition INSERT_PROVIDER :: "string \<Rightarrow> string \<Rightarrow> pyval \<Rightarrow> ts \<Rightarrow> (string \<times> sql) list" where
  "INSERT_PROVIDER p key value t = [(''provider'', TEXT p), (''idempotency_key'', TEXT key), (''payload'', TEXT (dumps value)),
     (''created_at'', TEXT (stamp t))]"

definition UPDATE_EFFECT :: "effect_state \<Rightarrow> pyval option \<Rightarrow> ts option \<Rightarrow> (string \<times> assignment) list" where
  "UPDATE_EFFECT st res t = [(''state'', Param (TEXT (effect_state_value st))), (''result'', Coalesce (text_or_null (map_option dumps res))),
     (''completed_at'', Param (text_or_null (map_option stamp t)))]"

lemma dumps_json_roundtrip [simp]: "dumps (json_roundtrip v) = dumps v"
proof (induction v)
  case (PDict d)
  then have "map (\<lambda>(k, v). dumps_str k @ '': '' @ dumps v) (map (\<lambda>(k, v). (k, json_roundtrip v)) d) =
      map (\<lambda>(k, v). dumps_str k @ '': '' @ dumps v) d"
    by auto
  then show ?case by (simp only: dumps.simps json_roundtrip.simps)
qed (simp_all add: comp_def cong: map_cong)

lemma text_or_null_simps [simp]: "text_or_null None = NULL" "text_or_null (Some s) = TEXT s"
  "text_or_null v = NULL \<longleftrightarrow> v = None"
  by (simp_all add: text_or_null_def split: option.splits)

lemma coalesce_text: "(if v = None then text_or_null old else text_or_null v) = text_or_null (coalesce v old)"
  by (cases v) (simp_all add: coalesce_def)

lemma inserted_rows:
  "sql_values RUNS (INSERT_RUN rid emp ms mc t) = run_row (new_run rid emp ms mc t)"
  "sql_values STEP_TRACE (INSERT_ATTEMPT aid rid s n tool t) = attempt_row (new_attempt aid rid s n tool t)"
  "sql_values SIDE_EFFECTS (INSERT_EFFECT key rid s tn t) = effect_row (new_effect key rid s tn t)"
  "sql_values PROVIDER_EFFECTS (INSERT_PROVIDER p key v t) =
     provider_row \<lparr>provider = p, provider_key = key, payload = json_roundtrip v, prov_created = t\<rparr>"
  by (simp_all add: run_row_def new_run_def thread_of_def RUNS_def INSERT_RUN_def attempt_row_def new_attempt_def
      STEP_TRACE_def INSERT_ATTEMPT_def effect_row_def new_effect_def SIDE_EFFECTS_def INSERT_EFFECT_def
      provider_row_def PROVIDER_EFFECTS_def INSERT_PROVIDER_def sql_values_def col_defs)

text \<open>
  C9. The model of the repositories is what their SQL does to the stored rows: a new run, attempt or
  ledger entry is the row its \<open>INSERT\<close> makes with the schema's defaults for the columns it leaves out,
  and each change of a read model (status with its reasons, cancellation flag, counters, closing an
  attempt, ledger state) is the \<open>UPDATE\<close> with its \<open>COALESCE\<close>s and sums on the row's columns.
\<close>

theorem rows_follow_the_statements:
  "run_row (new_run rid emp ms mc t) = sql_values RUNS (INSERT_RUN rid emp ms mc t)
   \<and> run_row (write_status st p f d t r) = sql_set (UPDATE_STATUS st p f d t) (run_row r)
   \<and> run_row (r\<lparr>cancel_requested := True, updated_at := t\<rparr>) = sql_set (UPDATE_CANCEL t) (run_row r)
   \<and> run_row (add_counts i j t r) = sql_set (UPDATE_COUNTERS i j t) (run_row r)
   \<and> attempt_row (new_attempt aid rid s n tool t) = sql_values STEP_TRACE (INSERT_ATTEMPT aid rid s n tool t)
   \<and> attempt_row (close_row tgt p et em det tool t a) = sql_set (UPDATE_ATTEMPT tgt p et em det tool t) (attempt_row a)
   \<and> effect_row (new_effect key rid s tn t) = sql_values SIDE_EFFECTS (INSERT_EFFECT key rid s tn t)
   \<and> effect_row (write_state es res ot e) = sql_set (UPDATE_EFFECT es res ot) (effect_row e)"
proof (intro conjI)
  show "run_row (new_run rid emp ms mc t) = sql_values RUNS (INSERT_RUN rid emp ms mc t)"
    by (rule inserted_rows [symmetric])
  show "run_row (write_status st p f d t r) = sql_set (UPDATE_STATUS st p f d t) (run_row r)"
    by (cases f; cases d; simp add: run_row_def write_status_def sql_set_def UPDATE_STATUS_def coalesce_def)
  show "run_row (r\<lparr>cancel_requested := True, updated_at := t\<rparr>) = sql_set (UPDATE_CANCEL t) (run_row r)"
    by (simp add: run_row_def sql_set_def UPDATE_CANCEL_def)
  show "run_row (add_counts i j t r) = sql_set (UPDATE_COUNTERS i j t) (run_row r)"
    by (simp add: run_row_def add_counts_def sql_set_def UPDATE_COUNTERS_def)
  show "attempt_row (new_attempt aid rid s n tool t) = sql_values STEP_TRACE (INSERT_ATTEMPT aid rid s n tool t)"
    by (rule inserted_rows [symmetric])
  show "attempt_row (close_row tgt p et em det tool t a) = sql_set (UPDATE_ATTEMPT tgt p et em det tool t) (attempt_row a)"
    by (cases det; cases tool; simp add: attempt_row_def close_row_def sql_set_def UPDATE_ATTEMPT_def coalesce_def)
  show "effect_row (new_effect key rid s tn t) = sql_values SIDE_EFFECTS (INSERT_EFFECT key rid s tn t)"
    by (rule inserted_rows [symmetric])
  show "effect_row (write_state es res ot e) = sql_set (UPDATE_EFFECT es res ot) (effect_row e)"
    by (cases res; simp add: effect_row_def write_state_def sql_set_def UPDATE_EFFECT_def coalesce_def)
qed

section \<open>A database that meets its schema\<close>

lemma value_ok_text_or_null: "value_ok c (text_or_null v) \<longleftrightarrow> (v = None \<longrightarrow> \<not> not_null c) \<and> (v \<noteq> None \<longrightarrow> col_type c = Text_Column)"
  by (cases v) simp_all

lemma col_simps [simp]:
  "col_name (text_col n) = n" "col_type (text_col n) = Text_Column" "not_null (text_col n) = False"
  "col_name (text_required n) = n" "col_type (text_required n) = Text_Column"
  "col_name (integer_default n k) = n" "col_type (integer_default n k) = Integer_Column"
  "col_name (integer_col n b) = n" "col_type (integer_col n b) = Integer_Column"
  "col_name (text_default n s) = n" "col_type (text_default n s) = Text_Column"
  by (simp_all add: col_defs)

lemma columns_of:
  "columns RUNS = [text_col ''run_id'', text_required ''thread_id'', text_required ''employee_id'', text_required ''status'',
     text_col ''pause_reason'', text_col ''failure_reason'', text_col ''failure_detail'',
     integer_default ''cancel_requested'' 0, integer_default ''step_count'' 0, integer_default ''tool_call_count'' 0,
     integer_default ''max_steps'' 20, integer_default ''max_tool_calls'' 30,
     text_required ''created_at'', text_required ''updated_at'']"
  "columns STEP_TRACE = [integer_col ''id'' False, text_required ''run_id'', text_required ''step_name'', integer_col ''attempt'' True,
     text_required ''status'', text_col ''tool_invoked'', text_col ''pause_reason'', text_col ''error_type'', text_col ''error_message'',
     text_default ''detail'' [open_brace, close_brace], text_required ''started_at'', text_col ''ended_at'']"
  "columns SIDE_EFFECTS = [text_col ''idempotency_key'', text_required ''run_id'', text_required ''step_name'', text_required ''tool_name'',
     text_required ''state'', text_col ''result'', text_required ''created_at'', text_col ''completed_at'']"
  "columns PROVIDER_EFFECTS = [text_required ''provider'', text_required ''idempotency_key'', text_required ''payload'', text_required ''created_at'']"
  by (simp_all add: RUNS_def STEP_TRACE_def SIDE_EFFECTS_def PROVIDER_EFFECTS_def)

lemma rows_ok:
  "row_ok RUNS (run_row r)" "row_ok STEP_TRACE (attempt_row a)" "row_ok SIDE_EFFECTS (effect_row e)"
  "row_ok PROVIDER_EFFECTS (provider_row p)"
  unfolding row_ok_def columns_of run_row_def attempt_row_def effect_row_def provider_row_def
  by (simp_all add: value_ok_text_or_null)

lemma cell_Cons: "cell ((n, v) # r) m = (if m = n then v else cell r m)"
  by (simp add: cell_def)

lemma row_keys:
  "cell (run_row r) ''run_id'' = TEXT (run_id r)" "cell (run_row r) ''thread_id'' = TEXT (thread_id r)"
  "cell (attempt_row a) ''id'' = INTEGER (int (att_id a))" "cell (attempt_row a) ''run_id'' = TEXT (att_run a)"
  "cell (effect_row e) ''idempotency_key'' = TEXT (idempotency_key e)" "cell (effect_row e) ''run_id'' = TEXT (eff_run e)"
  "cell (provider_row p) ''provider'' = TEXT (provider p)" "cell (provider_row p) ''idempotency_key'' = TEXT (provider_key p)"
  unfolding run_row_def attempt_row_def effect_row_def provider_row_def cell_Cons by simp_all

lemma distinct_via:
  assumes "distinct (map key rows)" and "\<And>x y. f x = f y \<Longrightarrow> key x = key y"
  shows "distinct (map f rows)"
proof -
  have key: "distinct rows" "inj_on key (set rows)" using assms(1) by (simp_all only: distinct_map)
  have "inj_on f (set rows)" by (rule inj_onI) (rule inj_onD [OF key(2) assms(2)])
  with key(1) show ?thesis by (simp only: distinct_map)
qed

lemma table_okI:
  assumes "db (table_name t) = map f xs" and "\<And>x. row_ok t (f x)"
    and "distinct (map (\<lambda>x. map (cell (f x)) (primary_key t)) xs)"
    and "\<And>u. u \<in> set (unique_columns t) \<Longrightarrow> distinct (map (\<lambda>x. cell (f x) u) xs)"
    and "\<And>c t' c' x. (c, t', c') \<in> set (foreign_keys t) \<Longrightarrow> x \<in> set xs \<Longrightarrow> cell (f x) c \<in> (\<lambda>r. cell r c') ` set (db t')"
  shows "table_ok db t"
  using assms by (fastforce simp: table_ok_def comp_def)

lemma schema_parts:
  "table_name RUNS = ''runs''" "primary_key RUNS = [''run_id'']" "unique_columns RUNS = [''thread_id'']" "foreign_keys RUNS = []"
  "table_name STEP_TRACE = ''step_trace''" "primary_key STEP_TRACE = [''id'']" "unique_columns STEP_TRACE = []"
  "foreign_keys STEP_TRACE = [(''run_id'', ''runs'', ''run_id'')]"
  "table_name SIDE_EFFECTS = ''side_effects''" "primary_key SIDE_EFFECTS = [''idempotency_key'']" "unique_columns SIDE_EFFECTS = []"
  "foreign_keys SIDE_EFFECTS = [(''run_id'', ''runs'', ''run_id'')]"
  "table_name PROVIDER_EFFECTS = ''provider_effects''" "primary_key PROVIDER_EFFECTS = [''provider'', ''idempotency_key'']"
  "unique_columns PROVIDER_EFFECTS = []" "foreign_keys PROVIDER_EFFECTS = []"
  by (simp_all add: RUNS_def STEP_TRACE_def SIDE_EFFECTS_def PROVIDER_EFFECTS_def)

lemma tables_of_simps:
  "tables_of w ''runs'' = map run_row (runs_tbl w)" "tables_of w ''step_trace'' = map attempt_row (trace_tbl w)"
  "tables_of w ''side_effects'' = map effect_row (effects_tbl w)" "tables_of w ''provider_effects'' = map provider_row (provider_tbl w)"
  by (simp_all add: tables_of_def)

lemma schema_met:
  assumes "runs_wf w" and "trace_wf w" and "refs_ok w" and "t \<in> set SCHEMA"
  shows "table_ok (tables_of w) t"
proof -
  have runs: "distinct (map run_id (runs_tbl w))" "\<And>r. r \<in> set (runs_tbl w) \<Longrightarrow> thread_id r = thread_of (run_id r)"
    using assms(1) by (simp_all add: runs_wf_def)
  have "map thread_id (runs_tbl w) = map thread_of (map run_id (runs_tbl w))" using runs(2) by simp
  then have threads: "distinct (map thread_id (runs_tbl w))" using runs(1) by (simp add: distinct_map inj_on_def del: map_map)
  have ids: "distinct (map att_id (trace_tbl w))"
    using assms(2) strict_sorted_iff [of "map att_id (trace_tbl w)"] by (simp add: trace_wf_def)
  have target: "TEXT rid \<in> (\<lambda>r. cell r ''run_id'') ` set (tables_of w ''runs'')" if "lookup_run w rid \<noteq> None" for rid
    using that by (auto simp: lookup_run_def tfind_None_iff row_keys image_image tables_of_simps)
  note refs = assms(3) [unfolded refs_ok_def]
  have "table_ok (tables_of w) RUNS"
    by (rule table_okI [where f = run_row]) (auto simp: schema_parts tables_of_simps rows_ok row_keys
        intro: distinct_via [OF runs(1)] distinct_via [OF threads])
  moreover have "table_ok (tables_of w) STEP_TRACE"
    using refs target by (intro table_okI [where f = attempt_row]) (auto simp: schema_parts tables_of_simps rows_ok row_keys
        intro: distinct_via [OF ids])
  moreover have "table_ok (tables_of w) SIDE_EFFECTS"
    using refs target by (intro table_okI [where f = effect_row]) (auto simp: schema_parts tables_of_simps rows_ok row_keys
        intro: distinct_via)
  moreover have "table_ok (tables_of w) PROVIDER_EFFECTS"
    using refs by (intro table_okI [where f = provider_row]) (auto simp: schema_parts tables_of_simps rows_ok row_keys effect_id_def
        intro: distinct_via)
  ultimately show ?thesis using assms(4) by (auto simp: SCHEMA_def)
qed

end
