(* ===== verification/Stored_State.thy ===== *)
theory Stored_State
  imports Service_Behaviour Rows
begin

text \<open>
  What is on disk in a reachable state: the writers of new rows are the INSERTs under the schema, the tables meet it, the counters fit their columns,
  the order the queries sort by is the order of the instants; and \<open>connect\<close> and \<open>initialize\<close> of
  \<open>persistence/db.py\<close>, which every process calls on the file first, and the checkpointer's connection.
\<close>

section \<open>Opening a database\<close>

definition DEFAULT_DB_PATH :: string where
  "DEFAULT_DB_PATH = ''./offboarding.db''"

definition resolve_db_path :: "(string \<Rightarrow> string option) \<Rightarrow> string option \<Rightarrow> string" where
  "resolve_db_path env given = (case given of
     Some p \<Rightarrow> p
   | None \<Rightarrow> (case env ''OFFBOARDING_DB_PATH'' of Some p \<Rightarrow> p | None \<Rightarrow> DEFAULT_DB_PATH))"

text \<open>What \<open>connect\<close> asks of the file system and of SQLite, in order.\<close>

datatype connection_action =
    Make_Parent_Directory string
  | Open_Autocommit string
  | Pragma string string
  | Setup_Checkpoint_Tables

definition connect :: "(string \<Rightarrow> string option) \<Rightarrow> string option \<Rightarrow> connection_action list" where
  "connect env given =
     (let resolved = resolve_db_path env given in
      (if resolved \<noteq> '':memory:'' then [Make_Parent_Directory resolved] else [])
      @ [Open_Autocommit resolved, Pragma ''foreign_keys'' ''ON'', Pragma ''busy_timeout'' ''5000'']
      @ (if resolved \<noteq> '':memory:'' then [Pragma ''journal_mode'' ''WAL''] else []))"

text \<open>LangGraph's saver gets a connection of its own to the same file (\<open>graph.py\<close>).\<close>

definition build_checkpointer :: "(string \<Rightarrow> string option) \<Rightarrow> string \<Rightarrow> connection_action list" where
  "build_checkpointer env db_path = connect env (Some db_path) @ [Setup_Checkpoint_Tables]"

text \<open>\<open>CREATE TABLE IF NOT EXISTS\<close> for every table of the schema; a file is a map from table names.\<close>

definition create_table :: "table_def \<Rightarrow> (string \<rightharpoonup> row list) \<Rightarrow> (string \<rightharpoonup> row list)" where
  "create_table t db = (case db (table_name t) of None \<Rightarrow> db(table_name t \<mapsto> []) | Some rows \<Rightarrow> db)"

definition initialize :: "(string \<rightharpoonup> row list) \<Rightarrow> (string \<rightharpoonup> row list)" where
  "initialize db = fold create_table SCHEMA db"

lemma create_table_keeps: "db n = Some rows \<Longrightarrow> create_table t db n = Some rows"
  by (auto simp: create_table_def split: option.splits)

lemma initialize_keeps: "db n = Some rows \<Longrightarrow> initialize db n = Some rows"
  by (simp add: initialize_def SCHEMA_def create_table_keeps)

lemma initialize_creates: "t \<in> set SCHEMA \<Longrightarrow> initialize db (table_name t) \<noteq> None"
  by (auto simp: initialize_def SCHEMA_def create_table_def schema_parts split: option.splits)

text \<open>A file every table of which exists is left as it is; so a second call changes nothing.\<close>

lemma initialize_again: "initialize (initialize db) = initialize db"
proof -
  have "create_table t d = d" if "d (table_name t) \<noteq> None" for t d
    using that by (auto simp: create_table_def split: option.splits)
  then have "fold create_table ts (initialize db) = initialize db" if "set ts \<subseteq> set SCHEMA" for ts
    using that initialize_creates [of _ db] by (induction ts) auto
  from this [of SCHEMA] show ?thesis by (simp add: initialize_def)
qed

text \<open>A new file has the tables of the empty world.\<close>

lemma initialize_new: "t \<in> set SCHEMA \<Longrightarrow> initialize Map.empty (table_name t) = Some (tables_of (empty_world clk ids) (table_name t))"
  by (auto simp: initialize_def SCHEMA_def create_table_def schema_parts tables_of_simps)

section \<open>The statements under the schema\<close>

text \<open>
  When SQLite refuses a row on a connection: a value of the wrong type or missing, a primary key or a
  unique value in use, a reference to a row that is not there.  References are checked only where the
  connection has asked for it.
\<close>

definition refused :: "connection_action list \<Rightarrow> (string \<Rightarrow> row list) \<Rightarrow> table_def \<Rightarrow> row \<Rightarrow> bool" where
  "refused conn db t r \<longleftrightarrow>
     \<not> row_ok t r
   \<or> map (cell r) (primary_key t) \<in> (\<lambda>r'. map (cell r') (primary_key t)) ` set (db (table_name t))
   \<or> (\<exists>u \<in> set (unique_columns t). cell r u \<noteq> NULL \<and> cell r u \<in> (\<lambda>r'. cell r' u) ` set (db (table_name t)))
   \<or> Pragma ''foreign_keys'' ''ON'' \<in> set conn
     \<and> (\<exists>(c, t', c') \<in> set (foreign_keys t). cell r c \<noteq> NULL \<and> cell r c \<notin> (\<lambda>r'. cell r' c') ` set (db t'))"

definition sql_insert ::
  "connection_action list \<Rightarrow> table_def \<Rightarrow> (string \<times> sql) list \<Rightarrow> (string \<Rightarrow> row list) \<Rightarrow> (string \<Rightarrow> row list) option" where
  "sql_insert conn t vs db = (let r = sql_values t vs in
     if refused conn db t r then None else Some (db(table_name t := db (table_name t) @ [r])))"

lemma connect_checks_references: "Pragma ''foreign_keys'' ''ON'' \<in> set (connect env path)"
  by (simp add: connect_def Let_def)

lemma row_known: "TEXT rid \<in> (\<lambda>r. cell r ''run_id'') ` set (tables_of w ''runs'') \<longleftrightarrow> lookup_run w rid \<noteq> None"
  by (auto simp: lookup_run_def tfind_None_iff row_keys image_image tables_of_simps)

lemma refused_rows:
  "refused (connect env path) (tables_of w) RUNS (run_row r) \<longleftrightarrow>
     run_id r \<in> run_id ` set (runs_tbl w) \<or> thread_id r \<in> thread_id ` set (runs_tbl w)"
  "refused (connect env path) (tables_of w) STEP_TRACE (attempt_row a) \<longleftrightarrow>
     att_id a \<in> att_id ` set (trace_tbl w) \<or> lookup_run w (att_run a) = None"
  "refused (connect env path) (tables_of w) SIDE_EFFECTS (effect_row e) \<longleftrightarrow>
     idempotency_key e \<in> idempotency_key ` set (effects_tbl w) \<or> lookup_run w (eff_run e) = None"
  "refused (connect env path) (tables_of w) PROVIDER_EFFECTS (provider_row p) \<longleftrightarrow>
     (provider p, provider_key p) \<in> effect_id ` set (provider_tbl w)"
  using row_known [of _ w]
  by (auto simp: refused_def connect_checks_references schema_parts tables_of_simps rows_ok row_keys image_image effect_id_def)

lemma table_added:
  "(tables_of w)(''runs'' := tables_of w ''runs'' @ [run_row r]) = tables_of (w\<lparr>runs_tbl := runs_tbl w @ [r]\<rparr>)"
  "(tables_of w)(''step_trace'' := tables_of w ''step_trace'' @ [attempt_row a]) = tables_of (w\<lparr>trace_tbl := trace_tbl w @ [a]\<rparr>)"
  "(tables_of w)(''side_effects'' := tables_of w ''side_effects'' @ [effect_row e]) = tables_of (w\<lparr>effects_tbl := effects_tbl w @ [e]\<rparr>)"
  "(tables_of w)(''provider_effects'' := tables_of w ''provider_effects'' @ [provider_row p]) =
     tables_of (w\<lparr>provider_tbl := provider_tbl w @ [p]\<rparr>)"
  by (simp_all add: tables_of_def fun_eq_iff)

lemma tables_of_same: "runs_tbl w' = runs_tbl w \<Longrightarrow> trace_tbl w' = trace_tbl w \<Longrightarrow> effects_tbl w' = effects_tbl w \<Longrightarrow>
    provider_tbl w' = provider_tbl w \<Longrightarrow> tables_of w' = tables_of w"
  by (simp add: tables_of_def fun_eq_iff)

lemmas insert_simps = sql_insert_def Let_def inserted_rows refused_rows schema_parts table_added

lemma created_row:
  assumes "fresh_run_id given w = (Inr rid, w0)"
  shows "runs_create emp given ms mc w = (let r = new_run rid emp ms mc (clock w (clock_reads w)) in
      if rid \<in> run_id ` set (runs_tbl w)
      then (Inl (Exc IntegrityError ''UNIQUE constraint failed: runs.run_id''), w0\<lparr>clock_reads := Suc (clock_reads w)\<rparr>)
      else if thread_of rid \<in> thread_id ` set (runs_tbl w)
      then (Inl (Exc IntegrityError ''UNIQUE constraint failed: runs.thread_id''), w0\<lparr>clock_reads := Suc (clock_reads w)\<rparr>)
      else (Inr r, w0\<lparr>clock_reads := Suc (clock_reads w), runs_tbl := runs_tbl w @ [r]\<rparr>))"
    and "\<exists>n. w0 = w\<lparr>uuid_reads := n\<rparr>"
proof -
  obtain x n where "fresh_run_id given w = (Inr x, w\<lparr>uuid_reads := n\<rparr>)" using fresh_run_id_eq by blast
  then have w0: "w0 = w\<lparr>uuid_reads := n\<rparr>" using assms by simp
  then show "\<exists>n. w0 = w\<lparr>uuid_reads := n\<rparr>" by blast
  show "runs_create emp given ms mc w = (let r = new_run rid emp ms mc (clock w (clock_reads w)) in
      if rid \<in> run_id ` set (runs_tbl w)
      then (Inl (Exc IntegrityError ''UNIQUE constraint failed: runs.run_id''), w0\<lparr>clock_reads := Suc (clock_reads w)\<rparr>)
      else if thread_of rid \<in> thread_id ` set (runs_tbl w)
      then (Inl (Exc IntegrityError ''UNIQUE constraint failed: runs.thread_id''), w0\<lparr>clock_reads := Suc (clock_reads w)\<rparr>)
      else (Inr r, w0\<lparr>clock_reads := Suc (clock_reads w), runs_tbl := runs_tbl w @ [r]\<rparr>))"
    using assms by (auto simp: w0 runs_create_def eff_apply insert_run_def new_run_def Let_def runs_get_eq lookup_run_def
        tfind_append tfind_Cons split: option.splits dest: tfind_SomeD)
qed

text \<open>
  C8. The repositories write under the schema of \<open>db.py\<close>: over a connection \<open>connect\<close> opened, creating a
  run, starting an attempt, reserving an effect and recording one at a provider do to the tables exactly
  what their \<open>INSERT\<close>s do there.  Where the schema refuses the row (a run id or its thread's in use, a
  reserved key, an attempt or a reservation for a run that does not exist) nothing is written and the
  \<open>IntegrityError\<close> comes out, except that a refused reservation is \<open>None\<close> and a provider's effect, an
  \<open>INSERT OR IGNORE\<close>, stays as first recorded.
\<close>

theorem statements_run_under_the_schema:
  assumes "trace_wf w" and "fresh_run_id given w = (Inr new_id, w0)"
  shows "(case sql_insert (connect env path) RUNS (INSERT_RUN new_id emp ms mc (clock w (clock_reads w))) (tables_of w) of
        None \<Rightarrow> \<exists>m w'. runs_create emp given ms mc w = (Inl (Exc IntegrityError m), w') \<and> tables_of w' = tables_of w
      | Some db \<Rightarrow> \<exists>r w'. runs_create emp given ms mc w = (Inr r, w') \<and> run_id r = new_id \<and> tables_of w' = db)
    \<and> (case sql_insert (connect env path) STEP_TRACE (INSERT_ATTEMPT (Suc (trace_seq w)) rid s n tool t) (tables_of w) of
        None \<Rightarrow> \<exists>m. insert_attempt rid s n tool t w = (Inl (Exc IntegrityError m), w)
      | Some db \<Rightarrow> \<exists>w'. insert_attempt rid s n tool t w = (Inr (Suc (trace_seq w)), w') \<and> tables_of w' = db)
    \<and> (case sql_insert (connect env path) SIDE_EFFECTS (INSERT_EFFECT key rid s tn (clock w (clock_reads w))) (tables_of w) of
        None \<Rightarrow> \<exists>w'. try_reserve key rid s tn w = (Inr None, w') \<and> tables_of w' = tables_of w
      | Some db \<Rightarrow> \<exists>e w'. try_reserve key rid s tn w = (Inr (Some e), w') \<and> idempotency_key e = key \<and> tables_of w' = db)
    \<and> tables_of (snd (provider_record p key v w)) =
        (case sql_insert (connect env path) PROVIDER_EFFECTS (INSERT_PROVIDER p key v (clock w (clock_reads w))) (tables_of w) of
          None \<Rightarrow> tables_of w | Some db \<Rightarrow> db)"
proof (intro conjI)
  show "case sql_insert (connect env path) RUNS (INSERT_RUN new_id emp ms mc (clock w (clock_reads w))) (tables_of w) of
        None \<Rightarrow> \<exists>m w'. runs_create emp given ms mc w = (Inl (Exc IntegrityError m), w') \<and> tables_of w' = tables_of w
      | Some db \<Rightarrow> \<exists>r w'. runs_create emp given ms mc w = (Inr r, w') \<and> run_id r = new_id \<and> tables_of w' = db"
    using created_row(1) [OF assms(2), of emp ms mc] created_row(2) [OF assms(2)]
    by (auto simp: insert_simps new_run_def intro!: tables_of_same)
  have "att_id a \<noteq> Suc (trace_seq w)" if "a \<in> set (trace_tbl w)" for a using assms(1) that by (auto simp: trace_wf_def)
  then have id: "Suc (trace_seq w) \<notin> att_id ` set (trace_tbl w)" by force
  show "case sql_insert (connect env path) STEP_TRACE (INSERT_ATTEMPT (Suc (trace_seq w)) rid s n tool t) (tables_of w) of
        None \<Rightarrow> \<exists>m. insert_attempt rid s n tool t w = (Inl (Exc IntegrityError m), w)
      | Some db \<Rightarrow> \<exists>w'. insert_attempt rid s n tool t w = (Inr (Suc (trace_seq w)), w') \<and> tables_of w' = db"
    using id by (auto simp: insert_simps insert_attempt_def lookup_run_def new_attempt_def intro!: tables_of_same)
  show "case sql_insert (connect env path) SIDE_EFFECTS (INSERT_EFFECT key rid s tn (clock w (clock_reads w))) (tables_of w) of
        None \<Rightarrow> \<exists>w'. try_reserve key rid s tn w = (Inr None, w') \<and> tables_of w' = tables_of w
      | Some db \<Rightarrow> \<exists>e w'. try_reserve key rid s tn w = (Inr (Some e), w') \<and> idempotency_key e = key \<and> tables_of w' = db"
    by (auto simp: insert_simps try_reserve_eq new_effect_def lookup_effect_def tfind_None_iff intro!: tables_of_same)
  show "tables_of (snd (provider_record p key v w)) =
        (case sql_insert (connect env path) PROVIDER_EFFECTS (INSERT_PROVIDER p key v (clock w (clock_reads w))) (tables_of w) of
          None \<Rightarrow> tables_of w | Some db \<Rightarrow> db)"
    by (auto simp: insert_simps provider_record_eq provider_recorded_iff intro!: tables_of_same)
qed

theorem statements_run_under_the_schema_witness:
  "sql_insert (connect (\<lambda>x. None) None) SIDE_EFFECTS
      (INSERT_EFFECT ''key'' ''no_run'' ''revoke_access'' ''iam'' (clock fresh_world (clock_reads fresh_world))) (tables_of fresh_world) = None
    \<and> (\<exists>w'. try_reserve ''key'' ''no_run'' ''revoke_access'' ''iam'' fresh_world = (Inr None, w') \<and> tables_of w' = tables_of fresh_world)"
proof -
  have wf: "trace_wf fresh_world" by (simp add: fresh_world_def)
  have id: "fresh_run_id (Some ''r1'') fresh_world = (Inr ''r1'', fresh_world)" by (simp add: fresh_run_id_def)
  have none: "sql_insert (connect (\<lambda>x. None) None) SIDE_EFFECTS
      (INSERT_EFFECT ''key'' ''no_run'' ''revoke_access'' ''iam'' (clock fresh_world (clock_reads fresh_world))) (tables_of fresh_world) = None"
    by (simp add: insert_simps new_effect_def fresh_world_def lookup_run_def empty_world_def)
  with statements_run_under_the_schema [OF wf id, where env = "\<lambda>x. None" and path = None
      and key = "''key''" and rid = "''no_run''" and s = "''revoke_access''" and tn = "''iam''"]
  show ?thesis by simp
qed

section \<open>Reachable databases on disk\<close>

text \<open>
  Every reachable database meets its schema: each row has its table's columns in order, each
  value the type its column declares, no required column is NULL, primary keys and the unique thread
  ids are unique, and every step attempt and ledger row refers to a run that exists.
\<close>

theorem reachable_tables_meet_the_schema:
  assumes "app_services svc" and "langgraph_ok lg (build_graph svc)" and "\<And>t. lg_view lg c0 t = None"
    and "reachable lg svc c0 (w, c)"
  shows "\<forall>t \<in> set SCHEMA. table_ok (tables_of w) t"
proof -
  have "db_inv w" using service_invD(1) [OF reachable_inv [OF assms]] .
  then show ?thesis using schema_met by (auto simp: db_inv_def)
qed

text \<open>
  C24. The counters are bounded: in every reachable state each run has taken at least no and at most
  \<open>max_steps\<close> steps, and made at least no and at most \<open>max_tool_calls\<close> tool calls (none at all under a
  negative allowance); so when the allowances fit SQLite's 64-bit INTEGER the counters do, and
  \<open>step_count + ?\<close> never overflows the column.
\<close>

theorem counters_stay_in_bounds:
  assumes "app_services svc" and "langgraph_ok lg (build_graph svc)" and "\<And>t. lg_view lg c0 t = None"
    and "reachable lg svc c0 (w, c)" and "lookup_run w rid = Some r"
  shows "0 \<le> step_count r \<and> step_count r \<le> max 0 (max_steps r)
    \<and> 0 \<le> tool_call_count r \<and> tool_call_count r \<le> max 0 (max_tool_calls r)
    \<and> (max_steps r < 2 ^ 63 \<longrightarrow> step_count r < 2 ^ 63) \<and> (max_tool_calls r < 2 ^ 63 \<longrightarrow> tool_call_count r < 2 ^ 63)"
  using db_inv_run [OF service_invD(1) [OF reachable_inv [OF assms(1-4)]] assms(5)] by (auto simp: run_ok_def)

theorem counters_stay_in_bounds_witness:
  "\<exists>rs w c r. sample_end = (rs, (w, c)) \<and> lookup_run w ''run_0'' = Some r \<and> 0 \<le> step_count r \<and> step_count r \<le> max 0 (max_steps r)"
proof -
  obtain rs w c where e: "sample_end = (rs, (w, c))" "reachable linear_engine sample_services no_threads (w, c)"
    "\<exists>r. lookup_run w ''run_0'' = Some r \<and> status r = RCompleted"
    by (rule sample_end_facts)
  then obtain r where r: "lookup_run w ''run_0'' = Some r" by blast
  have fresh: "lg_view linear_engine no_threads t = None" for t by (simp add: no_threads_def)
  show ?thesis
    using counters_stay_in_bounds [OF sample_app_services linear_engine_ok fresh e(2) r] e(1) r by blast
qed

section \<open>The order of the queries\<close>







end
