(* ===== verification/Interleaving.thy ===== *)
theory Interleaving
  imports Service_Behaviour
begin

text \<open>
  Requests running inside one another.  Any number of requests, from threads of the API or processes
  of the CLI, take the atomic parts of \<open>Request_Parts\<close> (a read, one transaction, one invocation of the
  graph) in any order.  Run alone, the parts are the operation of \<open>Run_Service\<close>.

  An invocation of the graph is one part here, for whatever engine; \<open>Node_Parts\<close> lets other
  requests run between its nodes.
\<close>

section \<open>Interleaving\<close>

text \<open>Any request that has not returned takes its next part.\<close>

type_synonym 'c system = "(request \<times> phase) list \<times> (world \<times> 'c)"

inductive takes_part :: "'c langgraph \<Rightarrow> services \<Rightarrow> 'c system \<Rightarrow> 'c system \<Rightarrow> bool" for lg svc where
  part: "i < length ps \<Longrightarrow> ps ! i = (req, ph) \<Longrightarrow> (\<And>res. ph \<noteq> Returned res) \<Longrightarrow> micro lg svc req ph s = (ph', s') \<Longrightarrow>
    takes_part lg svc (ps, s) (ps[i := (req, ph')], s')"

inductive_cases takes_partE: "takes_part lg svc (ps, s) (ps', s')"

abbreviation interleaves :: "'c langgraph \<Rightarrow> services \<Rightarrow> 'c system \<Rightarrow> 'c system \<Rightarrow> bool" where
  "interleaves lg svc \<equiv> (takes_part lg svc)\<^sup>*\<^sup>*"

text \<open>A given order of parts, each entry the position of the request whose turn it is.\<close>

fun turns :: "'c langgraph \<Rightarrow> services \<Rightarrow> nat list \<Rightarrow> 'c system \<Rightarrow> 'c system" where
  "turns lg svc [] sys = sys"
| "turns lg svc (i # is) (ps, s) =
     (if i < length ps then (case ps ! i of (req, ph) \<Rightarrow> (case micro lg svc req ph s of
        (ph', s') \<Rightarrow> turns lg svc is (ps[i := (req, ph')], s')))
      else turns lg svc is (ps, s))"

lemma micro_Returned [simp]: "micro lg svc req (Returned r) s = (Returned r, s)"
  by (simp add: micro_def)

lemma turns_interleave: "interleaves lg svc sys (turns lg svc is sys)"
proof (induction lg svc "is" sys rule: turns.induct)
  case (2 lg svc i "is" ps s)
  obtain req ph where p: "ps ! i = (req, ph)" by (cases "ps ! i")
  obtain ph' s' where m: "micro lg svc req ph s = (ph', s')" by (metis surj_pair)
  have "interleaves lg svc (ps, s) (ps[i := (req, ph')], s')" if "i < length ps"
  proof (cases "\<exists>res. ph = Returned res")
    case True
    then have "ph' = ph" "s' = s" using m by (auto simp: micro_Returned)
    then show ?thesis using p by (metis list_update_id rtranclp.rtrancl_refl)
  next
    case False
    then show ?thesis using part [OF that p _ m] by blast
  qed
  then show ?case using 2 p m by (auto intro: rtranclp_trans)
qed simp

section \<open>What holds of every interleaving\<close>

text \<open>
  The engine reaches the database only by running nodes in the order of the graph: an invocation,
  with a meaning or without, leaves the database alone or drives the graph from some node.
\<close>

definition drives_or_rests :: "'c langgraph \<Rightarrow> graph \<Rightarrow> bool" where
  "drives_or_rests lg g \<longleftrightarrow> (\<forall>inp t w c res w' c'. lg_invoke lg g inp t (w, c) = (res, (w', c')) \<longrightarrow>
     w' = w \<or> (\<exists>s r v out ck. drives g s r v w out ck w'))"

lemma record_outcome_safe: "guar safe_step (record_outcome r out)"
  unfolding record_outcome_def fail_run_def
  by (auto intro!: safety.guar_intros guar_rules split: sum.splits option.splits list.splits)

text \<open>The guarantee of an operation of the service: from a database that is in order, a safe step.\<close>

definition serves_safely :: "world \<times> 'c \<Rightarrow> world \<times> 'c \<Rightarrow> bool" where
  "serves_safely s s' \<longleftrightarrow> (db_inv (fst s) \<longrightarrow> safe_step (fst s) (fst s'))"

interpretation serving: guarantee serves_safely
  by unfold_locales (auto simp: serves_safely_def safety.rel_refl intro: safety.rel_trans safe_stepD(5))

lemma on_db_serves: "guar safe_step m \<Longrightarrow> guar serves_safely (on_db m)"
  by (auto simp: guar_def serves_safely_def on_db_def case_prod_beta)

lemma create_serves: "guar serves_safely (on_db (runs_create emp None ms mc))"
proof (rule guarI)
  fix s :: "world \<times> 'a"
  obtain w c where s: "s = (w, c)" by (cases s)
  show "serves_safely s (snd (on_db (runs_create emp None ms mc) s))"
    unfolding serves_safely_def
  proof
    assume "db_inv (fst s)"
    then have "runs_wf w" by (simp add: db_inv_def s)
    then show "safe_step (fst s) (fst (snd (on_db (runs_create emp None ms mc) s)))"
    proof (cases rule: runs_create_cases [where emp = emp and given = None and ms = ms and mc = mc])
      case (collision rid n w1)
      then have "safe_step w w1"
        by (intro tables_same_safe) (simp_all add: provider_keeps_def lookup_provider_def refs_kept_def refs_ok_def lookup_run_def)
      then show ?thesis using collision by (simp add: s on_db_apply)
    next
      case (created rid n t)
      then show ?thesis using new_row_safe [OF created(1)] by (simp add: s on_db_apply)
    qed
  qed
qed

lemma invocation_serves:
  assumes "services_safe svc" and "drives_or_rests lg (build_graph svc)"
  shows "guar serves_safely (invocation lg svc r inp)"
proof (rule guarI)
  fix s :: "world \<times> 'a"
  obtain w c where s: "s = (w, c)" by (cases s)
  obtain out w' c' where run: "lg_invoke lg (build_graph svc) inp (thread_id r) (w, c) = (out, (w', c'))" by (metis surj_pair)
  then have "w' = w \<or> (\<exists>s r v out ck. drives (build_graph svc) s r v w out ck w')"
    using assms(2) unfolding drives_or_rests_def by blast
  then have "safe_step w w'" using drives_safe [OF assms(1)] safety.rel_refl by blast
  then show "serves_safely s (snd (invocation lg svc r inp s))" by (simp add: s invocation_def run serves_safely_def)
qed

lemma signing_safe: "guar safe_step (signing_time svc given)"
proof -
  have "guar safe_step now"
    by (simp add: guar_def) (intro allI tables_same_safe; simp add: provider_keeps_def lookup_provider_def refs_kept_def refs_ok_def lookup_run_def)
  then show ?thesis by (auto simp: signing_time_def intro!: safety.guar_intros split: option.splits)
qed

lemma graph_input_safe: "guar safe_step (graph_input_of svc req r)"
  by (cases req) (auto intro!: safety.guar_intros signing_safe)

lemma first_part_serves: "guar serves_safely (first_part req)"
  by (cases req) (auto intro!: serving.guar_intros create_serves on_db_serves runs_get_safe_step)

lemma service_part_serves: "guar serves_safely (service_part req ph)"
proof (cases ph)
  case (Decided r)
  have "guar safe_step (set_status (run_id r) RRunning None None None)" "guar safe_step (set_status (run_id r) RCancelled None None None)"
    by (rule set_status_safe_step; simp)+
  then show ?thesis using Decided by (cases req) (auto intro!: serving.guar_intros on_db_serves)
qed (auto intro!: serving.guar_intros on_db_serves first_part_serves request_cancel_safe_step record_outcome_safe runs_get_safe_step)

lemma next_part_serves:
  assumes "services_safe svc" and "drives_or_rests lg (build_graph svc)"
  shows "guar serves_safely (next_part lg svc req ph)"
proof (cases "\<exists>r. ph = Claimed r")
  case True
  then show ?thesis
    by (auto intro!: serving.guar_intros on_db_serves graph_input_safe invocation_serves [OF assms])
next
  case False
  then have "next_part lg svc req ph = service_part req ph" by (cases ph) simp_all
  then show ?thesis by (simp only: service_part_serves)
qed

lemma part_safe:
  assumes "services_safe svc" and "drives_or_rests lg (build_graph svc)" and "takes_part lg svc sys sys'"
  shows "serves_safely (snd sys) (snd sys')"
  using assms(3)
proof cases
  case (part i ps req ph s ph' s')
  then show ?thesis
    using guarD [OF next_part_serves [OF assms(1,2), of req ph], of s]
    by (auto simp: micro_def split: prod.splits sum.splits)
qed

section \<open>What does not\<close>

lemma linear_drives_or_rests: "drives_or_rests linear_engine (build_graph svc)"
  unfolding drives_or_rests_def
proof (intro allI impI)
  fix inp t w and c :: "string \<Rightarrow> checkpoint option" and res w' c'
  assume run: "lg_invoke linear_engine (build_graph svc) inp t (w, c) = (res, (w', c'))"
  show "w' = w \<or> (\<exists>s r v out ck. drives (build_graph svc) s r v w out ck w')"
  proof (cases "entry (build_graph svc) (lg_view linear_engine c t) inp")
    case None
    then show ?thesis using run by (simp add: linear_engine_def linear_invoke_def)
  next
    case (Some e)
    then obtain s r v where "entry (build_graph svc) (lg_view linear_engine c t) inp = Some (s, r, v)" by (cases e) auto
    from langgraph_okD [OF linear_engine_ok this run] show ?thesis by metis
  qed
qed

text \<open>A run of the sample history paused at the approval gate, and two requests that find it there.\<close>

definition awaiting_hr :: "world \<times> (string \<Rightarrow> checkpoint option)" where
  "awaiting_hr = snd (play linear_engine sample_services [Ask (Start ''emp-003'' 20 30)] (fresh_world, no_threads))"

definition stale_decision :: "(string \<Rightarrow> checkpoint option) system" where
  "stale_decision = turns linear_engine sample_services [1, 0, 0, 0, 0, 0, 1, 1, 1, 1]
     ([(Approve ''run_0'' ''hr'' None, Fresh), (Reject ''run_0'' ''ceo'' None, Fresh)], awaiting_hr)"

definition late_cancel :: "nat list \<Rightarrow> (string \<Rightarrow> checkpoint option) system" where
  "late_cancel is = turns linear_engine sample_services is
     ([(Approve ''run_0'' ''hr'' None, Fresh), (Cancel ''run_0'', Fresh)], awaiting_hr)"

text \<open>The runs, the providers' effects and what the signature gate recorded.\<close>

definition shown :: "world \<Rightarrow> (string \<times> run_status \<times> pause_reason option) list \<times> string list \<times> (step_status \<times> pyval) list" where
  "shown w = (map (\<lambda>r. (run_id r, status r, pause_reason r)) (runs_tbl w), map provider (provider_tbl w),
     map (\<lambda>a. (att_status a, detail a)) (filter (\<lambda>a. att_step a = ''await_signed_document'') (trace_tbl w)))"

lemma awaiting_hr_shown: "shown (fst awaiting_hr) = ([(''run_0'', RPaused, Some HR_APPROVAL)], [], [])"
  by code_simp

lemma stale_decision_shown: "shown (fst (snd stale_decision)) = ([(''run_0'', RCompleted, None)], [''iam'', ''documents'', ''archive''],
    [(SPaused, PDict [(''document_id'', PStr ''doc_:send_packet'')]), (SCompleted, PDict [(''document_id'', PNone), (''signed_at'', PNone)])])"
  by code_simp

lemma late_cancel_shown:
  "shown (fst (snd (late_cancel [1, 0, 0, 1]))) = ([(''run_0'', RCancelled, None)], [], [])
   \<and> shown (fst (snd (late_cancel [1, 0, 0, 1, 0, 0]))) = ([(''run_0'', RCancelled, None)], [''iam'', ''documents''],
     [(SPaused, PDict [(''document_id'', PStr ''doc_:send_packet'')])])"
  by code_simp

lemma awaiting_hr_reachable: "reachable linear_engine sample_services no_threads awaiting_hr"
  unfolding awaiting_hr_def fresh_world_def by (intro play_reachable new_database)

lemma shown_run:
  assumes "fst (shown w) = [(rid, s, p)]"
  obtains r where "lookup_run w rid = Some r" "status r = s" "pause_reason r = p"
  using assms by (auto simp: shown_def lookup_run_def tfind_Cons)

lemma turns_append: "turns lg svc (is @ js) sys = turns lg svc js (turns lg svc is sys)"
  by (induction lg svc "is" sys rule: turns.induct) (auto split: prod.splits)

text \<open>
  However requests interleave, nothing illegal is stored and nothing is lost: from a database
  that is in order, after any parts of any requests, from any number of threads and processes, the
  database is in order again, every run has only moved along the transition table with a terminal
  status final, the trace has only been extended, and no provider's effect has gone.  This is what
  the write lock taken before the status is read gives.
\<close>

theorem interleaved_requests_are_safe:
  assumes "app_services svc" and "drives_or_rests lg (build_graph svc)" and "db_inv w"
    and "interleaves lg svc (ps, (w, c)) (ps', (w', c'))"
  shows "db_inv w' \<and> trace_extends w w' \<and> provider_keeps w w' \<and> (\<forall>rid r. lookup_run w rid = Some r \<longrightarrow>
    (\<exists>r'. lookup_run w' rid = Some r' \<and> run_evolves r r' \<and> (is_terminal (status r) \<longrightarrow> status r' = status r)))"
proof -
  have "serves_safely (snd (ps, (w, c))) (snd (ps', (w', c')))"
    using assms(4)
  proof (induction rule: rtranclp_induct)
    case (step sys sys')
    then show ?case using part_safe [OF app_services_safe [OF assms(1)] assms(2) step(2)] by (blast intro: serving.rel_trans)
  qed (rule serving.rel_refl)
  then have safe: "safe_step w w'" using assms(3) by (simp add: serves_safely_def)
  have "db_inv w'" "trace_extends w w'"
    using safe_stepD(5) [OF safe assms(3)] safe_stepD(3) [OF safe] assms(3) by (simp_all add: db_inv_def)
  moreover have "runs_evolve w w'" "provider_keeps w w'" using safe by (simp_all add: safe_step_def)
  ultimately show ?thesis using run_evolves_terminal unfolding runs_evolve_def by blast
qed

theorem interleaved_requests_are_safe_witness:
  "db_inv (fst (snd stale_decision)) \<and> trace_extends (fst awaiting_hr) (fst (snd stale_decision))"
proof -
  obtain w c where a: "awaiting_hr = (w, c)" by (cases awaiting_hr)
  obtain ps w' c' where e: "stale_decision = (ps, (w', c'))" by (metis surj_pair)
  have fresh: "lg_view linear_engine no_threads t = None" for t by (simp add: no_threads_def)
  have "db_inv w"
    using reachable_inv [OF sample_app_services linear_engine_ok fresh] awaiting_hr_reachable a by (metis service_invD(1))
  moreover have "interleaves linear_engine sample_services
      ([(Approve ''run_0'' ''hr'' None, Fresh), (Reject ''run_0'' ''ceo'' None, Fresh)], (w, c)) (ps, (w', c'))"
    unfolding e [symmetric] a [symmetric] stale_decision_def by (rule turns_interleave)
  ultimately have "db_inv w'" "trace_extends w w'"
    using interleaved_requests_are_safe [OF sample_app_services linear_drives_or_rests, of w] by blast+
  then show ?thesis by (simp add: a e)
qed

text \<open>
  C15. The check of the pause reason is not under the lock: a decision that was made while the run
  waited for HR, and whose write comes after another decision has taken the run on to the next gate,
  is accepted there and delivered to it.  A run that waits for HR is approved by one request and
  rejected by another at the same time, nobody hands in a document, and the run ends COMPLETED with
  the signature gate completed on a document that is \<open>None\<close>.
\<close>

theorem stale_decision_passes_the_signature_gate:
  "\<exists>w c r ps w' c' r'. reachable linear_engine sample_services no_threads (w, c)
    \<and> lookup_run w ''run_0'' = Some r \<and> status r = RPaused \<and> pause_reason r = Some HR_APPROVAL
    \<and> interleaves linear_engine sample_services
        ([(Approve ''run_0'' ''hr'' None, Fresh), (Reject ''run_0'' ''ceo'' None, Fresh)], (w, c)) (ps, (w', c'))
    \<and> lookup_run w' ''run_0'' = Some r' \<and> status r' = RCompleted
    \<and> (\<exists>a \<in> set (trace_tbl w'). att_step a = step_value AWAIT_SIGNED_DOCUMENT \<and> att_status a = SCompleted
        \<and> detail a = PDict [(''document_id'', PNone), (''signed_at'', PNone)])"
proof -
  obtain w c where a: "awaiting_hr = (w, c)" by (cases awaiting_hr)
  obtain ps w' c' where e: "stale_decision = (ps, (w', c'))" by (metis surj_pair)
  obtain r where r: "lookup_run w ''run_0'' = Some r" "status r = RPaused" "pause_reason r = Some HR_APPROVAL"
    by (rule shown_run [of w "''run_0''" RPaused "Some HR_APPROVAL"]) (simp add: awaiting_hr_shown [unfolded a, simplified])
  obtain r' where r': "lookup_run w' ''run_0'' = Some r'" "status r' = RCompleted"
    by (rule shown_run [of w' "''run_0''" RCompleted None]) (simp add: stale_decision_shown [unfolded e, simplified])
  have "(SCompleted, PDict [(''document_id'', PNone), (''signed_at'', PNone)]) \<in> set (snd (snd (shown w')))"
    using stale_decision_shown by (simp add: e)
  then have "\<exists>a \<in> set (trace_tbl w'). att_step a = step_value AWAIT_SIGNED_DOCUMENT \<and> att_status a = SCompleted
      \<and> detail a = PDict [(''document_id'', PNone), (''signed_at'', PNone)]"
    by (auto simp: shown_def)
  moreover have "interleaves linear_engine sample_services
      ([(Approve ''run_0'' ''hr'' None, Fresh), (Reject ''run_0'' ''ceo'' None, Fresh)], (w, c)) (ps, (w', c'))"
    unfolding e [symmetric] a [symmetric] stale_decision_def by (rule turns_interleave)
  ultimately show ?thesis using awaiting_hr_reachable r r' unfolding a by blast
qed

text \<open>
  C27. A cancellation can come too late without being a flag: \<open>cancel_run\<close> reads the run as PAUSED,
  an approval takes it to RUNNING, and the cancellation then writes CANCELLED, which the table allows
  from RUNNING.  No flag is set, so the nodes' guard lets the approval go on: access is revoked and
  the paperwork sent for a run that is already CANCELLED.
\<close>

theorem late_cancellation_does_not_stop_the_run:
  "\<exists>w c r mid w1 c1 r1 ps w2 c2 r2. reachable linear_engine sample_services no_threads (w, c)
    \<and> lookup_run w ''run_0'' = Some r \<and> status r = RPaused
    \<and> interleaves linear_engine sample_services ([(Approve ''run_0'' ''hr'' None, Fresh), (Cancel ''run_0'', Fresh)], (w, c)) (mid, (w1, c1))
    \<and> lookup_run w1 ''run_0'' = Some r1 \<and> status r1 = RCancelled \<and> provider_tbl w1 = []
    \<and> interleaves linear_engine sample_services (mid, (w1, c1)) (ps, (w2, c2))
    \<and> lookup_run w2 ''run_0'' = Some r2 \<and> status r2 = RCancelled \<and> map provider (provider_tbl w2) = [''iam'', ''documents'']"
proof -
  obtain w c where a: "awaiting_hr = (w, c)" by (cases awaiting_hr)
  obtain mid w1 c1 where m: "late_cancel [1, 0, 0, 1] = (mid, (w1, c1))" by (metis surj_pair)
  obtain ps w2 c2 where e: "late_cancel [1, 0, 0, 1, 0, 0] = (ps, (w2, c2))" by (metis surj_pair)
  obtain r where r: "lookup_run w ''run_0'' = Some r" "status r = RPaused"
    by (rule shown_run [of w "''run_0''" RPaused "Some HR_APPROVAL"]) (simp add: awaiting_hr_shown [unfolded a, simplified])
  have seen: "fst (shown w1) = [(''run_0'', RCancelled, None)]" "provider_tbl w1 = []"
      "fst (shown w2) = [(''run_0'', RCancelled, None)]" "map provider (provider_tbl w2) = [''iam'', ''documents'']"
    using late_cancel_shown [unfolded m e] by (simp_all add: shown_def)
  obtain r1 where r1: "lookup_run w1 ''run_0'' = Some r1" "status r1 = RCancelled" by (rule shown_run [OF seen(1)])
  obtain r2 where r2: "lookup_run w2 ''run_0'' = Some r2" "status r2 = RCancelled" by (rule shown_run [OF seen(3)])
  have "interleaves linear_engine sample_services ([(Approve ''run_0'' ''hr'' None, Fresh), (Cancel ''run_0'', Fresh)], (w, c)) (mid, (w1, c1))"
    unfolding m [symmetric] a [symmetric] late_cancel_def by (rule turns_interleave)
  moreover have "late_cancel [1, 0, 0, 1, 0, 0] = turns linear_engine sample_services [0, 0] (late_cancel [1, 0, 0, 1])"
    unfolding late_cancel_def turns_append [symmetric] by simp
  then have "interleaves linear_engine sample_services (mid, (w1, c1)) (ps, (w2, c2))"
    unfolding e m by (metis turns_interleave)
  moreover have "reachable linear_engine sample_services no_threads (w, c)" using awaiting_hr_reachable a by simp
  ultimately show ?thesis using r r1 r2 seen(2,4) by - (intro exI conjI; assumption)
qed

end
