(* ===== verification/Node_Parts.thy ===== *)
theory Node_Parts
  imports Interleaving
begin

text \<open>
  Requests running between the nodes of another's invocation of the graph.  The invocation, one part
  in \<open>Interleaving\<close>, is cut at its nodes, since LangGraph checkpoints after each of them; put
  together again the nodes are an invocation as \<open>Graph.drives\<close> describes it.  A process may die in
  front of a node, or after one and before its checkpoint.  \<open>busy_step\<close> is the system of any number
  of requests, arriving at any time; a node is still one part of it.
\<close>

section \<open>An invocation node by node\<close>

type_synonym threads = "string \<Rightarrow> checkpoint option"

text \<open>A request is at one of its own parts, or inside its invocation in front of a node.\<close>

datatype stage = Calm phase | At run string "pyval option" ostate

definition put :: "run \<Rightarrow> checkpoint \<Rightarrow> threads \<Rightarrow> threads" where
  "put r ck c = c(thread_id r \<mapsto> ck)"

abbreviation save :: "run \<Rightarrow> string \<Rightarrow> ostate \<Rightarrow> pyval option \<Rightarrow> threads \<Rightarrow> threads" where
  "save r s v k \<equiv> put r \<lparr>ck_next = s, ck_values = v, ck_resume = k\<rparr>"

text \<open>\<open>graph.invoke\<close> up to its first node: the input of a new thread is checkpointed first.\<close>

definition enter :: "services \<Rightarrow> request \<Rightarrow> run \<Rightarrow> world \<times> threads \<Rightarrow> stage \<times> (world \<times> threads)" where
  "enter svc req r = (\<lambda>(w, c). case graph_input_of svc req r w of
     (Inl e, w1) \<Rightarrow> (Calm (Returned (Inl e)), (w1, c))
   | (Inr inp, w1) \<Rightarrow> (case entry (build_graph svc) (c (thread_id r)) inp of
       None \<Rightarrow> (Calm (Invoked r (Inl (Exc LibraryError ''nothing to run''))), (w1, c))
     | Some (s, rv, v) \<Rightarrow> (At r s rv v, (w1, case inp of Input d \<Rightarrow> save r s v None c | _ \<Rightarrow> c))))"

text \<open>One node and the checkpoint after it; whether a node that raised keeps its resume value is open.\<close>

definition run_node :: "bool \<Rightarrow> services \<Rightarrow> run \<Rightarrow> string \<Rightarrow> pyval option \<Rightarrow> ostate \<Rightarrow> world \<times> threads \<Rightarrow> stage \<times> (world \<times> threads)" where
  "run_node keep svc r s rv v = (\<lambda>(w, c).
     if s = END then (Calm (Invoked r (deliver (Finished v))), (w, save r END v None c))
     else (case map_of (g_nodes (build_graph svc)) s of
       None \<Rightarrow> (Calm (Invoked r (Inl (Exc LibraryError ''no such node''))), (w, c))
     | Some n \<Rightarrow> (case n (interrupt_with rv) v w of
         (Inr upd, w1) \<Rightarrow> (case map_of (g_edges (build_graph svc)) s of
             None \<Rightarrow> (Calm (Invoked r (Inl (Exc LibraryError ''no such edge''))), (w1, c))
           | Some t \<Rightarrow> (At r t None (merge_state v upd), (w1, save r t (merge_state v upd) None c)))
       | (Inl (GraphInterrupt p), w1) \<Rightarrow> (Calm (Invoked r (deliver (Interrupted p v))), (w1, save r s v None c))
       | (Inl (Exc cl m), w1) \<Rightarrow> (Calm (Invoked r (Inl (Exc cl m))), (w1, save r s v (if keep then rv else None) c)))))"

text \<open>A node that runs, a process that dies in front of one, or after one and before its checkpoint.\<close>

inductive engine_step :: "services \<Rightarrow> stage \<times> (world \<times> threads) \<Rightarrow> stage \<times> (world \<times> threads) \<Rightarrow> bool" for svc where
  node: "engine_step svc (At r s rv v, st) (run_node keep svc r s rv v st)"
| died: "engine_step svc (At r s rv v, (w, c)) (Calm (Invoked r (Inl (Exc BaseException m))), (w, save r s v kept c))"
    if "map_of (g_nodes (build_graph svc)) s = Some n" "kept \<in> {None, rv}"
| lost: "engine_step svc (At r s rv v, (w, c)) (Calm (Invoked r (Inl (Exc BaseException m))), (w1, save r s v kept c))"
    if "map_of (g_nodes (build_graph svc)) s = Some n" "n (interrupt_with rv) v w = (res, w1)" "kept \<in> {None, rv}"

inductive_cases engine_stepE: "engine_step svc (st, s) (st', s')"
inductive_simps engine_step_Calm [simp]: "engine_step svc (Calm ph, s) x"

section \<open>The nodes are the invocation\<close>

lemma put_twice [simp]: "put r ck (put r ck' c) = put r ck c"
  by (simp add: put_def)

lemma engine_rest [simp]: "(engine_step svc)\<^sup>*\<^sup>* (Calm ph, s) x \<longleftrightarrow> x = (Calm ph, s)"
  by (auto elim: converse_rtranclpE)

lemma on_graph_next:
  assumes "map_of (g_nodes (build_graph svc)) s = Some n"
  obtains t where "map_of (g_edges (build_graph svc)) s = Some t" "on_graph t"
proof -
  obtain sn fn where "s = step_value sn" by (rule build_graph_nodes [OF assms])
  then show ?thesis using that by (cases sn) (auto simp: on_graph_def simp del: step_value.simps)
qed

lemma on_graph_node: "on_graph s \<Longrightarrow> s \<noteq> END \<Longrightarrow> map_of (g_nodes (build_graph svc)) s \<noteq> None"
  by (auto simp: on_graph_def) (case_tac sn; simp del: step_value.simps)

lemma drives_to_nodes:
  "drives (build_graph svc) s rv v w out ck w' \<Longrightarrow> on_graph s \<Longrightarrow>
    (engine_step svc)\<^sup>*\<^sup>* (At r s rv v, (w, c)) (Calm (Invoked r (deliver out)), (w', put r ck c))"
proof (induction arbitrary: c rule: drives.induct)
  case (finish rv v w)
  have "engine_step svc (At r END rv v, (w, c)) (run_node True svc r END rv v (w, c))" by (rule engine_step.node)
  then show ?case by (intro r_into_rtranclp) (simp add: run_node_def)
next
  case (step s n rv v w upd w1 t out ck w2)
  have "s \<noteq> END" using build_graph_nodes [OF step(1)] step_not_END by metis
  have "engine_step svc (At r s rv v, (w, c)) (run_node True svc r s rv v (w, c))" by (rule engine_step.node)
  then have "engine_step svc (At r s rv v, (w, c)) (At r t None (merge_state v upd), (w1, save r t (merge_state v upd) None c))"
    using step(1-3) \<open>s \<noteq> END\<close> by (simp add: run_node_def)
  moreover have "on_graph t" using on_graph_next [OF step(1)] step(3) by (metis option.inject)
  then have "(engine_step svc)\<^sup>*\<^sup>* (At r t None (merge_state v upd), (w1, save r t (merge_state v upd) None c))
      (Calm (Invoked r (deliver out)), (w2, put r ck c))"
    using step.IH [of "save r t (merge_state v upd) None c"] by simp
  ultimately show ?case by (rule converse_rtranclp_into_rtranclp)
next
  case (pause s n rv v w p w1)
  have "s \<noteq> END" using build_graph_nodes [OF pause(1)] step_not_END by metis
  have "engine_step svc (At r s rv v, (w, c)) (run_node True svc r s rv v (w, c))" by (rule engine_step.node)
  then show ?case using pause \<open>s \<noteq> END\<close> by (simp add: run_node_def r_into_rtranclp)
next
  case (raised s n rv v w cl m w1 kept)
  have "s \<noteq> END" using build_graph_nodes [OF raised(1)] step_not_END by metis
  have "engine_step svc (At r s rv v, (w, c)) (run_node (kept = rv) svc r s rv v (w, c))" by (rule engine_step.node)
  then show ?case using raised \<open>s \<noteq> END\<close> by (auto simp: run_node_def deliver_def intro: r_into_rtranclp split: if_splits)
next
  case (died s n kept rv v w m)
  have "engine_step svc (At r s rv v, (w, c)) (Calm (Invoked r (Inl (Exc BaseException m))), (w, save r s v kept c))"
    by (rule engine_step.died [OF died(1,2)])
  then show ?case by (simp add: deliver_def r_into_rtranclp)
next
  case (lost s n rv v w res w1 kept m)
  have "engine_step svc (At r s rv v, (w, c)) (Calm (Invoked r (Inl (Exc BaseException m))), (w1, save r s v kept c))"
    by (rule engine_step.lost [OF lost(1,2,3)])
  then show ?case by (simp add: deliver_def r_into_rtranclp)
qed

lemma run_node_drives:
  assumes "on_graph s" and "run_node keep svc r s rv v (w, c) = (st, (w1, c1))"
  obtains (on) n upd t where "map_of (g_nodes (build_graph svc)) s = Some n" "n (interrupt_with rv) v w = (Inr upd, w1)"
      "map_of (g_edges (build_graph svc)) s = Some t" "on_graph t"
      "st = At r t None (merge_state v upd)" "c1 = save r t (merge_state v upd) None c"
  | (ends) out ck where "drives (build_graph svc) s rv v w out ck w1" "st = Calm (Invoked r (deliver out))" "c1 = put r ck c"
proof (cases "s = END")
  case True
  have "drives (build_graph svc) s rv v w (Finished v) \<lparr>ck_next = END, ck_values = v, ck_resume = None\<rparr> w"
    using True drives.finish by simp
  then show ?thesis using True assms(2) by (intro ends) (auto simp: run_node_def)
next
  case False
  then obtain n where n: "map_of (g_nodes (build_graph svc)) s = Some n" using on_graph_node [OF assms(1)] by blast
  obtain t where t: "map_of (g_edges (build_graph svc)) s = Some t" "on_graph t" by (rule on_graph_next [OF n])
  obtain res w2 where run: "n (interrupt_with rv) v w = (res, w2)" by (metis surj_pair)
  show ?thesis
  proof (cases res)
    case (Inr upd)
    then show ?thesis using on [OF n _ t] assms(2) False n t run by (simp add: run_node_def)
  next
    case (Inl e)
    show ?thesis
    proof (cases e)
      case (GraphInterrupt p)
      then have "drives (build_graph svc) s rv v w (Interrupted p v) \<lparr>ck_next = s, ck_values = v, ck_resume = None\<rparr> w2"
        using run Inl by (intro drives.pause [OF n]) simp
      then show ?thesis using ends assms(2) False n run Inl GraphInterrupt by (simp add: run_node_def)
    next
      case (Exc cl m)
      have "drives (build_graph svc) s rv v w (Raised (Exc cl m))
          \<lparr>ck_next = s, ck_values = v, ck_resume = (if keep then rv else None)\<rparr> w2"
        using run Inl Exc by (intro drives.raised [OF n]) auto
      then show ?thesis using ends assms(2) False n run Inl Exc by (simp add: run_node_def deliver_def)
    qed
  qed
qed

lemma engine_drives:
  assumes "engine_step svc (At r s rv v, (w, c)) (x, (w1, c1))" and "on_graph s"
  obtains (on) n upd t where "map_of (g_nodes (build_graph svc)) s = Some n" "n (interrupt_with rv) v w = (Inr upd, w1)"
      "map_of (g_edges (build_graph svc)) s = Some t" "on_graph t"
      "x = At r t None (merge_state v upd)" "c1 = save r t (merge_state v upd) None c"
  | (ends) out ck where "drives (build_graph svc) s rv v w out ck w1" "x = Calm (Invoked r (deliver out))" "c1 = put r ck c"
  using assms(1)
proof cases
  case (node keep)
  then show ?thesis using run_node_drives [OF assms(2), of keep svc r rv v w c x w1 c1] on ends by metis
next
  case (died n kept m)
  then have "drives (build_graph svc) s rv v w (Raised (Exc BaseException m)) \<lparr>ck_next = s, ck_values = v, ck_resume = kept\<rparr> w1"
    using drives.died [of "build_graph svc" s n kept rv v w m] by auto
  then show ?thesis using died by (intro ends) (auto simp: deliver_def)
next
  case (lost n res kept m)
  then show ?thesis using ends [OF drives.lost [OF lost(3,4,5), of m]] by (simp add: deliver_def)
qed

lemma nodes_to_drives:
  assumes "(engine_step svc)\<^sup>*\<^sup>* x y" and "x = (At r s rv v, (w, c))" and "y = (Calm ph, (w', c'))" and "on_graph s"
  shows "\<exists>out ck. drives (build_graph svc) s rv v w out ck w' \<and> ph = Invoked r (deliver out) \<and> c' = put r ck c"
  using assms
proof (induction arbitrary: s rv v w c rule: converse_rtranclp_induct)
  case (step x z)
  obtain st w1 c1 where z: "z = (st, (w1, c1))" by (metis surj_pair)
  have "engine_step svc (At r s rv v, (w, c)) (st, (w1, c1))" using step.hyps(1) step.prems(1) z by simp
  then show ?case using step.prems(3)
  proof (cases rule: engine_drives)
    case (on n upd t)
    have "\<exists>out ck. drives (build_graph svc) t None (merge_state v upd) w1 out ck w' \<and> ph = Invoked r (deliver out) \<and> c' = put r ck c1"
      using z on(5) by (intro step.IH [OF _ step.prems(2) on(4)]) simp
    then show ?thesis using drives.step [OF on(1,2,3)] on(6) by auto blast
  next
    case (ends out ck)
    then have "(Calm ph, (w', c')) = (Calm (Invoked r (deliver out)), (w1, c1))"
      using step.hyps(2) z step.prems(2) by simp
    then show ?thesis using ends by auto
  qed
qed simp

text \<open>
  Cutting the invocation at its nodes neither adds nor loses anything: the nodes of one
  invocation, run with nothing in between, end exactly where an invocation as the contract of
  LangGraph describes it may end, with the same outcome, database and checkpoint.
\<close>

theorem nodes_make_the_invocation:
  "(engine_step svc)\<^sup>*\<^sup>* (At r (step_value sn) rv v, (w, c)) (Calm ph, (w', c'))
   \<longleftrightarrow> (\<exists>out ck. drives (build_graph svc) (step_value sn) rv v w out ck w'
        \<and> ph = Invoked r (deliver out) \<and> c' = put r ck c)"
proof -
  have "on_graph (step_value sn)" by (auto simp: on_graph_def)
  then show ?thesis using nodes_to_drives [OF _ refl refl] drives_to_nodes by blast
qed

section \<open>Requests between the nodes\<close>

text \<open>The parts outside the graph, as in \<open>Interleaving\<close>, and the way into it.\<close>

definition calm_part :: "services \<Rightarrow> request \<Rightarrow> phase \<Rightarrow> world \<times> threads \<Rightarrow> stage \<times> (world \<times> threads)" where
  "calm_part svc req ph s = (case ph of
     Claimed r \<Rightarrow> enter svc req r s
   | _ \<Rightarrow> (case service_part req ph s of
       (Inl e, s') \<Rightarrow> (Calm (Returned (Inl e)), s')
     | (Inr ph', s') \<Rightarrow> (Calm ph', s')))"

text \<open>
  An invocation the documentation gives no meaning to (a thread without a checkpoint is continued
  or resumed, a finished one resumed) runs no node; what it returns or raises is open.
\<close>

inductive takes :: "services \<Rightarrow> request \<Rightarrow> stage \<times> (world \<times> threads) \<Rightarrow> stage \<times> (world \<times> threads) \<Rightarrow> bool" for svc req where
  calm: "(\<And>res. ph \<noteq> Returned res) \<Longrightarrow> takes svc req (Calm ph, s) (calm_part svc req ph s)"
| inside: "engine_step svc x y \<Longrightarrow> takes svc req x y"
| unmeant: "graph_input_of svc req r w = (Inr inp, w1) \<Longrightarrow> entry (build_graph svc) (c (thread_id r)) inp = None \<Longrightarrow>
    takes svc req (Calm (Claimed r), (w, c)) (Calm (Invoked r out), (w1, c))"

text \<open>Any number of requests; new ones arrive, and processes are replaced by ones with other faults.\<close>

type_synonym busy = "(request \<times> stage) list \<times> (world \<times> threads)"

inductive busy_step :: "services \<Rightarrow> busy \<Rightarrow> busy \<Rightarrow> bool" for svc where
  part: "i < length ps \<Longrightarrow> ps ! i = (req, x) \<Longrightarrow> takes svc req (x, s) (x', s') \<Longrightarrow>
    busy_step svc (ps, s) (ps[i := (req, x')], s')"
| arrives: "busy_step svc (ps, s) (ps @ [(req, Calm Fresh)], s)"
| restarts: "busy_step svc (ps, (w, c)) (ps, (w\<lparr>iam := faults, paperwork_failures := n\<rparr>, c))"

section \<open>Every invocation works on its own run\<close>

fun held :: "phase \<Rightarrow> run option" where
  "held (Decided r) = Some r" | "held (Flagging r) = Some r" | "held (Claimed r) = Some r"
| "held (Invoked r out) = Some r" | "held (Recorded r) = Some r" | "held _ = None"

abbreviation own_thread :: "run \<Rightarrow> bool" where
  "own_thread r \<equiv> thread_id r = thread_of (run_id r)"

fun in_order :: "stage \<Rightarrow> bool" where
  "in_order (Calm ph) \<longleftrightarrow> (\<forall>r. held ph = Some r \<longrightarrow> own_thread r)"
| "in_order (At r s rv v) \<longleftrightarrow> own_thread r \<and> on_graph s \<and> state_run_id v = Inr (run_id r)"

definition threads_ok :: "threads \<Rightarrow> bool" where
  "threads_ok c \<longleftrightarrow> (\<forall>rid ck. c (thread_of rid) = Some ck \<longrightarrow> state_run_id (ck_values ck) = Inr rid)"

definition coherent :: "busy \<Rightarrow> bool" where
  "coherent = (\<lambda>(ps, (w, c)). db_inv w \<and> threads_ok c \<and> (\<forall>(req, x) \<in> set ps. in_order x))"

lemma threads_ok_put: "own_thread r \<Longrightarrow> threads_ok c \<Longrightarrow> state_run_id (ck_values ck) = Inr (run_id r) \<Longrightarrow> threads_ok (put r ck c)"
  by (simp add: threads_ok_def put_def)

lemma row_own_thread: "db_inv w \<Longrightarrow> lookup_run w rid = Some r \<Longrightarrow> own_thread r"
  using thread_id_of lookup_run_id by blast

text \<open>Every operation that returns a row has read it from the table.\<close>

definition returns_rows :: "run py \<Rightarrow> bool" where
  "returns_rows m \<longleftrightarrow> (\<forall>w r w'. m w = (Inr r, w') \<longrightarrow> lookup_run w' (run_id r) = Some r)"

lemma rows_combined:
  "returns_rows (runs_get rid)" "returns_rows m \<Longrightarrow> returns_rows (mseq k m)" "(\<And>a. returns_rows (h a)) \<Longrightarrow> returns_rows (mbind n h)"
  unfolding returns_rows_def by (auto simp: mbind_apply mseq_apply dest: lookup_run_id split: prod.splits sum.splits)

lemma returned_row:
  "returns_rows (runs_create emp given ms mc)" "returns_rows (set_status rid t p f d)" "returns_rows (request_cancel rid)"
  unfolding runs_create_def set_status_def request_cancel_def by (intro rows_combined)+

lemmas row_of = rows_combined(1) [unfolded returns_rows_def, rule_format] returned_row [unfolded returns_rows_def, rule_format]

lemma on_db_threads: "on_db m (w, c) = (res, (w', c')) \<Longrightarrow> c' = c"
  by (auto simp: on_db_apply split: prod.splits)

lemma service_part_threads: "service_part req ph (w, c) = (res, (w', c')) \<Longrightarrow> c' = c"
  by (cases ph; cases req) (auto simp: mbind_apply mseq_apply split: prod.splits sum.splits if_splits dest!: on_db_threads)

lemma service_part_row:
  assumes "service_part req ph (w, c) = (Inr ph', (w', c'))" and "held ph' = Some r"
  shows "held ph = Some r \<or> lookup_run w' (run_id r) = Some r"
proof -
  note cases = mbind_apply mseq_apply on_db_apply
  show ?thesis
  proof (cases ph)
    case Fresh
    then show ?thesis using assms
      by (cases req) (auto simp: cases require_paused_for_def split: sum.splits prod.splits if_splits intro: row_of dest: lookup_run_id)
  next
    case (Decided r0)
    then show ?thesis using assms
      by (cases req) (auto simp: cases split: sum.splits prod.splits if_splits intro: row_of dest: lookup_run_id)
  qed (use assms in \<open>auto simp: cases split: sum.splits prod.splits if_splits\<close>)
qed

text \<open>The state of an invocation goes on naming its run.\<close>

lemma node_names_run:
  assumes "map_of (g_nodes (build_graph svc)) s = Some n" and "n intr v w = (Inr upd, w')" and "state_run_id v = Inr rid"
  shows "state_run_id (merge_state v upd) = Inr rid"
proof -
  obtain sn fn where "(sn, fn) \<in> set WORKFLOW" "n = fn svc" by (rule build_graph_nodes [OF assms(1)])
  then show ?thesis using node_update [of sn fn svc intr v w upd w'] assms(2,3) by (intro state_run_id_merge) simp_all
qed

lemma drives_names_run:
  "drives (build_graph svc) s rv v w out ck w' \<Longrightarrow> state_run_id v = Inr rid \<Longrightarrow> state_run_id (ck_values ck) = Inr rid"
  by (induction rule: drives.induct) (simp_all add: node_names_run)

lemma engine_step_in_order:
  assumes "services_safe svc" and "engine_step svc (x, (w, c)) (x', (w', c'))" and "in_order x" and "threads_ok c"
  shows "safe_step w w' \<and> threads_ok c' \<and> in_order x'"
proof (cases x)
  case (At r s rv v)
  then have x: "own_thread r" "on_graph s" "state_run_id v = Inr (run_id r)" using assms(3) by simp_all
  from assms(2)[unfolded At] x(2) show ?thesis
  proof (cases rule: engine_drives)
    case (on n upd t)
    have "guar safe_step (n (interrupt_with rv) v)"
      by (rule build_graph_nodes [OF on(1)]) (simp add: workflow_safe [OF assms(1)])
    then show ?thesis
      using guarD' on(2) node_names_run [OF on(1,2) x(3)] x(1) on(4-6) threads_ok_put [OF x(1) assms(4)] by simp
  next
    case (ends out ck)
    then show ?thesis
      using drives_safe [OF assms(1) ends(1)] drives_names_run [OF ends(1) x(3)] threads_ok_put [OF x(1) assms(4)] x(1) by simp
  qed
qed (use assms(2) in simp)

lemma entry_in_order:
  assumes "graph_input_of svc req r w = (Inr inp, w1)" and "entry (build_graph svc) (c (thread_id r)) inp = Some (s, rv, v)"
    and "own_thread r" and "threads_ok c"
  shows "in_order (At r s rv v) \<and> (\<forall>d. inp = Input d \<longrightarrow> threads_ok (save r s v None c))"
proof -
  have own: "state_run_id v = Inr (run_id r)"
  proof (cases "c (thread_id r)")
    case None
    then show ?thesis using assms(1,2)
      by (cases req) (auto simp: entry_def merge_state_def merge_field_def state_run_id_def py_item_def mbind_apply map_of_dict_set
          split: prod.splits sum.splits)
  next
    case (Some ck)
    then show ?thesis using assms(2-4)
      by (auto simp: entry_def threads_ok_def split: graph_input.splits if_splits)
  qed
  moreover have "on_graph s" using entry_on_graph [OF assms(2)] .
  ultimately show ?thesis using assms(3,4) threads_ok_put by simp
qed

lemma calm_in_order:
  assumes "calm_part svc req ph (w, c) = (x, (w', c'))" and "in_order (Calm ph)" and "db_inv w" and "threads_ok c"
  shows "safe_step w w' \<and> threads_ok c' \<and> in_order x"
proof (cases "\<exists>r. ph = Claimed r")
  case True
  then obtain r where ph: "ph = Claimed r" by blast
  then have own: "own_thread r" using assms(2) by simp
  obtain res w1 where inp: "graph_input_of svc req r w = (res, w1)" by (metis surj_pair)
  have safe: "safe_step w w1" using guarD' [OF graph_input_safe inp] .
  show ?thesis
  proof (cases res)
    case (Inr inp1)
    show ?thesis
    proof (cases "entry (build_graph svc) (c (thread_id r)) inp1")
      case (Some e)
      obtain s rv v where e: "e = (s, rv, v)" by (cases e)
      show ?thesis
        using entry_in_order [OF inp [unfolded Inr] Some [unfolded e] own assms(4)] assms(1,4) ph inp Inr Some e safe
        by (auto simp: calm_part_def enter_def split: graph_input.splits)
    qed (use assms(1,4) ph inp Inr own safe in \<open>auto simp: calm_part_def enter_def\<close>)
  qed (use assms(1,4) ph inp safe in \<open>auto simp: calm_part_def enter_def\<close>)
next
  case False
  obtain res w1 c1 where part: "service_part req ph (w, c) = (res, (w1, c1))" by (metis surj_pair)
  have "calm_part svc req ph (w, c) = (case res of Inl e \<Rightarrow> (Calm (Returned (Inl e)), (w1, c1)) | Inr ph' \<Rightarrow> (Calm ph', (w1, c1)))"
    using False part by (cases ph) (simp_all add: calm_part_def split: sum.splits)
  then have x: "x = Calm (case res of Inl e \<Rightarrow> Returned (Inl e) | Inr ph' \<Rightarrow> ph')" "w' = w1" "c' = c1"
    using assms(1) by (auto split: sum.splits)
  have "c1 = c" by (rule service_part_threads [OF part])
  have safe: "safe_step w w1" using guarD' [OF service_part_serves part] assms(3) by (simp add: serves_safely_def)
  have "own_thread r" if "held ph' = Some r" "res = Inr ph'" for r ph'
    using service_part_row [OF part [unfolded that(2)] that(1)] row_own_thread [OF safe_stepD(5) [OF safe assms(3)]] assms(2) by auto
  then show ?thesis using x safe assms(4) \<open>c1 = c\<close> by (auto split: sum.splits)
qed

lemma takes_in_order:
  assumes "services_safe svc" and "takes svc req (x, (w, c)) (x', (w', c'))" and "in_order x" and "db_inv w" and "threads_ok c"
  shows "safe_step w w' \<and> threads_ok c' \<and> in_order x'"
  using assms(2)
proof cases
  case (calm ph)
  then show ?thesis using calm_in_order [of svc req ph w c x' w' c'] assms(3-5) by simp
next
  case inside
  then show ?thesis using engine_step_in_order assms by blast
next
  case (unmeant r inp out)
  then show ?thesis using guarD' [OF graph_input_safe unmeant(4)] assms(3,5) by simp
qed

lemma busy_step_coherent:
  assumes "app_services svc" and "busy_step svc (ps, (w, c)) (ps', (w', c'))" and "coherent (ps, (w, c))"
  shows "safe_step w w' \<and> coherent (ps', (w', c'))"
  using assms(2)
proof cases
  case (part i req x x')
  have "(req, x) \<in> set ps" using part(2,3) by (metis nth_mem)
  then have "safe_step w w' \<and> threads_ok c' \<and> in_order x'"
    using takes_in_order [OF app_services_safe [OF assms(1)] part(4)] assms(3) by (auto simp: coherent_def)
  then show ?thesis using part(1) assms(3) safe_stepD(5) by (auto simp: coherent_def dest!: set_update_subset_insert [THEN subsetD])
next
  case (arrives req)
  then show ?thesis using assms(3) by (simp add: coherent_def safety.rel_refl)
next
  case (restarts faults n)
  have "safe_step w w'" unfolding restarts(2)
    by (rule tables_same_safe) (simp_all add: provider_keeps_def lookup_provider_def refs_kept_def refs_ok_def lookup_run_def)
  then show ?thesis using restarts assms(3) safe_stepD(5) by (auto simp: coherent_def)
qed

text \<open>What the service can come to, from an empty database.\<close>

abbreviation new_service :: "(nat \<Rightarrow> ts) \<Rightarrow> (nat \<Rightarrow> string) \<Rightarrow> busy" where
  "new_service clk ids \<equiv> ([], (empty_world clk ids, \<lambda>t. None))"

definition comes_to :: "services \<Rightarrow> busy \<Rightarrow> bool" where
  "comes_to svc sys \<longleftrightarrow> (\<exists>clk ids. (busy_step svc)\<^sup>*\<^sup>* (new_service clk ids) sys)"

lemma busy_steps_coherent:
  assumes "app_services svc"
  shows "(busy_step svc)\<^sup>*\<^sup>* sys sys' \<Longrightarrow> coherent sys \<Longrightarrow> safe_step (fst (snd sys)) (fst (snd sys')) \<and> coherent sys'"
proof (induction rule: rtranclp_induct)
  case (step y z)
  obtain ps w c where y: "y = (ps, (w, c))" by (metis surj_pair)
  obtain ps' w' c' where z: "z = (ps', (w', c'))" by (metis surj_pair)
  have "safe_step w w' \<and> coherent z"
    using busy_step_coherent [OF assms] step y z by simp
  moreover have "safe_step (fst (snd sys)) w" using step y by simp
  ultimately show ?case using z safety.rel_trans [of "fst (snd sys)" w w'] by simp
qed (simp add: safety.rel_refl)

lemma comes_to_coherent: "app_services svc \<Longrightarrow> comes_to svc sys \<Longrightarrow> coherent sys"
proof -
  have "coherent (new_service clk ids)" for clk ids by (simp add: coherent_def threads_ok_def)
  then show "app_services svc \<Longrightarrow> comes_to svc sys \<Longrightarrow> coherent sys"
    unfolding comes_to_def using busy_steps_coherent by blast
qed

section \<open>Given orders of parts\<close>

fun own_part :: "services \<Rightarrow> request \<Rightarrow> stage \<Rightarrow> world \<times> threads \<Rightarrow> stage \<times> (world \<times> threads)" where
  "own_part svc req (Calm ph) s = calm_part svc req ph s"
| "own_part svc req (At r t rv v) s = run_node True svc r t rv v s"

text \<open>A request arrives, or the one at a position takes its part.\<close>

datatype move = Enters request | Part nat

fun moves :: "services \<Rightarrow> move list \<Rightarrow> busy \<Rightarrow> busy" where
  "moves svc [] sys = sys"
| "moves svc (Enters req # ms) (ps, s) = moves svc ms (ps @ [(req, Calm Fresh)], s)"
| "moves svc (Part i # ms) (ps, s) =
     (if i < length ps then (case ps ! i of (req, x) \<Rightarrow> (case own_part svc req x s of
        (x', s') \<Rightarrow> moves svc ms (ps[i := (req, x')], s')))
      else moves svc ms (ps, s))"

lemma own_part_takes: "takes svc req (x, s) (own_part svc req x s) \<or> own_part svc req x s = (x, s)"
proof (cases x)
  case (Calm ph)
  show ?thesis
  proof (cases "\<exists>res. ph = Returned res")
    case True
    then show ?thesis using Calm by (cases s) (auto simp: calm_part_def)
  qed (use Calm in \<open>auto intro: takes.calm\<close>)
next
  case (At r t rv v)
  then show ?thesis by (auto intro: takes.inside engine_step.node)
qed

lemma moves_steps: "(busy_step svc)\<^sup>*\<^sup>* sys (moves svc ms sys)"
proof (induction svc ms sys rule: moves.induct)
  case (2 svc req ms ps s)
  from converse_rtranclp_into_rtranclp [OF busy_step.arrives 2] show ?case by simp
next
  case (3 svc i ms ps s)
  obtain req x where p: "ps ! i = (req, x)" by (cases "ps ! i")
  obtain x' s' where m: "own_part svc req x s = (x', s')" by (metis surj_pair)
  have "(busy_step svc)\<^sup>*\<^sup>* (ps, s) (ps[i := (req, x')], s')" if "i < length ps"
  proof (cases "takes svc req (x, s) (x', s')")
    case True
    then show ?thesis using busy_step.part [OF that p] by blast
  next
    case False
    then have "x' = x" "s' = s" using own_part_takes [of svc req x s] m by auto
    then have "ps[i := (req, x')] = ps" using p by (metis list_update_id)
    then show ?thesis using \<open>s' = s\<close> by simp
  qed
  moreover have "(busy_step svc)\<^sup>*\<^sup>* (ps[i := (req, x')], s') (moves svc ms (ps[i := (req, x')], s'))" if "i < length ps"
    using 3 p m that by simp
  ultimately have "(busy_step svc)\<^sup>*\<^sup>* (ps, s) (moves svc ms (ps[i := (req, x')], s'))" if "i < length ps"
    using that by (meson rtranclp_trans)
  then show ?case using 3 p m by (cases "i < length ps") simp_all
qed simp

lemma moves_append: "moves svc (ms @ ms') sys = moves svc ms' (moves svc ms sys)"
  by (induction svc ms sys rule: moves.induct) (auto split: prod.splits)

lemma comes_to_moves: "comes_to svc (moves svc ms (new_service clk ids))"
  unfolding comes_to_def using moves_steps by blast

text \<open>A run is started; its cancellation arrives when one node has run, and \<open>n\<close> more parts follow.\<close>

definition cancelled_in_time :: "nat \<Rightarrow> busy" where
  "cancelled_in_time n = moves sample_services
     ([Enters (Start ''emp-003'' 20 30)] @ replicate 4 (Part 0) @ [Enters (Cancel ''run_0''), Part 1, Part 1] @ replicate n (Part 0))
     ([], (fresh_world, \<lambda>t. None))"

text \<open>Where the requests stand or with which status they returned, the runs, and how many steps were traced.\<close>

definition standing :: "stage \<Rightarrow> (string \<times> string) + run_status option" where
  "standing x = (case x of
     At r s rv v \<Rightarrow> Inl (run_id r, s)
   | Calm (Returned (Inr r)) \<Rightarrow> Inr (Some (status r))
   | _ \<Rightarrow> Inr None)"

definition where_at :: "busy \<Rightarrow> ((string \<times> string) + run_status option) list \<times> (string \<times> run_status \<times> bool \<times> int) list \<times> nat" where
  "where_at = (\<lambda>(ps, (w, c)). (map (standing \<circ> snd) ps,
     map (\<lambda>r. (run_id r, status r, cancel_requested r, step_count r)) (runs_tbl w), length (trace_tbl w)))"

lemma standing_iff:
  "standing x = Inl (rid, s) \<longleftrightarrow> (\<exists>r rv v. x = At r s rv v \<and> run_id r = rid)"
  "standing x = Inr (Some t) \<longleftrightarrow> (\<exists>r. x = Calm (Returned (Inr r)) \<and> status r = t)"
  by (auto simp: standing_def split: stage.splits phase.splits sum.splits)

lemma cancelled_in_time_seen: "where_at (cancelled_in_time 0) =
    ([Inl (''run_0'', ''plan_deprovisioning''), Inr (Some RRunning)], [(''run_0'', RRunning, True, 1)], 1)"
  by code_simp

lemma cancelled_in_time_comes: "comes_to sample_services (cancelled_in_time n)"
  unfolding cancelled_in_time_def fresh_world_def by (rule comes_to_moves)

lemma cancelled_in_time_goes_on: "(busy_step sample_services)\<^sup>*\<^sup>* (cancelled_in_time 0) (cancelled_in_time n)"
proof -
  have "cancelled_in_time n = moves sample_services (replicate n (Part 0)) (cancelled_in_time 0)"
    unfolding cancelled_in_time_def moves_append [symmetric] by simp
  then show ?thesis using moves_steps by simp
qed

lemma seen_at:
  assumes "where_at (ps, (w, c)) = (Inl (rid, s) # xs, ys, n)"
  obtains req r rv v where "(req, At r s rv v) \<in> set ps" "run_id r = rid"
proof -
  obtain req x qs where "ps = (req, x) # qs" "standing x = Inl (rid, s)" using assms by (cases ps) (auto simp: where_at_def)
  then show ?thesis using that by (fastforce simp: standing_iff)
qed

lemma seen_run:
  assumes "where_at (ps, (w, c)) = (xs, [(rid, s, flag, n)], m)"
  obtains r where "lookup_run w rid = Some r" "status r = s" "cancel_requested r = flag" "step_count r = n"
  using assms by (auto simp: where_at_def lookup_run_def tfind_Cons)

text \<open>
  C12. Other requests may run between the nodes of an invocation, new ones may arrive and processes
  die and restart at any point: in every state the service comes to the database is in order, and
  from there on every run only moves along the transition table, a terminal status is final, the
  trace is only extended and no provider's effect goes.  Every invocation in progress works on the
  run that its request holds.
\<close>

theorem interleaved_nodes_are_safe:
  assumes "app_services svc" and "comes_to svc (ps, (w, c))" and "(busy_step svc)\<^sup>*\<^sup>* (ps, (w, c)) (ps', (w', c'))"
  shows "db_inv w' \<and> trace_extends w w' \<and> provider_keeps w w'
    \<and> (\<forall>rid r. lookup_run w rid = Some r \<longrightarrow>
        (\<exists>r'. lookup_run w' rid = Some r' \<and> run_evolves r r' \<and> (is_terminal (status r) \<longrightarrow> status r' = status r)))
    \<and> (\<forall>req r s rv v. (req, At r s rv v) \<in> set ps' \<longrightarrow> state_run_id v = Inr (run_id r) \<and> thread_id r = thread_of (run_id r))"
proof -
  have "coherent (ps, (w, c))" by (rule comes_to_coherent [OF assms(1,2)])
  with busy_steps_coherent [OF assms(1,3)] have safe: "safe_step w w'" "db_inv w" "coherent (ps', (w', c'))"
    by (auto simp: coherent_def)
  have "\<exists>r'. lookup_run w' rid = Some r' \<and> run_evolves r r' \<and> (is_terminal (status r) \<longrightarrow> status r' = status r)"
    if "lookup_run w rid = Some r" for rid r
    using safe_stepD(1) [OF safe(1)] run_evolves_terminal that unfolding runs_evolve_def by blast
  then show ?thesis using safe safe_stepD(3,4) [OF safe(1)] by (fastforce simp: coherent_def db_inv_def)
qed

theorem interleaved_nodes_are_safe_witness:
  "\<exists>ps w c req r rv v. cancelled_in_time 0 = (ps, (w, c)) \<and> db_inv w \<and> (req, At r ''plan_deprovisioning'' rv v) \<in> set ps
    \<and> state_run_id v = Inr (run_id r)"
proof -
  obtain ps w c where e: "cancelled_in_time 0 = (ps, (w, c))" by (metis surj_pair)
  note safe = interleaved_nodes_are_safe [OF sample_app_services cancelled_in_time_comes [of 0, unfolded e] rtranclp.rtrancl_refl]
  obtain req r rv v where "(req, At r ''plan_deprovisioning'' rv v) \<in> set ps"
    by (rule seen_at [OF cancelled_in_time_seen [unfolded e]])
  with safe e show ?thesis by blast
qed

end
