(* ===== verification/Cancellation.thy ===== *)
theory Cancellation
  imports Node_Parts Node_Progress
begin

text \<open>
  What a cancellation achieves while a run is being worked on.  \<open>cancel_run\<close> sets a flag on a
  running run and the guard of every node reads it; here the two meet, in any interleaving of the
  parts of any requests.  \<open>untouched rid\<close> is what stays the same for the run: no step of it is begun,
  none of its counters moves and no provider records an effect under a key of its.
\<close>

section \<open>The work of a run\<close>

definition keys_of :: "string \<Rightarrow> string set" where
  "keys_of rid = {revoke_key rid, build_key rid ''send_exit_paperwork'' ''send_packet'', build_key rid ''finalize'' ''archive''}"

definition begun :: "string \<Rightarrow> world \<Rightarrow> nat list" where
  "begun rid w = map att_id (filter (\<lambda>a. att_run a = rid) (trace_tbl w))"

definition spent :: "run \<Rightarrow> int \<times> int" where
  "spent r = (step_count r, tool_call_count r)"

definition effects_under :: "string \<Rightarrow> world \<Rightarrow> world \<Rightarrow> bool" where
  "effects_under key w w' \<longleftrightarrow> (\<forall>p. lookup_provider w' p key = lookup_provider w p key \<and> applied_at p key w' = applied_at p key w)"

definition untouched :: "string \<Rightarrow> world \<Rightarrow> world \<Rightarrow> bool" where
  "untouched rid w w' \<longleftrightarrow> begun rid w' = begun rid w
     \<and> (\<forall>r. lookup_run w rid = Some r \<longrightarrow> (\<exists>r'. lookup_run w' rid = Some r' \<and> spent r' = spent r))
     \<and> (\<forall>key \<in> keys_of rid. effects_under key w w')"

interpretation resting: guarantee "untouched rid" for rid
proof unfold_locales
  show "untouched rid w w" for w by (simp add: untouched_def effects_under_def)
  show "untouched rid w w''" if "untouched rid w w'" "untouched rid w' w''" for w w' w''
    using that unfolding untouched_def effects_under_def by (metis (full_types))
qed

lemma untouched_same: "trace_tbl w' = trace_tbl w \<Longrightarrow> runs_tbl w' = runs_tbl w \<Longrightarrow> provider_tbl w' = provider_tbl w \<Longrightarrow> untouched rid w w'"
  by (simp add: untouched_def begun_def effects_under_def lookup_run_def lookup_provider_def applied_at_def)

lemma untouched_trace: "only_trace w w' \<Longrightarrow> begun rid w' = begun rid w \<Longrightarrow> untouched rid w w'"
  by (simp add: untouched_def only_trace_def effects_under_def lookup_run_def lookup_provider_def applied_at_def)

lemma untouched_runs:
  assumes "trace_tbl w' = trace_tbl w" "provider_tbl w' = provider_tbl w"
    and "runs_tbl w' = tupdate run_id x f (runs_tbl w)" "\<And>r. run_id (f r) = run_id r" "\<And>r. run_id r = rid \<Longrightarrow> x = rid \<Longrightarrow> spent (f r) = spent r"
  shows "untouched rid w w'"
  using assms by (auto simp: untouched_def begun_def effects_under_def lookup_run_def lookup_provider_def applied_at_def tfind_tupdate
      dest: tfind_SomeD)

lemma begun_start: "rid' \<noteq> rid \<Longrightarrow> begun rid (snd (start_attempt rid' s tool w)) = begun rid w"
  using start_attempt_result [of rid' s tool w] by (auto simp: begun_def new_attempt_def)

lemma begun_close: "begun rid (snd (close_attempt aid st p et em d tool w)) = begun rid w"
proof -
  have "map att_id (filter (\<lambda>a. att_run a = rid) (tupdate att_id aid (close_row st p et em d tool t) rows)) =
      map att_id (filter (\<lambda>a. att_run a = rid) rows)" for t rows
    by (induction rows) (auto simp: tupdate_def close_row_def)
  then show ?thesis by (auto simp: close_attempt_eq begun_def Let_def split: option.splits sum.splits)
qed

interpretation other_runs: step_relation "untouched rid" "\<lambda>x. x \<noteq> rid" for rid
proof unfold_locales
  show "guar (untouched rid) (start_attempt x s tool)" if "x \<noteq> rid" for x s tool
    using guarD [OF start_attempt_only_trace] begun_start [OF that] by (auto simp: guar_def intro: untouched_trace)
  show "guar (untouched rid) (close_attempt aid st p et em d tool)" for aid st p et em d tool
    using guarD [OF close_attempt_only_trace] begun_close by (auto simp: guar_def intro: untouched_trace)
  show "untouched rid w w'" if "only_effects w w'" for w w'
    using that by (intro untouched_same) (simp_all add: only_effects_def)
  show "untouched rid w w'" if "same_db w w'" for w w'
    using that by (intro untouched_same) (simp_all add: same_db_def)
  show "untouched rid w (snd (bump_counters x a b w))" if "x \<noteq> rid" for x w a b
    using that by (auto simp: bump_counters_eq Let_def resting.rel_refl intro!: untouched_runs split: option.splits)
qed

lemma effects_elsewhere: "elsewhere key w w' \<Longrightarrow> key' \<noteq> key \<Longrightarrow> effects_under key' w w'"
  by (simp add: elsewhere_def effects_under_def)

lemma untouched_call: "only_provider w w' \<Longrightarrow> elsewhere key w w' \<Longrightarrow> key \<notin> keys_of rid \<Longrightarrow> untouched rid w w'"
  by (auto simp: untouched_def only_provider_def begun_def lookup_run_def intro: effects_elsewhere)

lemma other_calls:
  assumes "key \<notin> keys_of rid"
  shows "other_runs.call_within rid iam_tool kw key" "other_runs.call_within rid send_paperwork_tool kw key"
    "other_runs.call_within rid archive_tool kw key"
proof -
  have "guar (untouched rid) (tool_call t (kw @ [(''idempotency_key'', PStr key)]))"
    if "t \<in> set APP_TOOLS" "guar (elsewhere key) (tool_call t (kw @ [(''idempotency_key'', PStr key)]))" for t
    using app_tools_guar(1) [OF that(1), of "kw @ [(''idempotency_key'', PStr key)]"] that(2) untouched_call [OF _ _ assms]
    by (auto simp: guar_def)
  from this [of iam_tool] this [of send_paperwork_tool] this [of archive_tool] show
    "other_runs.call_within rid iam_tool kw key" "other_runs.call_within rid send_paperwork_tool kw key"
    "other_runs.call_within rid archive_tool kw key"
    using elsewhere_calls by (simp_all add: other_runs.call_within_def APP_TOOLS_def)
qed

lemma lookup_call: "other_runs.call_within rid hr_tool kw key"
proof -
  have "guar (untouched rid) (hr_call kw)"
    unfolding hr_call_def Let_def by (auto intro!: resting.guar_intros split: option.splits)
  then show ?thesis by (simp add: other_runs.call_within_def APP_TOOLS_def)
qed

lemma keys_of_named:
  assumes "key \<in> keys_of rid"
  obtains s op where "key = build_key rid (step_value s) op" "CHR '':'' \<notin> set op"
proof -
  consider "key = revoke_key rid" | "key = build_key rid ''send_exit_paperwork'' ''send_packet''" | "key = build_key rid ''finalize'' ''archive''"
    using assms by (auto simp: keys_of_def)
  then show ?thesis
  proof cases
    case 1
    then show ?thesis by (intro that [of REVOKE_ACCESS "''revoke_all_systems''"]) (simp_all add: revoke_key_def)
  next
    case 2
    then show ?thesis by (intro that [of SEND_EXIT_PAPERWORK "''send_packet''"]) simp_all
  next
    case 3
    then show ?thesis by (intro that [of FINALIZE "''archive''"]) simp_all
  qed
qed

lemma other_key: "x \<noteq> rid \<Longrightarrow> CHR '':'' \<notin> set op \<Longrightarrow> build_key x (step_value s) op \<notin> keys_of rid"
  by (metis build_key_injective keys_of_named)

lemma other_keys:
  assumes "x \<noteq> rid"
  shows "build_key x ''revoke_access'' ''revoke_all_systems'' \<notin> keys_of rid"
    "build_key x ''send_exit_paperwork'' ''send_packet'' \<notin> keys_of rid" "build_key x ''finalize'' ''archive'' \<notin> keys_of rid"
  using other_key [OF assms, of "''revoke_all_systems''" REVOKE_ACCESS] other_key [OF assms, of "''send_packet''" SEND_EXIT_PAPERWORK]
    other_key [OF assms, of "''archive''" FINALIZE]
  by simp_all

lemma node_of_another_run:
  assumes "app_services svc" and "(s, fn) \<in> set WORKFLOW" and "state_run_id st \<noteq> Inr rid"
  shows "guar (untouched rid) (fn svc intr st)"
proof -
  have app: "ex_registry (svc_executor svc) = app_registry" and llm: "llm_safe (svc_llm svc)"
    using assms(1) by (simp_all add: app_services_def)
  have own: "other_runs.own rid st" using assms(3) by (auto simp: other_runs.own_def)
  note calls = other_calls [OF other_keys(1)] other_calls [OF other_keys(2)] other_calls [OF other_keys(3)]
  have ne: "state_run_id st = Inr x \<Longrightarrow> x \<noteq> rid" for x using assms(3) by auto
  show ?thesis
    using assms(2) other_runs.guar_gates [OF llm own] other_runs.guar_tool_nodes [OF app own] lookup_call
      calls(1) [OF ne] calls(5) [OF ne] calls(9) [OF ne]
    by (auto simp: WORKFLOW_def)
qed

section \<open>The parts of a request\<close>

lemma untouched_insert: "lookup_run w (run_id r) = None \<Longrightarrow> untouched rid w (w\<lparr>runs_tbl := runs_tbl w @ [r]\<rparr>)"
  by (auto simp: untouched_def begun_def effects_under_def lookup_run_def lookup_provider_def applied_at_def tfind_append)

lemma create_rests:
  assumes "runs_wf w"
  shows "untouched rid w (snd (runs_create emp None ms mc w))"
  using assms
proof (cases rule: runs_create_cases [where emp = emp and given = None and ms = ms and mc = mc])
  case (created x n t)
  have "untouched rid (w\<lparr>uuid_reads := n, clock_reads := Suc (clock_reads w)\<rparr>) (snd (runs_create emp None ms mc w))"
    using untouched_insert [of "w\<lparr>uuid_reads := n, clock_reads := Suc (clock_reads w)\<rparr>" "new_run x emp ms mc t"] created by simp
  moreover have "untouched rid w (w\<lparr>uuid_reads := n, clock_reads := Suc (clock_reads w)\<rparr>)" by (rule untouched_same) simp_all
  ultimately show ?thesis by (blast intro: resting.rel_trans)
qed (auto intro: untouched_same)

lemma writes_rest: "guar (untouched rid) (set_status x t p f d)" "guar (untouched rid) (request_cancel x)"
    "guar (untouched rid) (runs_get x)" "guar (untouched rid) (signing_time svc given)"
proof -
  have spent: "spent (write_status t p f d t' r) = spent r" "spent (r\<lparr>cancel_requested := True, updated_at := t'\<rparr>) = spent r" for t' r
    by (simp_all add: spent_def)
  show "guar (untouched rid) (set_status x t p f d)"
    by (auto simp: guar_def set_status_eq Let_def resting.rel_refl spent intro!: untouched_runs split: option.splits sum.splits)
  show "guar (untouched rid) (request_cancel x)"
    by (auto simp: guar_def request_cancel_eq Let_def resting.rel_refl spent intro!: untouched_runs split: option.splits)
  show "guar (untouched rid) (runs_get x)"
    by (auto simp: guar_def runs_get_eq resting.rel_refl split: option.splits)
  have "guar (untouched rid) now" by (auto simp: guar_def intro: untouched_same)
  then show "guar (untouched rid) (signing_time svc given)"
    by (auto simp: signing_time_def intro!: resting.guar_intros split: option.splits)
qed

lemma graph_input_rests: "guar (untouched rid) (graph_input_of svc req r)"
  by (cases req) (auto intro!: resting.guar_intros writes_rest)

lemma record_rests: "guar (untouched rid) (record_outcome r out)"
  unfolding record_outcome_def fail_run_def
  by (auto intro!: resting.guar_intros writes_rest split: sum.splits option.splits list.splits)

interpretation both_rest: guarantee "\<lambda>s s'. untouched rid (fst s) (fst s')" for rid
  by unfold_locales (auto intro: resting.rel_refl resting.rel_trans)

lemma on_db_rests: "guar (untouched rid) m \<Longrightarrow> guar (\<lambda>s s'. untouched rid (fst s) (fst s')) (on_db m)"
  by (auto simp: guar_def on_db_def case_prod_beta)

lemma service_part_rests:
  assumes "runs_wf w" and "service_part req ph (w, c) = (res, (w', c'))"
  shows "untouched rid w w'"
proof (cases "ph = Fresh \<and> (\<exists>emp ms mc. req = Start emp ms mc)")
  case True
  then obtain emp ms mc where ph: "ph = Fresh" "req = Start emp ms mc" by blast
  have "untouched rid w (snd (runs_create emp None ms mc w))" by (rule create_rests [OF assms(1)])
  then show ?thesis using assms(2) ph by (auto simp: mbind_apply on_db_apply split: prod.splits sum.splits)
next
  case False
  have "guar (\<lambda>s s'. untouched rid (fst s) (fst s')) (service_part req ph)"
    using False by (cases ph; cases req) (auto intro!: both_rest.guar_intros on_db_rests writes_rest record_rests)
  from guarD' [OF this assms(2)] show ?thesis by simp
qed

text \<open>A flagged run is not worked on by its own nodes, nor by another run's.\<close>

definition flagged :: "string \<Rightarrow> world \<Rightarrow> bool" where
  "flagged rid w \<longleftrightarrow> (\<exists>r. lookup_run w rid = Some r \<and> cancel_requested r)"

lemma flagged_kept: "runs_evolve w w' \<Longrightarrow> flagged rid w \<Longrightarrow> flagged rid w'"
  unfolding flagged_def runs_evolve_def run_evolves_def by blast

lemma flagged_guard: "flagged rid w \<Longrightarrow> state_run_id st = Inr rid \<Longrightarrow> \<exists>r. lookup_run w rid = Some r \<and> guard st s w = (Inl (cancelled_before r (step_value s)), w)"
  by (auto simp: flagged_def guard_def eff_apply runs_get_eq)

lemma graph_node_rests:
  assumes "app_services svc" and "map_of (g_nodes (build_graph svc)) s = Some n" and "n intr v w = (res, w')" and "flagged rid w"
  shows "untouched rid w w'"
proof -
  obtain sn fn where fn: "(sn, fn) \<in> set WORKFLOW" "n = fn svc" by (rule build_graph_nodes [OF assms(2)])
  show ?thesis
  proof (cases "state_run_id v = Inr rid")
    case True
    then obtain r where "guard v sn w = (Inl (cancelled_before r (step_value sn)), w)"
      using flagged_guard [OF assms(4)] by blast
    then show ?thesis using node_guarded [OF fn(1)] assms(3) fn(2) by (simp add: resting.rel_refl)
  next
    case False
    then show ?thesis using guarD' [OF node_of_another_run [OF assms(1) fn(1) False]] assms(3) fn(2) by simp
  qed
qed

lemma engine_step_world:
  assumes "engine_step svc (At r s rv v, (w, c)) (x, (w', c'))"
  shows "w' = w \<or> (\<exists>n res. map_of (g_nodes (build_graph svc)) s = Some n \<and> n (interrupt_with rv) v w = (res, w'))"
  using assms
proof cases
  case (node keep)
  then show ?thesis by (auto simp: run_node_def split: if_splits option.splits prod.splits sum.splits exc.splits)
qed blast+

lemma takes_rests:
  assumes "app_services svc" and "takes svc req (x, (w, c)) (x', (w', c'))" and "db_inv w" and "flagged rid w"
  shows "untouched rid w w'"
  using assms(2)
proof cases
  case (calm ph)
  obtain res w1 c1 where part: "service_part req ph (w, c) = (res, (w1, c1))" by (metis surj_pair)
  have rest: "untouched rid w w1" using service_part_rests [OF _ part] assms(3) by (simp add: db_inv_def)
  show ?thesis
  proof (cases "\<exists>r. ph = Claimed r")
    case True
    then obtain r where r: "ph = Claimed r" by blast
    obtain inp w2 where inp: "graph_input_of svc req r w = (inp, w2)" by (metis surj_pair)
    have "w' = w2" using calm(2) r inp by (auto simp: calm_part_def enter_def split: sum.splits option.splits prod.splits)
    then show ?thesis using guarD' [OF graph_input_rests inp] by simp
  next
    case False
    then have "w' = w1" using calm(2) part by (cases ph) (auto simp: calm_part_def split: sum.splits)
    then show ?thesis using rest by simp
  qed
next
  case inside
  then obtain r s rv v where "x = At r s rv v" by (cases x) auto
  with inside engine_step_world [of svc r s rv v w c x' w' c'] graph_node_rests [OF assms(1) _ _ assms(4)] show ?thesis
    by (auto simp: resting.rel_refl)
next
  case (unmeant r inp out)
  then show ?thesis using guarD' [OF graph_input_rests unmeant(4)] by simp
qed

lemma busy_step_rests:
  assumes "app_services svc" and "busy_step svc (ps, (w, c)) (ps', (w', c'))" and "db_inv w" and "flagged rid w"
  shows "untouched rid w w'"
  using assms(2)
proof cases
  case (part i req x x')
  then show ?thesis using takes_rests assms by blast
next
  case (restarts faults n)
  show ?thesis unfolding restarts(2) by (rule untouched_same) simp_all
qed (simp add: resting.rel_refl)

lemma busy_steps_rest:
  assumes "app_services svc"
  shows "(busy_step svc)\<^sup>*\<^sup>* sys sys' \<Longrightarrow> coherent sys \<Longrightarrow> flagged rid (fst (snd sys)) \<Longrightarrow>
    coherent sys' \<and> flagged rid (fst (snd sys')) \<and> untouched rid (fst (snd sys)) (fst (snd sys'))"
proof (induction rule: rtranclp_induct)
  case (step y z)
  obtain ps w c where y: "y = (ps, (w, c))" by (metis surj_pair)
  obtain ps' w' c' where z: "z = (ps', (w', c'))" by (metis surj_pair)
  have now: "coherent (ps, (w, c))" "flagged rid w" "untouched rid (fst (snd sys)) w" using step y by simp_all
  then have "db_inv w" by (simp add: coherent_def)
  have one: "busy_step svc (ps, (w, c)) (ps', (w', c'))" using step(2) y z by simp
  have "safe_step w w'" "coherent (ps', (w', c'))" using busy_step_coherent [OF assms one now(1)] by simp_all
  moreover have "untouched rid w w'" by (rule busy_step_rests [OF assms one \<open>db_inv w\<close> now(2)])
  ultimately show ?case
    using z now flagged_kept [OF safe_stepD(1)] resting.rel_trans [of rid "fst (snd sys)" w w'] by simp
qed (simp add: resting.rel_refl)

text \<open>
  C13. Once the cancellation of a run has been requested, the run is left alone: whatever parts of
  whatever requests follow, in whatever order, no step of the run is begun, its counters stand still,
  no provider is asked for anything under one of its keys, and the flag is never taken back.
\<close>

theorem cancelled_run_is_left_alone:
  assumes "app_services svc" and "comes_to svc (ps, (w, c))" and "lookup_run w rid = Some r" and "cancel_requested r"
    and "(busy_step svc)\<^sup>*\<^sup>* (ps, (w, c)) (ps', (w', c'))"
  shows "begun rid w' = begun rid w \<and> (\<forall>key \<in> keys_of rid. effects_under key w w')
    \<and> (\<exists>r'. lookup_run w' rid = Some r' \<and> cancel_requested r' \<and> step_count r' = step_count r \<and> tool_call_count r' = tool_call_count r)"
proof -
  have "coherent (ps, (w, c))" by (rule comes_to_coherent [OF assms(1,2)])
  moreover have "flagged rid w" using assms(3,4) by (simp add: flagged_def)
  ultimately have "flagged rid w'" "untouched rid w w'" using busy_steps_rest [OF assms(1,5)] by simp_all
  then show ?thesis using assms(3) by (auto simp: untouched_def flagged_def spent_def)
qed

text \<open>
  C14. The cancellation arrives: an invocation that is in front of a node, whichever, when the flag of
  its run is set goes no further; its next part raises \<open>RunCancelled\<close> and leaves the database as it
  is, and the part after that records the run as CANCELLED.
\<close>

theorem cancelled_invocation_is_recorded:
  assumes "app_services svc" and "comes_to svc (ps, (w, c))" and "(req, At r s rv v) \<in> set ps" and "s \<noteq> END"
    and "lookup_run w (run_id r) = Some r0" and "cancel_requested r0" and "status r0 = RRunning"
  shows "\<exists>e c1 w2 r2. exc_class_of e = RunCancelled
    \<and> run_node keep svc r s rv v (w, c) = (Calm (Invoked r (Inl e)), (w, c1))
    \<and> calm_part svc req (Invoked r (Inl e)) (w, c1) = (Calm (Recorded r), (w2, c1))
    \<and> lookup_run w2 (run_id r) = Some r2 \<and> status r2 = RCancelled"
proof -
  have "in_order (At r s rv v)" using comes_to_coherent [OF assms(1,2)] assms(3) by (fastforce simp: coherent_def)
  then have own: "state_run_id v = Inr (run_id r)" "on_graph s" by simp_all
  obtain n where n: "map_of (g_nodes (build_graph svc)) s = Some n" using on_graph_node [OF own(2) assms(4)] by blast
  obtain sn fn where fn: "(sn, fn) \<in> set WORKFLOW" "n = fn svc" by (rule build_graph_nodes [OF n])
  let ?e = "cancelled_before r0 (step_value sn)"
  have "guard v sn w = (Inl ?e, w)" using own(1) assms(5,6) by (simp add: guard_def eff_apply runs_get_eq)
  then have "n (interrupt_with rv) v w = (Inl ?e, w)" using node_guarded [OF fn(1)] fn(2) by simp
  then have node: "run_node keep svc r s rv v (w, c) = (Calm (Invoked r (Inl ?e)), (w, save r s v (if keep then rv else None) c))"
    using assms(4) n by (simp add: run_node_def cancelled_before_def)
  have "transition_run RRunning RCancelled \<noteq> Inl e" for e
    using run_cycle.step_Inr_iff [of RRunning RCancelled] by (cases "transition_run RRunning RCancelled") auto
  then obtain u where "transition_run RRunning RCancelled = Inr u" by (cases "transition_run RRunning RCancelled") auto
  then have "\<exists>w2 r2. set_status (run_id r) RCancelled None None None w = (Inr r2, w2)
      \<and> lookup_run w2 (run_id r) = Some r2 \<and> status r2 = RCancelled"
    using assms(5,7) by (simp add: set_status_eq Let_def lookup_run_def tfind_tupdate)
  then obtain w2 r2 where "set_status (run_id r) RCancelled None None None w = (Inr r2, w2)"
      "lookup_run w2 (run_id r) = Some r2" "status r2 = RCancelled" by blast
  then show ?thesis using node
    by (intro exI [of _ ?e] exI conjI) (auto simp: cancelled_before_def calm_part_def record_outcome_def is_instance_def mseq_apply on_db_apply)
qed

theorem cancelled_run_is_left_alone_witness:
  "\<exists>r. lookup_run (fst (snd (cancelled_in_time 3))) ''run_0'' = Some r \<and> cancel_requested r \<and> step_count r = 1
    \<and> begun ''run_0'' (fst (snd (cancelled_in_time 3))) = begun ''run_0'' (fst (snd (cancelled_in_time 0)))"
proof -
  obtain ps w c where e: "cancelled_in_time 0 = (ps, (w, c))" by (metis surj_pair)
  obtain ps' w' c' where e': "cancelled_in_time 3 = (ps', (w', c'))" by (metis surj_pair)
  obtain r where r: "lookup_run w ''run_0'' = Some r" "cancel_requested r = True" "step_count r = 1"
    by (rule seen_run [OF cancelled_in_time_seen [unfolded e]])
  from cancelled_run_is_left_alone [OF sample_app_services cancelled_in_time_comes [of 0, unfolded e] r(1) _
      cancelled_in_time_goes_on [of 3, unfolded e e']] r
  show ?thesis by (auto simp: e e')
qed

theorem cancelled_invocation_is_recorded_witness:
  "\<exists>ps w c req r rv v e c1. cancelled_in_time 0 = (ps, (w, c)) \<and> (req, At r ''plan_deprovisioning'' rv v) \<in> set ps
    \<and> run_node True sample_services r ''plan_deprovisioning'' rv v (w, c) = (Calm (Invoked r (Inl e)), (w, c1))
    \<and> exc_class_of e = RunCancelled"
proof -
  obtain ps w c where e: "cancelled_in_time 0 = (ps, (w, c))" by (metis surj_pair)
  obtain r0 where r0: "lookup_run w ''run_0'' = Some r0" "status r0 = RRunning" "cancel_requested r0 = True"
    by (rule seen_run [OF cancelled_in_time_seen [unfolded e]])
  obtain req r rv v where here: "(req, At r ''plan_deprovisioning'' rv v) \<in> set ps" "run_id r = ''run_0''"
    by (rule seen_at [OF cancelled_in_time_seen [unfolded e]])
  from cancelled_invocation_is_recorded [OF sample_app_services cancelled_in_time_comes [of 0, unfolded e] here(1), of r0 True]
  show ?thesis using here e r0 by (fastforce simp: END_def)
qed

section \<open>Too late for a guard\<close>

text \<open>The cancellation arrives when the gate has been reached and the outcome is not recorded yet.\<close>

definition cancelled_late :: busy where
  "cancelled_late = moves sample_services
     ([Enters (Start ''emp-003'' 20 30)] @ replicate 6 (Part 0) @ [Enters (Cancel ''run_0''), Part 1, Part 1, Part 0, Part 0])
     ([], (fresh_world, \<lambda>t. None))"

lemma cancelled_late_seen: "where_at cancelled_late =
    ([Inr (Some RPaused), Inr (Some RRunning)], [(''run_0'', RPaused, True, 3)], 3)"
  by code_simp

lemma seen_returned:
  assumes "where_at (ps, (w, c)) = ([Inr (Some s), Inr (Some t)], ys, n)"
  obtains a b where "map snd ps = [Calm (Returned (Inr a)), Calm (Returned (Inr b))]" "status a = s" "status b = t"
proof -
  obtain p q where "ps = [p, q]" "standing (snd p) = Inr (Some s)" "standing (snd q) = Inr (Some t)"
    using assms by (auto simp: where_at_def map_eq_Cons_conv)
  then show ?thesis using that by (auto simp: standing_iff)
qed

text \<open>
  C28. The call that is driving the step does not always see a cancellation.  A flag that is set when
  the last node of an invocation has run, and before its outcome is written, is read by nobody: the
  run is recorded as PAUSED with the flag set, both requests have returned, and no call is left that
  would record CANCELLED.
\<close>

theorem late_flag_is_not_recorded:
  "\<exists>ps w c r a b. comes_to sample_services (ps, (w, c)) \<and> lookup_run w ''run_0'' = Some r
    \<and> cancel_requested r \<and> status r = RPaused
    \<and> map snd ps = [Calm (Returned (Inr a)), Calm (Returned (Inr b))] \<and> status a = RPaused \<and> status b = RRunning"
proof -
  obtain ps w c where e: "cancelled_late = (ps, (w, c))" by (metis surj_pair)
  have "comes_to sample_services (ps, (w, c))"
    unfolding e [symmetric] cancelled_late_def fresh_world_def by (rule comes_to_moves)
  moreover obtain r where "lookup_run w ''run_0'' = Some r" "status r = RPaused" "cancel_requested r = True"
    by (rule seen_run [OF cancelled_late_seen [unfolded e]])
  moreover obtain a b where "map snd ps = [Calm (Returned (Inr a)), Calm (Returned (Inr b))]" "status a = RPaused" "status b = RRunning"
    by (rule seen_returned [OF cancelled_late_seen [unfolded e]])
  ultimately show ?thesis
    by (intro exI [of _ ps] exI [of _ w] exI [of _ c] exI [of _ r] exI [of _ a] exI [of _ b]) simp
qed

end
