(* ===== verification/Cli.thy ===== *)
theory Cli
  imports Service_Invariant
begin

text \<open>
  \<open>cli/main.py\<close>: the commands, each a process of its own that builds a run service from the
  database file, performs one operation, prints and exits; and \<open>latest_run_id\<close> of \<open>scripts/demo.py\<close>,
  which reads the newest run's id back from the text of \<open>list\<close>.  Parsing the command line is
  typer's: a command is given parsed, with \<open>None\<close> for an option left out.
\<close>

section \<open>Rendering\<close>

text \<open>The format specification \<open>:<n\<close>.\<close>

definition ljust :: "nat \<Rightarrow> string \<Rightarrow> string" where
  "ljust n s = s @ replicate (n - length s) CHR '' ''"

definition opt_str :: "string option \<Rightarrow> string" where
  "opt_str v = (case v of None \<Rightarrow> ''None'' | Some s \<Rightarrow> s)"

definition print_run :: "run \<Rightarrow> string list" where
  "print_run r =
     [''run_id       '' @ run_id r, ''employee_id  '' @ employee_id r, ''status       '' @ run_status_value (status r)]
   @ (case pause_reason r of None \<Rightarrow> [] | Some p \<Rightarrow> [''paused_for   '' @ pause_value p])
   @ (case failure_reason r of None \<Rightarrow> [] | Some f \<Rightarrow> [''failed_with  '' @ failure_value f @ '': '' @ opt_str (failure_detail r)])
   @ [''steps        '' @ show_int (step_count r) @ ''/'' @ show_int (max_steps r),
      ''tool_calls   '' @ show_int (tool_call_count r) @ ''/'' @ show_int (max_tool_calls r)]"

definition print_run_line :: "run \<Rightarrow> string" where
  "print_run_line r =
     ljust 20 (run_id r) @ '' '' @
     ljust 28 (run_status_value (status r) @ (case pause_reason r of None \<Rightarrow> [] | Some p \<Rightarrow> ''['' @ pause_value p @ '']'')) @
     '' emp='' @ employee_id r"

text \<open>\<open>attempt.detail.get(k)\<close> as a condition; a detail is always a dict.\<close>

definition flagged :: "pyval \<Rightarrow> string \<Rightarrow> bool" where
  "flagged d k = (case d of PDict kvs \<Rightarrow> (case map_of kvs k of None \<Rightarrow> False | Some v \<Rightarrow> truthy v) | _ \<Rightarrow> False)"

definition print_trace_line :: "step_attempt \<Rightarrow> string" where
  "print_trace_line a = join ''  '' (
     [''#'' @ ljust 2 (show_int (int (attempt a))) @ '' '' @ ljust 24 (att_step a) @ '' '' @ step_status_value (att_status a)]
   @ (case tool_invoked a of None \<Rightarrow> [] | Some t \<Rightarrow> if t = [] then [] else [''tool='' @ t])
   @ (case att_pause a of None \<Rightarrow> [] | Some p \<Rightarrow> [''pause='' @ pause_value p])
   @ (case error_type a of None \<Rightarrow> [] | Some t \<Rightarrow> if t = [] then [] else [''error='' @ t @ '': '' @ opt_str (error_message a)])
   @ (if flagged (detail a) ''replayed'' then [''[replayed: idempotent no-op]''] else [])
   @ (if flagged (detail a) ''reconciled'' then [''[reconciled: recovered from provider after a crash]''] else []))"

definition print_side_effect_line :: "side_effect_record \<Rightarrow> string" where
  "print_side_effect_line r =
     ljust 24 (eff_step r) @ '' '' @ ljust 12 (effect_state_value (eff_state r)) @ '' key='' @ idempotency_key r"

section \<open>Commands\<close>

datatype command =
    CStart string "int option" "int option"
  | CShow string
  | CList "int option"
  | CApprove string string "string option"
  | CReject string string "string option"
  | CSign string string "string option"
  | CResume string
  | CCancel string
  | CTrace string
  | CSideEffects string

text \<open>What a process leaves on its two streams and its exit code.\<close>

record process_result =
  exit_code :: int
  out_lines :: "string list"
  err_lines :: "string list"

text \<open>
  \<open>try: ... except caught: _fail(exc)\<close> and the printing after it; any other exception ends the
  process with a traceback.
\<close>

definition reporting :: "exc_class list \<Rightarrow> ('a \<Rightarrow> string list) \<Rightarrow> ('c, 'a) serviced \<Rightarrow> ('c, process_result) serviced" where
  "reporting caught lines_of m = mtry m
     (\<lambda>e. if list_ex (is_instance e) caught
          then ret \<lparr>exit_code = 1, out_lines = [], err_lines = [''error: '' @ exc_message e]\<rparr>
          else raise e)
     (\<lambda>a. ret \<lparr>exit_code = 0, out_lines = lines_of a, err_lines = []\<rparr>)"

definition domain_errors :: "exc_class list" where
  "domain_errors = [RunNotFound, InvalidRunOperation]"

definition side_effects_command :: "string \<Rightarrow> ('c, process_result) serviced" where
  "side_effects_command rid = reporting [RunNotFound] (map print_side_effect_line) (get_side_effects rid)"

fun perform_command :: "'c langgraph \<Rightarrow> services \<Rightarrow> command \<Rightarrow> ('c, process_result) serviced" where
  "perform_command lg svc (CStart emp ms mc) = reporting [RunNotFound] print_run
     (start_run lg svc emp (case ms of None \<Rightarrow> 20 | Some n \<Rightarrow> n) (case mc of None \<Rightarrow> 30 | Some n \<Rightarrow> n))"
| "perform_command lg svc (CShow rid) = reporting [RunNotFound] print_run (get_run rid)"
| "perform_command lg svc (CList limit) = reporting [] (map print_run_line)
     (service_list_runs (case limit of None \<Rightarrow> 20 | Some n \<Rightarrow> n))"
| "perform_command lg svc (CApprove rid approver nte) = reporting domain_errors print_run (approve lg svc rid approver nte)"
| "perform_command lg svc (CReject rid approver nte) = reporting domain_errors print_run (reject lg svc rid approver nte)"
| "perform_command lg svc (CSign rid doc signed) = reporting domain_errors print_run (submit_signed_document lg svc rid doc signed)"
| "perform_command lg svc (CResume rid) = reporting domain_errors print_run (resume_run lg svc rid)"
| "perform_command lg svc (CCancel rid) = reporting domain_errors print_run (cancel_run rid)"
| "perform_command lg svc (CTrace rid) = reporting [RunNotFound] (map print_trace_line) (get_trace rid)"
| "perform_command lg svc (CSideEffects rid) = side_effects_command rid"

text \<open>One invocation: \<open>_service()\<close> wires everything afresh, then the command runs.\<close>

definition invoke_cli :: "'c langgraph \<Rightarrow> services py \<Rightarrow> command \<Rightarrow> ('c, process_result) serviced" where
  "invoke_cli lg wire cmd = mbind (on_db wire) (\<lambda>svc. perform_command lg svc cmd)"

fun invoke_all :: "'c langgraph \<Rightarrow> services py \<Rightarrow> command list \<Rightarrow> world \<times> 'c \<Rightarrow> world \<times> 'c" where
  "invoke_all lg wire [] s = s"
| "invoke_all lg wire (cmd # cmds) s = invoke_all lg wire cmds (snd (invoke_cli lg wire cmd s))"

section \<open>Reading a run id back\<close>

text \<open>\<open>str.strip\<close>, \<open>str.splitlines\<close> and \<open>str.split\<close> on ASCII text.\<close>

definition is_space :: "char \<Rightarrow> bool" where
  "is_space c = (let n = of_char c :: nat in n \<in> {9, 10, 11, 12, 13, 28, 29, 30, 31, 32})"

definition is_line_break :: "char \<Rightarrow> bool" where
  "is_line_break c = (let n = of_char c :: nat in n \<in> {10, 11, 12, 13, 28, 29, 30})"

definition strip :: "string \<Rightarrow> string" where
  "strip s = rev (dropWhile is_space (rev (dropWhile is_space s)))"

definition first_line :: "string \<Rightarrow> string option" where
  "first_line s = (if s = [] then None else Some (takeWhile (\<lambda>c. \<not> is_line_break c) s))"

definition first_word :: "string \<Rightarrow> string option" where
  "first_word s = (let t = dropWhile is_space s in if t = [] then None else Some (takeWhile (\<lambda>c. \<not> is_space c) t))"

text \<open>\<open>None\<close> is the \<open>IndexError\<close> of an empty list.\<close>

definition latest_run_id :: "string \<Rightarrow> string option" where
  "latest_run_id stdout = Option.bind (first_line (strip stdout)) first_word"

definition stdout_text :: "process_result \<Rightarrow> string" where
  "stdout_text p = concat (map (\<lambda>l. l @ [char_of (10 :: nat)]) (out_lines p))"

section \<open>A process per command\<close>

fun request_of_command :: "command \<Rightarrow> request option" where
  "request_of_command (CStart emp ms mc) =
     Some (Start emp (case ms of None \<Rightarrow> 20 | Some n \<Rightarrow> n) (case mc of None \<Rightarrow> 30 | Some n \<Rightarrow> n))"
| "request_of_command (CApprove rid approver nte) = Some (Approve rid approver nte)"
| "request_of_command (CReject rid approver nte) = Some (Reject rid approver nte)"
| "request_of_command (CSign rid doc signed) = Some (Sign rid doc signed)"
| "request_of_command (CResume rid) = Some (ResumeRun rid)"
| "request_of_command (CCancel rid) = Some (Cancel rid)"
| "request_of_command cmd = None"

definition events_of :: "iam_faults \<Rightarrow> int \<Rightarrow> command \<Rightarrow> event list" where
  "events_of faults n cmd = Restart faults n # (case request_of_command cmd of None \<Rightarrow> [] | Some req \<Rightarrow> [Ask req])"

text \<open>Wiring a process: the fault settings of the environment, the same services every time.\<close>

definition wires :: "services py \<Rightarrow> services \<Rightarrow> iam_faults \<Rightarrow> int \<Rightarrow> bool" where
  "wires wire svc faults n \<longleftrightarrow> (\<forall>w. wire w = (Inr svc, w\<lparr>iam := faults, paperwork_failures := n\<rparr>))"

lemma reporting_state: "snd (reporting caught lines_of m s) = snd (m s)"
  by (simp add: reporting_def mtry_apply split: prod.splits sum.splits)

lemma read_states: "snd (on_db (runs_get rid) s) = s" "snd (get_run rid s) = s" "snd (get_trace rid s) = s"
  "snd (get_side_effects rid s) = s" "snd (service_list_runs n s) = s"
  by (cases s; simp add: get_run_def get_trace_def get_side_effects_def service_list_runs_def on_db_apply runs_get_eq
      mseq_apply list_runs_def trace_list_for_run_def effects_list_for_run_def split: option.splits)+

lemma command_state: "snd (perform_command lg svc cmd s) =
    (case request_of_command cmd of None \<Rightarrow> s | Some req \<Rightarrow> snd (serve lg svc req s))"
  by (cases cmd) (simp_all add: side_effects_command_def reporting_state read_states)

lemma play_append: "snd (play lg svc (es @ es') s) = snd (play lg svc es' (snd (play lg svc es s)))"
proof (induction lg svc es s rule: play.induct)
  case (2 lg svc req es s)
  obtain r s1 where "serve lg svc req s = (r, s1)" by (meson surj_pair)
  with 2 show ?case by (simp add: case_prod_beta)
qed simp_all

text \<open>
  C36. Commands are restarts and requests: a sequence of CLI invocations, each a process of its own
  that builds everything from the database file, leaves exactly the database and checkpoints of the
  history in which each is a restart followed by the one operation it names, so that whatever holds
  of every reachable state holds of a database driven from the command line.
\<close>

theorem cli_is_a_history_of_requests:
  assumes "wires wire svc faults n"
  shows "invoke_all lg wire cmds s = snd (play lg svc (concat (map (events_of faults n) cmds)) s)"
proof (induction cmds arbitrary: s)
  case (Cons cmd cmds)
  obtain w c where s: "s = (w, c)" by (cases s)
  have "snd (invoke_cli lg wire cmd s) = snd (play lg svc (events_of faults n cmd) s)"
    using assms by (cases "request_of_command cmd")
      (simp_all add: s invoke_cli_def wires_def mbind_apply on_db_apply command_state events_of_def case_prod_beta)
  then show ?case using Cons by (simp add: play_append)
qed simp

lemma build_services_wires:
  assumes "fault_times k to_int env = Inr n" and "build_llm sdk lib env None = Inr l"
  shows "wires (build_services sdk lib ten isof to_int env None None k perm)
    \<lparr>svc_executor = \<lparr>ex_registry = app_registry, ex_policy = default_policy, ex_tenacity = ten\<rparr>,
      svc_llm = l, svc_pydantic = lib, svc_isoformat = isof\<rparr>
    \<lparr>remaining_failures = n, fail_permanently = perm, crash_after_apply = False\<rparr> 0"
  using assms by (simp add: wires_def build_services_def mbind_apply mseq_apply app_registry_built)

text \<open>
  C38. What a command prints and how it exits: 0 and the run on success, 1 and the message on
  standard error when there is no such run or its state does not admit the command; every other
  exception ends the process with its traceback.
\<close>

theorem cli_exit_code_tells_the_outcome:
  assumes "wires wire svc faults n" and "request_of_command cmd = Some req"
    and "serve lg svc req (w\<lparr>iam := faults, paperwork_failures := n\<rparr>, c) = (res, s')"
  shows "invoke_cli lg wire cmd (w, c) = (case res of
      Inr r \<Rightarrow> (Inr \<lparr>exit_code = 0, out_lines = print_run r, err_lines = []\<rparr>, s')
    | Inl e \<Rightarrow> if is_instance e RunNotFound \<or> is_instance e InvalidRunOperation \<and> (\<forall>emp ms mc. cmd \<noteq> CStart emp ms mc)
        then (Inr \<lparr>exit_code = 1, out_lines = [], err_lines = [''error: '' @ exc_message e]\<rparr>, s')
        else (Inl e, s'))"
  using assms
  by (cases cmd) (auto simp: invoke_cli_def wires_def mbind_apply on_db_apply reporting_def mtry_apply domain_errors_def
      split: sum.splits)

lemma missing_run: "is_instance (run_not_found rid) RunNotFound"
proof -
  have "is_subclass RunNotFound RunNotFound" by code_simp
  then show ?thesis by (simp add: run_not_found_def is_instance_def)
qed

section \<open>Round trip\<close>

text \<open>A word in front of a blank: stripping, the first line and the first word keep it.\<close>

definition word_first :: "string \<Rightarrow> string \<Rightarrow> bool" where
  "word_first s t \<longleftrightarrow> (\<exists>y. t = s @ y \<and> (y = [] \<or> hd y = CHR '' ''))"

lemma blank: "is_space (CHR '' '')" "\<not> is_line_break (CHR '' '')" "is_line_break c \<Longrightarrow> is_space c"
  by (auto simp: is_space_def is_line_break_def Let_def)

lemma strip_word:
  assumes s: "s \<noteq> []" "\<forall>c \<in> set s. \<not> is_space c"
  shows "word_first s (strip (s @ CHR '' '' # x))"
proof -
  let ?xs = "rev x @ [CHR '' '']"
  let ?d = "dropWhile is_space ?xs"
  have keep: "dropWhile is_space (t @ u) = t @ u" if "t \<noteq> []" "\<forall>c \<in> set t. \<not> is_space c" for t u :: string
    using that by (cases t) simp_all
  have "rev s \<noteq> []" "\<forall>c \<in> set (rev s). \<not> is_space c" using s by simp_all
  from keep [OF this, of "[]"] have revs: "dropWhile is_space (rev s) = rev s" by simp
  have strip: "strip (s @ CHR '' '' # x) = rev (dropWhile is_space (?xs @ rev s))"
    using keep [OF s] by (simp add: strip_def)
  show ?thesis
  proof (cases "?d = []")
    case True
    then have "\<forall>c \<in> set ?xs. is_space c" by (simp only: dropWhile_eq_Nil_conv)
    then have "dropWhile is_space (?xs @ rev s) = rev s" using revs by (subst dropWhile_append2) auto
    then show ?thesis using strip by (auto simp: word_first_def)
  next
    case False
    then obtain c where "c \<in> set ?xs" "\<not> is_space c" by (auto simp only: dropWhile_eq_Nil_conv)
    then have "dropWhile is_space (?xs @ rev s) = ?d @ rev s" by (rule dropWhile_append1)
    then have "strip (s @ CHR '' '' # x) = s @ rev ?d" using strip by simp
    moreover have "hd (rev ?d) = CHR '' ''"
    proof -
      have "last (takeWhile is_space ?xs @ ?d) = last ?d" using False by (rule last_appendR)
      then have "last ?xs = last ?d" by (simp only: takeWhile_dropWhile_id)
      then show ?thesis by (simp add: hd_rev)
    qed
    ultimately show ?thesis unfolding word_first_def by blast
  qed
qed

lemma line_word:
  assumes "s \<noteq> []" "\<forall>c \<in> set s. \<not> is_space c" "word_first s t"
  obtains u where "first_line t = Some u" "word_first s u"
proof -
  obtain y where y: "t = s @ y" "y = [] \<or> hd y = CHR '' ''" using assms(3) by (auto simp: word_first_def)
  have "\<forall>c \<in> set s. \<not> is_line_break c" using assms(2) blank(3) by blast
  then have "takeWhile (\<lambda>c. \<not> is_line_break c) t = s @ takeWhile (\<lambda>c. \<not> is_line_break c) y"
    using y(1) by (simp add: takeWhile_append2)
  moreover have "takeWhile (\<lambda>c. \<not> is_line_break c) y = [] \<or> hd (takeWhile (\<lambda>c. \<not> is_line_break c) y) = CHR '' ''"
    using y(2) blank(2) by (cases y) auto
  ultimately show ?thesis using y(1) assms(1) that by (auto simp: first_line_def word_first_def)
qed

lemma word_word:
  assumes "s \<noteq> []" "\<forall>c \<in> set s. \<not> is_space c" "word_first s t"
  shows "first_word t = Some s"
proof -
  obtain y where y: "t = s @ y" "y = [] \<or> hd y = CHR '' ''" using assms(3) by (auto simp: word_first_def)
  have "dropWhile is_space t = t" using y(1) assms(1,2) by (cases s) auto
  moreover have "takeWhile (\<lambda>c. \<not> is_space c) t = s"
    using y assms(2) blank(1) by (cases y) (auto simp: takeWhile_append2)
  ultimately show ?thesis using y(1) assms(1) by (simp add: first_word_def Let_def)
qed

text \<open>
  The newest run's id survives the text: from what \<open>list\<close> prints, \<open>latest_run_id\<close> reads back
  the id of the first run listed, as long as the id is not empty and has no white space, whatever
  the other columns and lines hold.
\<close>

theorem latest_run_id_roundtrip:
  assumes "run_id r \<noteq> []" and "list_all (\<lambda>c. \<not> is_space c) (run_id r)"
  shows "latest_run_id (stdout_text \<lparr>exit_code = 0, out_lines = map print_run_line (r # rs), err_lines = []\<rparr>) = Some (run_id r)"
proof -
  let ?out = "stdout_text \<lparr>exit_code = 0, out_lines = map print_run_line (r # rs), err_lines = []\<rparr>"
  have id: "run_id r \<noteq> []" "\<forall>c \<in> set (run_id r). \<not> is_space c" using assms by (simp_all add: list_all_iff)
  obtain x where x: "?out = run_id r @ CHR '' '' # x"
    using that by (cases "20 - length (run_id r)") (simp_all add: stdout_text_def print_run_line_def ljust_def)
  obtain u where "first_line (strip ?out) = Some u" "word_first (run_id r) u"
    by (rule line_word [OF id strip_word [OF id, of x, folded x]])
  then show ?thesis using word_word [OF id] by (simp add: latest_run_id_def)
qed

theorem latest_run_id_roundtrip_witness:
  "latest_run_id (stdout_text \<lparr>exit_code = 0, out_lines = map print_run_line [sample_run, sample_run], err_lines = []\<rparr>) = Some ''r1''"
  using latest_run_id_roundtrip [of sample_run "[sample_run]"] by (simp add: sample_run_def is_space_def)

section \<open>A wired process\<close>

definition sample_wire :: "services py" where
  "sample_wire = build_services forgetful_sdk documented_pydantic documented_tenacity (\<lambda>t. show_int (int t))
     (\<lambda>s. Inr 0) (\<lambda>name. None) None None 0 False"

lemma sample_wires: "wires sample_wire sample_services no_faults 0"
proof -
  have "build_llm forgetful_sdk documented_pydantic (\<lambda>name. None) None = Inr (fake_llm documented_pydantic)"
  proof -
    have "lower ''fake'' = ''fake''" by code_simp
    then show ?thesis by (simp add: build_llm_def env_get_def or_else_def Let_def)
  qed
  from build_services_wires [OF _ this, of 0 "\<lambda>s. Inr 0" 0 documented_tenacity "\<lambda>t. show_int (int t)" False]
  show ?thesis by (simp add: sample_wire_def sample_services_def sample_executor_def no_faults_def fault_times_def)
qed

theorem cli_is_a_history_of_requests_witness:
  "invoke_all linear_engine sample_wire [CShow ''r1'', CCancel ''nope''] (sample_world, \<lambda>t. None) =
     snd (play linear_engine sample_services [Restart no_faults 0, Restart no_faults 0, Ask (Cancel ''nope'')]
       (sample_world, \<lambda>t. None))"
  using cli_is_a_history_of_requests [OF sample_wires, of linear_engine "[CShow ''r1'', CCancel ''nope'']"]
  by (simp add: events_of_def)

theorem cli_exit_code_tells_the_outcome_witness:
  "\<exists>p s'. invoke_cli linear_engine sample_wire (CCancel ''nope'') (sample_world, \<lambda>t. None) = (Inr p, s')
    \<and> exit_code p = 1 \<and> out_lines p = []"
proof -
  let ?w = "sample_world\<lparr>iam := no_faults, paperwork_failures := 0\<rparr>"
  have "serve linear_engine sample_services (Cancel ''nope'') (?w, \<lambda>t. None) = (Inl (run_not_found ''nope''), (?w, \<lambda>t. None))"
    by (simp add: cancel_run_def mbind_apply on_db_get lookup_run_def tfind_Cons sample_run_def)
  from cli_exit_code_tells_the_outcome [OF sample_wires _ this, of "CCancel ''nope''"]
  have "invoke_cli linear_engine sample_wire (CCancel ''nope'') (sample_world, \<lambda>t. None) =
      (Inr \<lparr>exit_code = 1, out_lines = [], err_lines = [''error: '' @ exc_message (run_not_found ''nope'')]\<rparr>, (?w, \<lambda>t. None))"
    using missing_run by simp
  then show ?thesis by simp
qed

end
