(* ===== verification/Api.thy ===== *)
theory Api
  imports Cli
begin

text \<open>
  \<open>api/main.py\<close>: the HTTP endpoints over the run service.  Routing, the parsing of bodies into
  the request models and the rendering of read models as JSON are FastAPI's and pydantic's; a
  call is given parsed, with \<open>None\<close> for a field or query parameter that was left out.
\<close>

section \<open>Requests and responses\<close>

record start_body =
  sb_employee :: string
  sb_max_steps :: "int option"
  sb_max_tool_calls :: "int option"

record approval_body =
  ab_approver :: string
  ab_note :: "string option"

record sign_body =
  gb_document :: string
  gb_signed_at :: "string option"

datatype api_call =
    PostRun start_body
  | ListRuns "int option"
  | ShowRun string
  | PostApprove string approval_body
  | PostReject string approval_body
  | PostSign string sign_body
  | PostResume string
  | PostCancel string
  | ShowTrace string
  | ShowEffects string

datatype body = RunBody run | RunsBody "run list" | TraceBody "step_attempt list" | EffectsBody "side_effect_record list"
  | Detail string

record response =
  resp_code :: int
  resp_body :: body

definition or_default :: "'a option \<Rightarrow> 'a \<Rightarrow> 'a" where
  "or_default given d = (case given of None \<Rightarrow> d | Some v \<Rightarrow> v)"

section \<open>The endpoints\<close>

definition respond :: "int \<Rightarrow> ('a \<Rightarrow> body) \<Rightarrow> ('c, 'a) serviced \<Rightarrow> ('c, response) serviced" where
  "respond code render m = mbind m (\<lambda>a. ret \<lparr>resp_code = code, resp_body = render a\<rparr>)"

fun endpoint :: "'c langgraph \<Rightarrow> services \<Rightarrow> api_call \<Rightarrow> ('c, response) serviced" where
  "endpoint lg svc (PostRun b) = respond 201 RunBody
     (start_run lg svc (sb_employee b) (or_default (sb_max_steps b) 20) (or_default (sb_max_tool_calls b) 30))"
| "endpoint lg svc (ListRuns limit) = respond 200 RunsBody (service_list_runs (or_default limit 50))"
| "endpoint lg svc (ShowRun rid) = respond 200 RunBody (get_run rid)"
| "endpoint lg svc (PostApprove rid b) = respond 200 RunBody (approve lg svc rid (ab_approver b) (ab_note b))"
| "endpoint lg svc (PostReject rid b) = respond 200 RunBody (reject lg svc rid (ab_approver b) (ab_note b))"
| "endpoint lg svc (PostSign rid b) = respond 200 RunBody (submit_signed_document lg svc rid (gb_document b) (gb_signed_at b))"
| "endpoint lg svc (PostResume rid) = respond 200 RunBody (resume_run lg svc rid)"
| "endpoint lg svc (PostCancel rid) = respond 200 RunBody (cancel_run rid)"
| "endpoint lg svc (ShowTrace rid) = respond 200 TraceBody (get_trace rid)"
| "endpoint lg svc (ShowEffects rid) = respond 200 EffectsBody (get_side_effects rid)"

text \<open>
  The process: the world, the engine's checkpoints and the module's \<open>_service\<close>, built on the
  first request and kept for the life of the process.  Each endpoint depends on
  \<open>get_service\<close>; the exception handlers enclose both, and what they do not handle leaves the
  application (FastAPI answers 500).
\<close>

type_synonym ('c, 'a) app = "((world \<times> 'c) \<times> services option, exc, 'a) eff"

definition get_service :: "services py \<Rightarrow> ('c, services) app" where
  "get_service wire = (\<lambda>((w, c), cached). case cached of
     Some svc \<Rightarrow> (Inr svc, ((w, c), Some svc))
   | None \<Rightarrow> (case wire w of
       (Inl e, w') \<Rightarrow> (Inl e, ((w', c), None))
     | (Inr svc, w') \<Rightarrow> (Inr svc, ((w', c), Some svc))))"

definition in_app :: "('c, 'a) serviced \<Rightarrow> ('c, 'a) app" where
  "in_app m = (\<lambda>(s, cached). case m s of (r, s') \<Rightarrow> (r, (s', cached)))"

definition exception_handlers :: "exc \<Rightarrow> response option" where
  "exception_handlers e =
     (if is_instance e RunNotFound then Some \<lparr>resp_code = 404, resp_body = Detail (exc_message e)\<rparr>
      else if is_instance e InvalidRunOperation then Some \<lparr>resp_code = 409, resp_body = Detail (exc_message e)\<rparr>
      else None)"

definition app_call :: "'c langgraph \<Rightarrow> services py \<Rightarrow> api_call \<Rightarrow> ('c, response) app" where
  "app_call lg wire call =
     mtry (mbind (get_service wire) (\<lambda>svc. in_app (endpoint lg svc call)))
       (\<lambda>e. case exception_handlers e of Some resp \<Rightarrow> ret resp | None \<Rightarrow> raise e)
       ret"

section \<open>One public surface\<close>

fun request_of_call :: "api_call \<Rightarrow> request option" where
  "request_of_call (PostRun b) =
     Some (Start (sb_employee b) (or_default (sb_max_steps b) 20) (or_default (sb_max_tool_calls b) 30))"
| "request_of_call (PostApprove rid b) = Some (Approve rid (ab_approver b) (ab_note b))"
| "request_of_call (PostReject rid b) = Some (Reject rid (ab_approver b) (ab_note b))"
| "request_of_call (PostSign rid b) = Some (Sign rid (gb_document b) (gb_signed_at b))"
| "request_of_call (PostResume rid) = Some (ResumeRun rid)"
| "request_of_call (PostCancel rid) = Some (Cancel rid)"
| "request_of_call call = None"

definition code_of :: "api_call \<Rightarrow> int" where
  "code_of call = (case call of PostRun b \<Rightarrow> 201 | _ \<Rightarrow> 200)"

lemma respond_apply: "respond code render m s = (case m s of
    (Inl e, s') \<Rightarrow> (Inl e, s') | (Inr a, s') \<Rightarrow> (Inr \<lparr>resp_code = code, resp_body = render a\<rparr>, s'))"
  by (simp add: respond_def mbind_apply split: prod.splits sum.splits)

lemma endpoint_serves:
  "request_of_call call = Some req \<Longrightarrow> endpoint lg svc call = respond (code_of call) RunBody (serve lg svc req)"
  by (cases call) (auto simp: code_of_def)

lemma handled [simp]:
  "exception_handlers (Exc RunNotFound m) = Some \<lparr>resp_code = 404, resp_body = Detail m\<rparr>"
  "exception_handlers (Exc InvalidRunOperation m) = Some \<lparr>resp_code = 409, resp_body = Detail m\<rparr>"
proof -
  have "is_subclass RunNotFound RunNotFound" "is_subclass InvalidRunOperation InvalidRunOperation"
    "\<not> is_subclass InvalidRunOperation RunNotFound"
    by code_simp+
  then show "exception_handlers (Exc RunNotFound m) = Some \<lparr>resp_code = 404, resp_body = Detail m\<rparr>"
    "exception_handlers (Exc InvalidRunOperation m) = Some \<lparr>resp_code = 409, resp_body = Detail m\<rparr>"
    by (simp_all add: exception_handlers_def is_instance_def)
qed

text \<open>A process of the application, from its start: calls one after the other.\<close>

fun session :: "'c langgraph \<Rightarrow> services py \<Rightarrow> api_call list \<Rightarrow> (world \<times> 'c) \<times> services option \<Rightarrow> (world \<times> 'c) \<times> services option" where
  "session lg wire [] a = a"
| "session lg wire (call # calls) a = session lg wire calls (snd (app_call lg wire call a))"

lemma handlers_decide: "exception_handlers e =
    (if exc_class_of e = RunNotFound then Some \<lparr>resp_code = 404, resp_body = Detail (exc_message e)\<rparr>
     else if exc_class_of e = InvalidRunOperation then Some \<lparr>resp_code = 409, resp_body = Detail (exc_message e)\<rparr>
     else None)"
  by (simp add: exception_handlers_def is_instance_def)

lemma app_call_wired: "app_call lg wire call (s, Some svc) = (case endpoint lg svc call s of
      (Inr resp, s') \<Rightarrow> (Inr resp, (s', Some svc))
    | (Inl e, s') \<Rightarrow> (case exception_handlers e of
        Some resp \<Rightarrow> (Inr resp, (s', Some svc)) | None \<Rightarrow> (Inl e, (s', Some svc))))"
  by (cases s) (simp add: app_call_def get_service_def in_app_def mtry_apply mbind_apply split: prod.splits sum.splits option.splits)

text \<open>The first call wires the service; where the wiring succeeds the rest is as if it had been there.\<close>

lemma app_call_first:
  assumes "wires wire svc faults n"
  shows "app_call lg wire call ((w, c), None) = app_call lg wire call ((w\<lparr>iam := faults, paperwork_failures := n\<rparr>, c), Some svc)"
  using assms by (simp add: app_call_def get_service_def wires_def mtry_apply mbind_apply)

text \<open>The read endpoints leave the database and the engine as they were, and always answer.\<close>

lemma reads_answer:
  assumes "request_of_call call = None"
  shows "\<exists>answer. app_call lg wire call ((w, c), Some svc) = (Inr answer, ((w, c), Some svc))
    \<and> (\<forall>rid. call \<in> {ShowRun rid, ShowTrace rid, ShowEffects rid} \<longrightarrow>
        resp_code answer = (if lookup_run w rid = None then 404 else 200))"
  using assms
  by (cases call)
    (auto simp: app_call_wired mbind_apply mseq_apply respond_apply get_run_def
      get_trace_def get_side_effects_def service_list_runs_def on_db_apply runs_get_eq
      list_runs_def trace_list_for_run_def effects_list_for_run_def run_not_found_def
      split: option.splits)

lemma call_state: "snd (app_call lg wire call (s, Some svc)) =
    (case request_of_call call of None \<Rightarrow> s | Some req \<Rightarrow> snd (serve lg svc req s), Some svc)"
proof (cases "request_of_call call")
  case None
  with reads_answer [OF None] show ?thesis by (metis (no_types) option.case(1) snd_conv surj_pair)
next
  case (Some req)
  then show ?thesis
    by (simp add: app_call_wired endpoint_serves respond_apply split: prod.splits sum.splits option.splits)
qed

definition requests_of :: "api_call list \<Rightarrow> event list" where
  "requests_of calls = map Ask (List.map_filter request_of_call calls)"

lemma session_plays: "session lg wire calls (s, Some svc) = (snd (play lg svc (requests_of calls) s), Some svc)"
proof (induction calls arbitrary: s)
  case (Cons call calls)
  then show ?case
    by (simp add: call_state requests_of_def List.map_filter_simps case_prod_beta split: option.splits)
qed (simp add: requests_of_def List.map_filter_simps)

lemma session_first:
  assumes "wires wire svc faults n"
  shows "app_call lg wire call (session lg wire calls ((w, c), None)) =
    app_call lg wire call (snd (play lg svc (Restart faults n # requests_of calls) (w, c)), Some svc)"
proof (cases calls)
  case Nil
  then show ?thesis by (simp add: app_call_first [OF assms] requests_of_def List.map_filter_simps)
next
  case (Cons first rest)
  have "session lg wire calls ((w, c), None) = session lg wire calls ((w\<lparr>iam := faults, paperwork_failures := n\<rparr>, c), Some svc)"
    by (simp add: Cons app_call_first [OF assms])
  then show ?thesis by (simp add: session_plays)
qed

text \<open>
  C37. The API is the run service and nothing else.  After any calls, answered or refused, a process
  that was started on a database has done to it and to the engine what the history of requests that
  its calls name does, wired once at its first call.  The next call that changes runs does exactly what
  the service operation it names does then, and answers 201 (a started run) or 200 with the run
  returned, 404 with the message when there is no such run, 409 with the message when the run's state does
  not admit it, and raises every other exception; a call that reads changes nothing, and answers 404
  for a run that does not exist.
\<close>

theorem api_call_is_the_service_operation:
  assumes "wires wire svc faults n"
    and "app_call lg wire call (session lg wire calls ((w, c), None)) = (answer, (s', cached))"
    and "snd (play lg svc (Restart faults n # requests_of calls) (w, c)) = s"
  shows "cached = Some svc \<and> (case request_of_call call of
      Some req \<Rightarrow> s' = snd (serve lg svc req s)
        \<and> answer = (case fst (serve lg svc req s) of
            Inr r \<Rightarrow> Inr \<lparr>resp_code = (case call of PostRun b \<Rightarrow> 201 | _ \<Rightarrow> 200), resp_body = RunBody r\<rparr>
          | Inl e \<Rightarrow> if exc_class_of e = RunNotFound then Inr \<lparr>resp_code = 404, resp_body = Detail (exc_message e)\<rparr>
              else if exc_class_of e = InvalidRunOperation then Inr \<lparr>resp_code = 409, resp_body = Detail (exc_message e)\<rparr>
              else Inl e)
    | None \<Rightarrow> s' = s \<and> (\<exists>resp. answer = Inr resp \<and> (\<forall>rid. call \<in> {ShowRun rid, ShowTrace rid, ShowEffects rid} \<longrightarrow>
          resp_code resp = (if lookup_run (fst s) rid = None then 404 else 200))))"
proof -
  obtain w1 c1 where s: "s = (w1, c1)" by (cases s)
  have call: "app_call lg wire call (s, Some svc) = (answer, (s', cached))"
    using assms(2) unfolding session_first [OF assms(1)] assms(3) .
  show ?thesis
  proof (cases "request_of_call call")
    case None
    then show ?thesis using reads_answer [OF None, of lg wire w1 c1 svc] call by (auto simp: s)
  next
    case (Some req)
    then show ?thesis using call
      by (auto simp: app_call_wired endpoint_serves respond_apply code_of_def handlers_decide split: prod.splits sum.splits if_splits)
  qed
qed

text \<open>An instance: a trace is read, then a run is cancelled that does not exist.\<close>

theorem api_call_is_the_service_operation_witness:
  "fst (app_call linear_engine sample_wire (PostCancel ''nope'')
      (session linear_engine sample_wire [ShowTrace ''r1''] ((sample_world, \<lambda>t. None), None))) =
    Inr \<lparr>resp_code = 404, resp_body = Detail (exc_message (run_not_found ''nope''))\<rparr>"
proof -
  let ?w = "sample_world\<lparr>iam := no_faults, paperwork_failures := 0\<rparr>"
  obtain answer s' cached where call: "app_call linear_engine sample_wire (PostCancel ''nope'')
      (session linear_engine sample_wire [ShowTrace ''r1''] ((sample_world, \<lambda>t. None), None)) = (answer, (s', cached))"
    by (metis surj_pair)
  have s: "snd (play linear_engine sample_services (Restart no_faults 0 # requests_of [ShowTrace ''r1'']) (sample_world, \<lambda>t. None)) =
      (?w, \<lambda>t. None)"
    by (simp add: requests_of_def List.map_filter_simps)
  have "serve linear_engine sample_services (Cancel ''nope'') (?w, \<lambda>t. None) = (Inl (run_not_found ''nope''), (?w, \<lambda>t. None))"
    by (simp add: cancel_run_def mbind_apply on_db_get lookup_run_def tfind_Cons sample_run_def)
  with api_call_is_the_service_operation [OF sample_wires call s] show ?thesis
    unfolding call by (simp add: run_not_found_def)
qed

end
