(* ===== verification/Demo.thy ===== *)
theory Demo
  imports Stored_State Api Cli
begin

text \<open>
  \<open>scripts/demo.py\<close>: the demonstration script, as a program over the command line and the API.
  It starts a process for every command it runs, kills and restarts the server, reads the newest
  run's id back from the text of \<open>list\<close>, and prints all of it; its output is kept in
  \<open>docs/demo-transcript.txt\<close>.  The operating system, typer, FastAPI and uvicorn are the record
  \<open>host\<close>.
\<close>

section \<open>The host\<close>

abbreviation newline :: char where "newline \<equiv> CHR 0x0A"
abbreviation carriage_return :: char where "carriage_return \<equiv> CHR 0x0D"
abbreviation apostrophe :: char where "apostrophe \<equiv> CHR 0x27"

text \<open>
  \<open>wired\<close> is \<open>build_services\<close> with the libraries, in an environment.  \<open>parse_command\<close> is typer on the arguments after the program's name, with its own answer to arguments
  it refuses; \<open>route\<close> and \<open>render\<close> are FastAPI's routing and body parsing (with the status of an answer of its
  own) and its JSON text of a response; \<open>traceback\<close> is how Python ends on an exception; \<open>pid\<close> numbers
  the processes; \<open>comes_up\<close> tells whether the server answers in time.
\<close>

record 'c host =
  windows :: bool
  repo_root :: string
  executable_exists :: bool
  temp_dir :: string
  os_environ :: environ
  to_int :: "string \<Rightarrow> exc + int"
  pid :: "nat \<Rightarrow> int"
  comes_up :: bool
  new_file :: "string \<Rightarrow> world \<times> 'c"
  wired :: "environ \<Rightarrow> services py"
  parse_command :: "string list \<Rightarrow> process_result + command"
  traceback :: "exc \<Rightarrow> process_result"
  route :: "string \<Rightarrow> string \<Rightarrow> string option \<Rightarrow> int + api_call"
  render :: "body \<Rightarrow> string"

datatype demo_error =
    System_Exit int
  | HTTP_Error int
  | URL_Error
  | Runtime_Error string
  | Called_Process_Error int
  | Value_Error
  | Lookup_Error

text \<open>
  The script's state: what it has printed, the database files, the processes started, and the server
  that is up with its environment and the service it has cached.
\<close>

record 'c demo =
  stdout :: "string list"
  stderr :: "string list"
  files :: "string \<Rightarrow> world \<times> 'c"
  spawned :: nat
  server :: "(int \<times> environ \<times> services option) option"

type_synonym ('c, 'a) script = "('c demo, demo_error, 'a) eff"

definition print_lines :: "string list \<Rightarrow> ('c, unit) script" where
  "print_lines ls = modify (\<lambda>s. s\<lparr>stdout := stdout s @ ls\<rparr>)"

definition PORT :: "'c host \<Rightarrow> ('c, int) script" where
  "PORT h = (case to_int h (env_get (os_environ h) ''DEMO_PORT'' ''8799'') of Inl e \<Rightarrow> raise Value_Error | Inr n \<Rightarrow> ret n)"

definition venv_bin :: "'c host \<Rightarrow> string \<Rightarrow> string" where
  "venv_bin h name = (if windows h
     then repo_root h @ [backslash] @ ''.venv'' @ [backslash] @ ''Scripts'' @ [backslash] @ name @ ''.exe''
     else repo_root h @ ''/.venv/bin/'' @ name)"

definition in_dir :: "'c host \<Rightarrow> string \<Rightarrow> string" where
  "in_dir h name = temp_dir h @ (if windows h then [backslash] else ''/'') @ name"

section \<open>Lines and commands\<close>

text \<open>The lines of a text, for the given line breaks; a carriage return and a newline are one break.\<close>

function lines_by :: "(char \<Rightarrow> bool) \<Rightarrow> string \<Rightarrow> string list" where
  "lines_by brk s = (if s = [] then [] else
     (let l = takeWhile (\<lambda>c. \<not> brk c) s; rest = dropWhile (\<lambda>c. \<not> brk c) s in
      l # lines_by brk (case rest of [] \<Rightarrow> []
        | b # later \<Rightarrow> if b = carriage_return \<and> later \<noteq> [] \<and> hd later = newline then tl later else later)))"
  by auto
termination
proof (relation "measure (\<lambda>(brk, s). length s)")
  fix brk :: "char \<Rightarrow> bool" and s l rest :: string
  assume s: "s \<noteq> []" "rest = dropWhile (\<lambda>c. \<not> brk c) s"
  have "length rest \<le> length s" using s by (simp add: length_dropWhile_le)
  moreover have "length (case rest of [] \<Rightarrow> []
      | b # later \<Rightarrow> if b = carriage_return \<and> later \<noteq> [] \<and> hd later = newline then tl later else later) < length rest"
    if "rest \<noteq> []"
    using that by (cases rest) (auto simp: less_Suc_eq_le)
  ultimately show "((brk, case rest of [] \<Rightarrow> []
      | b # later \<Rightarrow> if b = carriage_return \<and> later \<noteq> [] \<and> hd later = newline then tl later else later), brk, s)
    \<in> measure (\<lambda>(brk, s). length s)"
    using s by (cases "rest = []") auto
qed simp

text \<open>What \<open>print\<close> shows of a text, and \<open>str.splitlines\<close>.\<close>

definition text_lines :: "string \<Rightarrow> string list" where
  "text_lines s = lines_by (\<lambda>c. c = newline) s"

definition splitlines :: "string \<Rightarrow> string list" where
  "splitlines s = lines_by is_line_break s"

text \<open>\<open>shlex.quote\<close> and \<open>subprocess.list2cmdline\<close>.\<close>

definition shell_safe :: "char \<Rightarrow> bool" where
  "shell_safe c \<longleftrightarrow> (let n = of_char c :: nat in
     48 \<le> n \<and> n \<le> 57 \<or> 65 \<le> n \<and> n \<le> 90 \<or> 97 \<le> n \<and> n \<le> 122) \<or> c \<in> set ''_@%+=:,./-''"

definition shlex_quote :: "string \<Rightarrow> string" where
  "shlex_quote s =
     (if s = [] then [apostrophe, apostrophe]
      else if list_all shell_safe s then s
      else [apostrophe] @ concat (map (\<lambda>c. if c = apostrophe then [apostrophe, quote, apostrophe, quote, apostrophe] else [c]) s)
        @ [apostrophe])"

fun windows_chars :: "nat \<Rightarrow> bool \<Rightarrow> string \<Rightarrow> string" where
  "windows_chars held quoted [] = replicate (if quoted then 2 * held else held) backslash"
| "windows_chars held quoted (c # cs) =
     (if c = backslash then windows_chars (Suc held) quoted cs
      else if c = quote then replicate (2 * held) backslash @ [backslash, quote] @ windows_chars 0 quoted cs
      else replicate held backslash @ [c] @ windows_chars 0 quoted cs)"

definition windows_quote :: "string \<Rightarrow> string" where
  "windows_quote s = (let quoted = s = [] \<or> CHR '' '' \<in> set s \<or> CHR 0x09 \<in> set s in
     (if quoted then [quote] else []) @ windows_chars 0 quoted s @ (if quoted then [quote] else []))"

definition display_cmd :: "'c host \<Rightarrow> string list \<Rightarrow> string" where
  "display_cmd h args = join '' '' (map (if windows h then windows_quote else shlex_quote) args)"

definition section_title :: "string \<Rightarrow> ('c, unit) script" where
  "section_title title = print_lines [[], replicate 64 CHR ''='', ''# '' @ title, replicate 64 CHR ''='', []]"

definition note_lines :: "string list \<Rightarrow> ('c, unit) script" where
  "note_lines ls = print_lines (map (\<lambda>l. ''# '' @ l) ls)"

section \<open>Child processes\<close>

definition spawn :: "'c host \<Rightarrow> ('c, int) script" where
  "spawn h = (\<lambda>s. (Inr (pid h (spawned s)), s\<lparr>spawned := Suc (spawned s)\<rparr>))"

text \<open>One command in a process of its own, on the file its environment names.\<close>

definition process :: "'c langgraph \<Rightarrow> 'c host \<Rightarrow> environ \<Rightarrow> string list \<Rightarrow> world \<times> 'c \<Rightarrow> process_result \<times> (world \<times> 'c)" where
  "process lg h env args f = (case parse_command h args of
     Inl p \<Rightarrow> (p, f)
   | Inr cmd \<Rightarrow> (case invoke_cli lg (wired h env) cmd f of
       (r, f') \<Rightarrow> (case r of Inr p \<Rightarrow> p | Inl e \<Rightarrow> traceback h e, f')))"

definition child :: "'c langgraph \<Rightarrow> 'c host \<Rightarrow> string list \<Rightarrow> environ \<Rightarrow> ('c, process_result) script" where
  "child lg h args env = (\<lambda>s. let file = resolve_db_path env None in
     (case process lg h env args (files s file) of (p, f) \<Rightarrow> (Inr p, s\<lparr>files := (files s)(file := f)\<rparr>)))"

definition output_text :: "string list \<Rightarrow> string" where
  "output_text ls = concat (map (\<lambda>l. l @ [newline]) ls)"

definition run_command :: "'c langgraph \<Rightarrow> 'c host \<Rightarrow> string list \<Rightarrow> environ \<Rightarrow> ('c, int \<times> string) script" where
  "run_command lg h args env =
     mseq (print_lines [''$ '' @ display_cmd h (''offboarding'' # args)])
     (mbind (spawn h) (\<lambda>p. mseq (print_lines [''  (pid: '' @ show_int p @ '')''])
     (mbind (child lg h args env) (\<lambda>res. let out = output_text (out_lines res @ err_lines res) in
      mseq (print_lines (text_lines out))
     (mseq (if exit_code res \<noteq> 0 then print_lines [''  (exit code: '' @ show_int (exit_code res) @ '')''] else ret ())
      (ret (exit_code res, out)))))))"

definition newest_run_id :: "'c langgraph \<Rightarrow> 'c host \<Rightarrow> environ \<Rightarrow> ('c, string) script" where
  "newest_run_id lg h env =
     mbind (spawn h) (\<lambda>p. mbind (child lg h [''list''] env) (\<lambda>res.
       if exit_code res \<noteq> 0 then raise (Called_Process_Error (exit_code res))
       else (case latest_run_id (stdout_text res) of None \<Rightarrow> raise Lookup_Error | Some rid \<Rightarrow> ret rid)))"

section \<open>The server\<close>

text \<open>A request to the port, answered by the server that is up: the response's JSON, or what \<open>urlopen\<close> raises.\<close>

definition exchange :: "'c langgraph \<Rightarrow> 'c host \<Rightarrow> environ \<Rightarrow> string \<Rightarrow> string \<Rightarrow> string option \<Rightarrow>
    (world \<times> 'c) \<times> services option \<Rightarrow> (demo_error + pyval) \<times> (world \<times> 'c) \<times> services option" where
  "exchange lg h env verb path data st = (case route h verb path data of
     Inl code \<Rightarrow> (Inl (HTTP_Error code), st)
   | Inr call \<Rightarrow> (case app_call lg (wired h env) call st of
       (r, st') \<Rightarrow> (case r of
            Inl e \<Rightarrow> Inl (HTTP_Error 500)
          | Inr resp \<Rightarrow> if resp_code resp < 200 \<or> 300 \<le> resp_code resp then Inl (HTTP_Error (resp_code resp))
              else (case loads (render h (resp_body resp)) of None \<Rightarrow> Inl Value_Error | Some v \<Rightarrow> Inr v), st')))"

definition answer :: "'c langgraph \<Rightarrow> 'c host \<Rightarrow> string \<Rightarrow> string \<Rightarrow> string option \<Rightarrow> ('c, pyval) script" where
  "answer lg h verb path data = (\<lambda>s. case server s of
     None \<Rightarrow> (Inl URL_Error, s)
   | Some (p, env, cached) \<Rightarrow> (let file = resolve_db_path env None in
       (case exchange lg h env verb path data (files s file, cached) of
          (r, (f, cached')) \<Rightarrow> (r, s\<lparr>files := (files s)(file := f), server := Some (p, env, cached')\<rparr>))))"

definition http_get :: "'c langgraph \<Rightarrow> 'c host \<Rightarrow> string \<Rightarrow> ('c, pyval) script" where
  "http_get lg h path = answer lg h ''GET'' path None"

definition http_post :: "'c langgraph \<Rightarrow> 'c host \<Rightarrow> string \<Rightarrow> pyval \<Rightarrow> ('c, pyval) script" where
  "http_post lg h path b = answer lg h ''POST'' path (Some (dumps b))"

definition wait_for_server :: "'c host \<Rightarrow> int \<Rightarrow> ('c, unit) script" where
  "wait_for_server h port =
     (if comes_up h then ret () else raise (Runtime_Error (''server on port '' @ show_int port @ '' never came up'')))"

definition confirm_dead :: "('c, unit) script" where
  "confirm_dead = mbind (gets server) (\<lambda>up. print_lines [''  '' @ (case up of
     Some _ \<Rightarrow> ''still responding (unexpected!)''
   | None \<Rightarrow> ''connection refused (confirmed dead, this is not a simulation)'')])"

definition start_server :: "'c host \<Rightarrow> environ \<Rightarrow> ('c, int) script" where
  "start_server h env = mbind (PORT h) (\<lambda>port.
     mseq (print_lines [''$ '' @ display_cmd h [''uvicorn'', ''offboarding.api.main:app'', ''--port'', show_int port]])
     (mbind (spawn h) (\<lambda>p.
      mseq (modify (\<lambda>s. s\<lparr>server := Some (p, env, None)\<rparr>))
     (mseq (wait_for_server h port)
     (mseq (print_lines [''  (pid: '' @ show_int p @ '')''])
      (ret p))))))"

text \<open>\<open>Popen.kill()\<close> and the wait for the process.\<close>

definition kill_server :: "('c, unit) script" where
  "kill_server = modify (\<lambda>s. s\<lparr>server := None\<rparr>)"

definition cleanup :: "'c host \<Rightarrow> 'c demo \<Rightarrow> 'c demo" where
  "cleanup h s = s\<lparr>server := None, files := new_file h\<rparr>"


text \<open>\<open>json.dumps(v, indent=4)\<close>, at a nesting of \<open>n\<close> columns.\<close>

fun dumps_indent :: "nat \<Rightarrow> pyval \<Rightarrow> string" where
  "dumps_indent n (PList xs) = (if xs = [] then [open_bracket, close_bracket] else
     [open_bracket, newline] @ join ([comma, newline]) (map (\<lambda>v. replicate (n + 4) CHR '' '' @ dumps_indent (n + 4) v) xs)
     @ [newline] @ replicate n CHR '' '' @ [close_bracket])"
| "dumps_indent n (PTuple xs) = (if xs = [] then [open_bracket, close_bracket] else
     [open_bracket, newline] @ join ([comma, newline]) (map (\<lambda>v. replicate (n + 4) CHR '' '' @ dumps_indent (n + 4) v) xs)
     @ [newline] @ replicate n CHR '' '' @ [close_bracket])"
| "dumps_indent n (PDict d) = (if d = [] then [open_brace, close_brace] else
     [open_brace, newline] @ join ([comma, newline]) (map (\<lambda>(k, v).
       replicate (n + 4) CHR '' '' @ dumps_str k @ '': '' @ dumps_indent (n + 4) v) d)
     @ [newline] @ replicate n CHR '' '' @ [close_brace])"
| "dumps_indent n v = dumps v"

text \<open>\<open>v[k]\<close> and \<open>v.get(k)\<close> on parsed JSON.\<close>

definition get_item :: "pyval \<Rightarrow> string \<Rightarrow> ('c, pyval) script" where
  "get_item v k = (case py_item v k of Inl e \<Rightarrow> raise Lookup_Error | Inr x \<Rightarrow> ret x)"

definition get_or_none :: "pyval \<Rightarrow> string \<Rightarrow> ('c, pyval) script" where
  "get_or_none v k = (case v of PDict d \<Rightarrow> ret (case map_of d k of None \<Rightarrow> PNone | Some x \<Rightarrow> x) | _ \<Rightarrow> raise Lookup_Error)"

section \<open>The three parts\<close>

definition part_env :: "'c host \<Rightarrow> string \<Rightarrow> environ" where
  "part_env h file = (os_environ h)(''OFFBOARDING_LLM_PROVIDER'' \<mapsto> ''fake'', ''OFFBOARDING_DB_PATH'' \<mapsto> in_dir h file)"

definition part_one :: "'c langgraph \<Rightarrow> 'c host \<Rightarrow> ('c, unit) script" where
  "part_one lg h = (let env = part_env h ''part1.db'' in
     (mseq (section_title (''PART 1 -- full lifecycle via the CLI''))
     (mseq (note_lines [''Database: a fresh temp file ($OFFBOARDING_DB_PATH), same as any real deployment.''])
     (mseq (print_lines [[]])
     (mseq (note_lines [''1. Start a run. Fetches the HR record, generates a checklist with the LLM,'',
       ''   and pauses at the first interrupt: HR approval before the high-risk step.''])
     (mseq (run_command lg h [''start'', ''emp-001''] env)
     (mbind (newest_run_id lg h env) (\<lambda>rid.
     (mseq (print_lines [[]])
     (mseq (note_lines [''2. Inspect it. The trace shows every step so far, including the pause itself.''])
     (mseq (run_command lg h [''trace'', rid] env)
     (mseq (print_lines [[]])
     (mseq (note_lines [''3. A duplicate/out-of-order request is refused before it ever reaches the'',
       ''   graph -- this is the state check in RunService, not the ledger; we have'',
       ''   not approved yet, so signing is not a valid operation on this run.''])
     (mseq (run_command lg h [''sign'', rid, ''--document-id'', ''doc_too_early''] env)
     (mseq (print_lines [[]])
     (mseq (note_lines [''4. Approve. This revokes access and sends the exit paperwork -- the two'',
       ''   side-effecting steps -- then pauses again waiting for the signed document.''])
     (mseq (run_command lg h [''approve'', rid, ''--approver'', ''priya.raman'', ''--note'', ''Confirmed, last day 9/30.''] env)
     (mseq (print_lines [[]])
     (mseq (note_lines [''5. Sign. Note the PID above and the PID below: every command in this'',
       ''   script -- start, trace, approve, sign -- runs as its own OS process.'',
       ''   Nothing about run '' @ rid @ '' lived in memory between any of them; every'',
       ''   fact RunService needed came back from $OFFBOARDING_DB_PATH alone.''])
     (mseq (run_command lg h [''sign'', rid, ''--document-id'', ''doc_final_signed''] env)
     (mseq (print_lines [[]])
     (mseq (note_lines [''6. Full trace. Attempt #2 on both pause gates (interrupt() re-runs the'',
       ''   node from the top on every resume) -- but the side-effecting steps'',
       ''   below them still show exactly ONE completed attempt each.''])
     (mseq (run_command lg h [''trace'', rid] env)
     (mseq (print_lines [[]])
     (mseq (note_lines [''7. The idempotency ledger: one row per side effect, each fired exactly'',
       ''   once, regardless of which process was alive when it happened.''])
     (mseq (run_command lg h [''side-effects'', rid] env) (ret ())))))))))))))))))))))))))))"

definition part_two :: "'c langgraph \<Rightarrow> 'c host \<Rightarrow> ('c, unit) script" where
  "part_two lg h = (let env = part_env h ''part2.db'' in
     (mseq (section_title (''PART 2 -- kill a real process, restart, resume''))
     (mseq (note_lines [''A fresh CLI command starts and exits before you could interrupt it -- there'',
       ''is no PID worth killing mid-flight. The API server is the one long-running'',
       ''process here, so that'' @ [apostrophe] @ ''s what actually dies below.''])
     (mseq (print_lines [[]])
     (mseq (note_lines [''Starting the API server in the background.''])
     (mbind (start_server h env) (\<lambda>old_pid.
     (mseq (print_lines [[]])
     (mseq (note_lines [''Starting a run on it.''])
     (mseq (print_lines [''$ POST /runs {'' @ [quote] @ ''employee_id'' @ [quote] @ '': '' @ [quote] @ ''emp-002'' @ [quote] @ ''}''])
     (mbind (http_post lg h ''/runs'' (PDict [(''employee_id'', PStr ''emp-002'')])) (\<lambda>resp.
     (mseq (print_lines (text_lines (dumps_indent 0 resp)))
     (mbind (get_item resp ''run_id'') (\<lambda>rid.
     (mseq (print_lines [[]])
     (mseq (print_lines [''$ kill -9 '' @ show_int old_pid @ ''   # Popen.kill(): SIGKILL on POSIX, TerminateProcess on Windows''])
     (mseq (kill_server)
     (mseq (print_lines [''$ GET /''])
     (mseq (confirm_dead)
     (mseq (print_lines [[]])
     (mseq (note_lines [''A brand-new server process, same database file, different PID.''])
     (mbind (start_server h env) (\<lambda>new_pid.
     (mseq (print_lines [''  (was '' @ show_int old_pid @ '' before the kill; genuinely different)''])
     (mseq (print_lines [[]])
     (mseq (print_lines [''$ GET /runs/'' @ str_val rid])
     (mbind (http_get lg h (''/runs/'' @ str_val rid)) (\<lambda>seen.
     (mbind (get_item seen ''status'') (\<lambda>st.
     (mbind (get_or_none seen ''pause_reason'') (\<lambda>why.
     (mseq (print_lines [''  the new process sees it: status='' @ repr_val st @ '' pause_reason='' @ repr_val why])
     (mseq (print_lines [[]])
     (mseq (note_lines [''Finish it, on the process that did not start it.''])
     (mseq (print_lines [''$ POST /runs/'' @ str_val rid @ ''/approve {'' @ [quote] @ ''approver'' @ [quote] @ '': '' @ [quote] @ ''aisha.bakr'' @ [quote] @ ''}''])
     (mbind (http_post lg h (''/runs/'' @ str_val rid @ ''/approve'') (PDict [(''approver'', PStr ''aisha.bakr'')])) (\<lambda>_.
     (mseq (print_lines [''$ POST /runs/'' @ str_val rid @ ''/sign {'' @ [quote] @ ''document_id'' @ [quote] @ '': '' @ [quote] @ ''doc_killed_and_restarted'' @ [quote] @ ''}''])
     (mbind (http_post lg h (''/runs/'' @ str_val rid @ ''/sign'') (PDict [(''document_id'', PStr ''doc_killed_and_restarted'')])) (\<lambda>final.
     (mbind (get_item final ''status'') (\<lambda>st.
     (mseq (print_lines [''  final status: '' @ str_val st])
     (kill_server))))))))))))))))))))))))))))))))))))))))))))))"

definition part_three :: "'c langgraph \<Rightarrow> 'c host \<Rightarrow> ('c, unit) script" where
  "part_three lg h = (let env = (part_env h ''part3.db'')(''OFFBOARDING_IAM_FAIL_TIMES'' \<mapsto> ''2'') in
     (mseq (section_title (''PART 3 -- retry-then-succeed, no code change''))
     (mseq (note_lines [''Make the IAM tool fail transiently twice before succeeding.''])
     (mseq (print_lines [(if windows h then ''$ set '' else ''$ export '') @ ''OFFBOARDING_IAM_FAIL_TIMES=2''])
     (mseq (print_lines [[]])
     (mseq (run_command lg h [''start'', ''emp-003''] env)
     (mbind (newest_run_id lg h env) (\<lambda>rid.
     (mseq (run_command lg h [''approve'', rid, ''--approver'', ''tom.becker''] env)
     (mseq (print_lines [[]])
     (mseq (note_lines [''Attempts 1-2 fail transiently and are retried with backoff; attempt 3'',
       ''succeeds. Same idempotency key throughout -- one ledger row, not three.''])
     (mbind (run_command lg h [''trace'', rid] env) (\<lambda>(code, trace_out).
     (mseq (print_lines [''(revoke_access rows only, from the trace above:)''])
     (print_lines (filter (\<lambda>line. contains ''revoke_access'' line) (splitlines trace_out)))))))))))))))))"

definition main :: "'c langgraph \<Rightarrow> 'c host \<Rightarrow> ('c, unit) script" where
  "main lg h =
     (if \<not> executable_exists h
      then mseq (modify (\<lambda>s. s\<lparr>stderr := stderr s @ [''error: '' @ venv_bin h ''offboarding'' @ '' not found. Run `pip install -e '' @
              [quote] @ ''.[dev]'' @ [quote] @ ''` from '' @ repo_root h @ '' first.'']\<rparr>))
           (raise (System_Exit 1))
      else mseq (part_one lg h) (mseq (part_two lg h) (part_three lg h)))"

text \<open>The script from its start in a fresh temporary directory to the handler registered with \<open>atexit\<close>.\<close>

definition demo_script :: "'c langgraph \<Rightarrow> 'c host \<Rightarrow> (demo_error + unit) \<times> 'c demo" where
  "demo_script lg h =
     (case mbind (PORT h) (\<lambda>port. main lg h) \<lparr>stdout = [], stderr = [], files = new_file h, spawned = 0, server = None\<rparr> of
        (r, s) \<Rightarrow> (r, cleanup h s))"

end
