(* ===== verification/Demo_Transcript.thy ===== *)
theory Demo_Transcript
  imports Demo
begin

text \<open>
  The demonstration script on the host it was recorded on prints its recorded transcript: the model
  evaluated from the command line and the HTTP requests down to the tables, against
  \<open>docs/demo-transcript.txt\<close>.
\<close>

section \<open>The recorded run\<close>

text \<open>\<open>docs/demo-transcript.txt\<close>, line by line.\<close>

definition TRANSCRIPT_ONE :: "string list" where
  "TRANSCRIPT_ONE =
    [[],
     ''================================================================'',
     ''# PART 1 -- full lifecycle via the CLI'',
     ''================================================================'',
     [],
     ''# Database: a fresh temp file ($OFFBOARDING_DB_PATH), same as any real deployment.'',
     [],
     ''# 1. Start a run. Fetches the HR record, generates a checklist with the LLM,'',
     ''#    and pauses at the first interrupt: HR approval before the high-risk step.'',
     ''$ offboarding start emp-001'',
     ''  (pid: 153641)'',
     ''run_id       run_96c423523e33'',
     ''employee_id  emp-001'',
     ''status       paused'',
     ''paused_for   hr_approval'',
     ''steps        3/20'',
     ''tool_calls   1/30'',
     [],
     ''# 2. Inspect it. The trace shows every step so far, including the pause itself.'',
     ''$ offboarding trace run_96c423523e33'',
     ''  (pid: 153670)'',
     ''#1  fetch_employee           completed  tool=hr_directory.get_employee'',
     ''#1  plan_deprovisioning      completed  tool=llm:fake'',
     ''#1  await_hr_approval        paused  pause=hr_approval'',
     [],
     ''# 3. A duplicate/out-of-order request is refused before it ever reaches the'',
     ''#    graph -- this is the state check in RunService, not the ledger; we have'',
     ''#    not approved yet, so signing is not a valid operation on this run.'',
     ''$ offboarding sign run_96c423523e33 --document-id doc_too_early'',
     ''  (pid: 153672)'',
     ''error: run run_96c423523e33 is paused (hr_approval), not paused for signed_document'',
     ''  (exit code: 1)'',
     [],
     ''# 4. Approve. This revokes access and sends the exit paperwork -- the two'',
     ''#    side-effecting steps -- then pauses again waiting for the signed document.'',
     ''$ offboarding approve run_96c423523e33 --approver priya.raman --note '' @ [apostrophe] @ ''Confirmed, last day 9/30.'' @ [apostrophe],
     ''  (pid: 153673)'',
     ''run_id       run_96c423523e33'',
     ''employee_id  emp-001'',
     ''status       paused'',
     ''paused_for   signed_document'',
     ''steps        7/20'',
     ''tool_calls   3/30'',
     [],
     ''# 5. Sign. Note the PID above and the PID below: every command in this'',
     ''#    script -- start, trace, approve, sign -- runs as its own OS process.'',
     ''#    Nothing about run run_96c423523e33 lived in memory between any of them; every'',
     ''#    fact RunService needed came back from $OFFBOARDING_DB_PATH alone.'',
     ''$ offboarding sign run_96c423523e33 --document-id doc_final_signed'',
     ''  (pid: 153679)'',
     ''run_id       run_96c423523e33'',
     ''employee_id  emp-001'',
     ''status       completed'',
     ''steps        9/20'',
     ''tool_calls   4/30'',
     [],
     ''# 6. Full trace. Attempt #2 on both pause gates (interrupt() re-runs the'',
     ''#    node from the top on every resume) -- but the side-effecting steps'',
     ''#    below them still show exactly ONE completed attempt each.'',
     ''$ offboarding trace run_96c423523e33'',
     ''  (pid: 153682)'',
     ''#1  fetch_employee           completed  tool=hr_directory.get_employee'',
     ''#1  plan_deprovisioning      completed  tool=llm:fake'',
     ''#1  await_hr_approval        paused  pause=hr_approval'',
     ''#2  await_hr_approval        completed'',
     ''#1  revoke_access            completed  tool=iam.revoke_access'',
     ''#1  send_exit_paperwork      completed  tool=documents.send_exit_paperwork'',
     ''#1  await_signed_document    paused  pause=signed_document'',
     ''#2  await_signed_document    completed'',
     ''#1  finalize                 completed  tool=documents.archive_record'',
     [],
     ''# 7. The idempotency ledger: one row per side effect, each fired exactly'',
     ''#    once, regardless of which process was alive when it happened.'',
     ''$ offboarding side-effects run_96c423523e33'',
     ''  (pid: 153683)'',
     ''revoke_access            completed    key=run_96c423523e33:revoke_access:revoke_all_systems'',
     ''send_exit_paperwork      completed    key=run_96c423523e33:send_exit_paperwork:send_packet'',
     ''finalize                 completed    key=run_96c423523e33:finalize:archive'']"

definition TRANSCRIPT_TWO :: "string list" where
  "TRANSCRIPT_TWO =
    [[],
     ''================================================================'',
     ''# PART 2 -- kill a real process, restart, resume'',
     ''================================================================'',
     [],
     ''# A fresh CLI command starts and exits before you could interrupt it -- there'',
     ''# is no PID worth killing mid-flight. The API server is the one long-running'',
     ''# process here, so that'' @ [apostrophe] @ ''s what actually dies below.'',
     [],
     ''# Starting the API server in the background.'',
     ''$ uvicorn offboarding.api.main:app --port 8799'',
     ''  (pid: 153684)'',
     [],
     ''# Starting a run on it.'',
     ''$ POST /runs {'' @ [quote] @ ''employee_id'' @ [quote] @ '': '' @ [quote] @ ''emp-002'' @ [quote] @ ''}'',
     ''{'',
     ''    '' @ [quote] @ ''run_id'' @ [quote] @ '': '' @ [quote] @ ''run_4a4f13bbf0f1'' @ [quote] @ '','',
     ''    '' @ [quote] @ ''thread_id'' @ [quote] @ '': '' @ [quote] @ ''thread_run_4a4f13bbf0f1'' @ [quote] @ '','',
     ''    '' @ [quote] @ ''employee_id'' @ [quote] @ '': '' @ [quote] @ ''emp-002'' @ [quote] @ '','',
     ''    '' @ [quote] @ ''status'' @ [quote] @ '': '' @ [quote] @ ''paused'' @ [quote] @ '','',
     ''    '' @ [quote] @ ''created_at'' @ [quote] @ '': '' @ [quote] @ ''2026-09-16T18:54:24.542637Z'' @ [quote] @ '','',
     ''    '' @ [quote] @ ''updated_at'' @ [quote] @ '': '' @ [quote] @ ''2026-09-16T18:54:24.596517Z'' @ [quote] @ '','',
     ''    '' @ [quote] @ ''pause_reason'' @ [quote] @ '': '' @ [quote] @ ''hr_approval'' @ [quote] @ '','',
     ''    '' @ [quote] @ ''failure_reason'' @ [quote] @ '': null,'',
     ''    '' @ [quote] @ ''failure_detail'' @ [quote] @ '': null,'',
     ''    '' @ [quote] @ ''cancel_requested'' @ [quote] @ '': false,'',
     ''    '' @ [quote] @ ''step_count'' @ [quote] @ '': 3,'',
     ''    '' @ [quote] @ ''tool_call_count'' @ [quote] @ '': 1,'',
     ''    '' @ [quote] @ ''max_steps'' @ [quote] @ '': 20,'',
     ''    '' @ [quote] @ ''max_tool_calls'' @ [quote] @ '': 30'',
     ''}'',
     [],
     ''$ kill -9 153684   # Popen.kill(): SIGKILL on POSIX, TerminateProcess on Windows'',
     ''$ GET /'',
     ''  connection refused (confirmed dead, this is not a simulation)'',
     [],
     ''# A brand-new server process, same database file, different PID.'',
     ''$ uvicorn offboarding.api.main:app --port 8799'',
     ''  (pid: 153689)'',
     ''  (was 153684 before the kill; genuinely different)'',
     [],
     ''$ GET /runs/run_4a4f13bbf0f1'',
     ''  the new process sees it: status='' @ [apostrophe] @ ''paused'' @ [apostrophe] @ '' pause_reason='' @ [apostrophe] @ ''hr_approval'' @ [apostrophe],
     [],
     ''# Finish it, on the process that did not start it.'',
     ''$ POST /runs/run_4a4f13bbf0f1/approve {'' @ [quote] @ ''approver'' @ [quote] @ '': '' @ [quote] @ ''aisha.bakr'' @ [quote] @ ''}'',
     ''$ POST /runs/run_4a4f13bbf0f1/sign {'' @ [quote] @ ''document_id'' @ [quote] @ '': '' @ [quote] @ ''doc_killed_and_restarted'' @ [quote] @ ''}'',
     ''  final status: completed'']"

definition TRANSCRIPT_THREE :: "string list" where
  "TRANSCRIPT_THREE =
    [[],
     ''================================================================'',
     ''# PART 3 -- retry-then-succeed, no code change'',
     ''================================================================'',
     [],
     ''# Make the IAM tool fail transiently twice before succeeding.'',
     ''$ export OFFBOARDING_IAM_FAIL_TIMES=2'',
     [],
     ''$ offboarding start emp-003'',
     ''  (pid: 153703)'',
     ''run_id       run_75ea0d8e7a75'',
     ''employee_id  emp-003'',
     ''status       paused'',
     ''paused_for   hr_approval'',
     ''steps        3/20'',
     ''tool_calls   1/30'',
     ''$ offboarding approve run_75ea0d8e7a75 --approver tom.becker'',
     ''  (pid: 153708)'',
     ''run_id       run_75ea0d8e7a75'',
     ''employee_id  emp-003'',
     ''status       paused'',
     ''paused_for   signed_document'',
     ''steps        7/20'',
     ''tool_calls   5/30'',
     [],
     ''# Attempts 1-2 fail transiently and are retried with backoff; attempt 3'',
     ''# succeeds. Same idempotency key throughout -- one ledger row, not three.'',
     ''$ offboarding trace run_75ea0d8e7a75'',
     ''  (pid: 153711)'',
     ''#1  fetch_employee           completed  tool=hr_directory.get_employee'',
     ''#1  plan_deprovisioning      completed  tool=llm:fake'',
     ''#1  await_hr_approval        paused  pause=hr_approval'',
     ''#2  await_hr_approval        completed'',
     ''#1  revoke_access            failed  tool=iam.revoke_access  error=TransientToolError: iam gateway returned 503 (service unavailable)'',
     ''#2  revoke_access            failed  tool=iam.revoke_access  error=TransientToolError: iam gateway returned 503 (service unavailable)'',
     ''#3  revoke_access            completed  tool=iam.revoke_access'',
     ''#1  send_exit_paperwork      completed  tool=documents.send_exit_paperwork'',
     ''#1  await_signed_document    paused  pause=signed_document'',
     ''(revoke_access rows only, from the trace above:)'',
     ''#1  revoke_access            failed  tool=iam.revoke_access  error=TransientToolError: iam gateway returned 503 (service unavailable)'',
     ''#2  revoke_access            failed  tool=iam.revoke_access  error=TransientToolError: iam gateway returned 503 (service unavailable)'',
     ''#3  revoke_access            completed  tool=iam.revoke_access'']"

text \<open>
  A host on which it was recorded: its process numbers, run ids and clock, and the command lines and
  paths the script uses read as typer and FastAPI read them.
\<close>

definition recorded_typer :: "string list \<Rightarrow> process_result + command" where
  "recorded_typer args = (case args of
     [c] \<Rightarrow> if c = ''list'' then Inr (CList None) else Inl \<lparr>exit_code = 2, out_lines = [], err_lines = []\<rparr>
   | [c, x] \<Rightarrow> if c = ''start'' then Inr (CStart x None None) else if c = ''trace'' then Inr (CTrace x)
       else if c = ''side-effects'' then Inr (CSideEffects x) else Inl \<lparr>exit_code = 2, out_lines = [], err_lines = []\<rparr>
   | [c, x, opt, v] \<Rightarrow> if c = ''sign'' \<and> opt = ''--document-id'' then Inr (CSign x v None)
       else if c = ''approve'' \<and> opt = ''--approver'' then Inr (CApprove x v None)
       else Inl \<lparr>exit_code = 2, out_lines = [], err_lines = []\<rparr>
   | [c, x, opt, v, opt', v'] \<Rightarrow> if c = ''approve'' \<and> opt = ''--approver'' \<and> opt' = ''--note'' then Inr (CApprove x v (Some v'))
       else Inl \<lparr>exit_code = 2, out_lines = [], err_lines = []\<rparr>
   | _ \<Rightarrow> Inl \<lparr>exit_code = 2, out_lines = [], err_lines = []\<rparr>)"

definition field :: "pyval \<Rightarrow> string \<Rightarrow> string option" where
  "field v k = (case v of PDict d \<Rightarrow> (case map_of d k of Some (PStr s) \<Rightarrow> Some s | _ \<Rightarrow> None) | _ \<Rightarrow> None)"

definition recorded_route :: "string \<Rightarrow> string \<Rightarrow> string option \<Rightarrow> int + api_call" where
  "recorded_route verb path data =
     (case (tl (lines_by (\<lambda>c. c = CHR ''/'') path), Option.bind data loads) of
        ([a], Some b) \<Rightarrow> (case field b ''employee_id'' of
            Some emp \<Rightarrow> if verb = ''POST'' \<and> a = ''runs'' then Inr (PostRun \<lparr>sb_employee = emp, sb_max_steps = None, sb_max_tool_calls = None\<rparr>) else Inl 404
          | None \<Rightarrow> Inl 422)
      | ([a, rid], None) \<Rightarrow> if verb = ''GET'' \<and> a = ''runs'' then Inr (ShowRun rid) else Inl 404
      | ([a, rid, act], Some b) \<Rightarrow>
          if verb = ''POST'' \<and> a = ''runs'' \<and> act = ''approve'' then (case field b ''approver'' of
            Some who \<Rightarrow> Inr (PostApprove rid \<lparr>ab_approver = who, ab_note = field b ''note''\<rparr>) | None \<Rightarrow> Inl 422)
          else if verb = ''POST'' \<and> a = ''runs'' \<and> act = ''sign'' then (case field b ''document_id'' of
            Some doc \<Rightarrow> Inr (PostSign rid \<lparr>gb_document = doc, gb_signed_at = field b ''signed_at''\<rparr>) | None \<Rightarrow> Inl 422)
          else Inl 404
      | _ \<Rightarrow> Inl 404)"

definition opt_value :: "string option \<Rightarrow> pyval" where
  "opt_value v = (case v of None \<Rightarrow> PNone | Some s \<Rightarrow> PStr s)"

definition recorded_time :: "ts \<Rightarrow> string" where
  "recorded_time t = (if t = 0 then ''2026-09-16T18:54:24.542637Z'' else ''2026-09-16T18:54:24.596517Z'')"

definition recorded_json :: "body \<Rightarrow> pyval" where
  "recorded_json b = (case b of RunBody r \<Rightarrow> PDict [
       (''run_id'', PStr (run_id r)), (''thread_id'', PStr (thread_id r)), (''employee_id'', PStr (employee_id r)),
       (''status'', PStr (run_status_value (status r))), (''created_at'', PStr (recorded_time (created_at r))),
       (''updated_at'', PStr (recorded_time (updated_at r))), (''pause_reason'', opt_value (map_option pause_value (pause_reason r))),
       (''failure_reason'', opt_value (map_option failure_value (failure_reason r))), (''failure_detail'', opt_value (failure_detail r)),
       (''cancel_requested'', PBool (cancel_requested r)), (''step_count'', PInt (step_count r)),
       (''tool_call_count'', PInt (tool_call_count r)), (''max_steps'', PInt (max_steps r)), (''max_tool_calls'', PInt (max_tool_calls r))]
   | _ \<Rightarrow> PNone)"

text \<open>Numbers in binary, for the evaluation: the decimal digits of an \<open>int\<close>, and \<open>int()\<close> on digits.\<close>

function int_digits :: "int \<Rightarrow> string" where
  "int_digits i = (if i < 10 then [char_of (48 + nat i)] else int_digits (i div 10) @ [char_of (48 + nat (i mod 10))])"
  by auto
termination by (relation "measure nat") auto

declare int_digits.simps [simp del]

lemma int_digits_show: "0 \<le> i \<Longrightarrow> int_digits i = show_digits (nat i)"
proof (induction i rule: int_digits.induct)
  case (1 i)
  then show ?case
    by (subst int_digits.simps, subst show_digits.simps) (auto simp: nat_div_distrib nat_mod_distrib nat_less_iff)
qed

lemma show_int_code [code]: "show_int i = (if i < 0 then ''-'' @ int_digits (- i) else int_digits i)"
  by (simp add: show_int_def int_digits_show)

definition recorded_int :: "string \<Rightarrow> exc + int" where
  "recorded_int s = Inr (foldl (\<lambda>n c. 10 * n + (of_char c - 48)) 0 s)"

definition recorded_ids :: "string \<Rightarrow> nat \<Rightarrow> string" where
  "recorded_ids path n = (if contains ''part1'' path then ''96c423523e33'' else if contains ''part2'' path then ''4a4f13bbf0f1'' else ''75ea0d8e7a75'')"

definition recorded_host :: "(string \<Rightarrow> checkpoint option) host" where
  "recorded_host = \<lparr>windows = False, repo_root = ''/srv/offboarding'', executable_exists = True, temp_dir = ''/tmp/demo'',
     os_environ = (\<lambda>name. None), to_int = recorded_int,
     pid = (\<lambda>n. [153641, 0, 153670, 153672, 153673, 153679, 153682, 153683, 153684, 153689, 153703, 0, 153708, 153711] ! n),
     comes_up = True, new_file = (\<lambda>path. (empty_world (\<lambda>n. n) (recorded_ids path), no_threads)),
     wired = (\<lambda>env. build_services forgetful_sdk documented_pydantic documented_tenacity (\<lambda>t. show_int (int t))
       recorded_int env None None 0 False),
     parse_command = recorded_typer,
     traceback = (\<lambda>e. \<lparr>exit_code = 1, out_lines = [], err_lines = [''Traceback (most recent call last):'']\<rparr>),
     route = recorded_route, render = (\<lambda>b. dumps (recorded_json b))\<rparr>"

section \<open>The script step by step\<close>

definition transcribed :: "'c host \<Rightarrow> nat \<Rightarrow> string list \<Rightarrow> process_result \<Rightarrow> string list" where
  "transcribed h n args p = [''$ '' @ display_cmd h (''offboarding'' # args), ''  (pid: '' @ show_int (pid h n) @ '')'']
     @ text_lines (output_text (out_lines p @ err_lines p))
     @ (if exit_code p \<noteq> 0 then [''  (exit code: '' @ show_int (exit_code p) @ '')''] else [])"

lemma run_command_apply: "run_command lg h args env s =
    (case process lg h env args (files s (resolve_db_path env None)) of (p, f) \<Rightarrow>
      (Inr (exit_code p, output_text (out_lines p @ err_lines p)),
       s\<lparr>stdout := stdout s @ transcribed h (spawned s) args p, files := (files s)(resolve_db_path env None := f), spawned := Suc (spawned s)\<rparr>))"
  by (simp add: run_command_def child_def spawn_def print_lines_def eff_apply transcribed_def Let_def split: prod.splits)

lemma newest_run_id_apply: "newest_run_id lg h env s =
    (case process lg h env [''list''] (files s (resolve_db_path env None)) of (p, f) \<Rightarrow>
      (if exit_code p \<noteq> 0 then Inl (Called_Process_Error (exit_code p))
       else (case latest_run_id (stdout_text p) of None \<Rightarrow> Inl Lookup_Error | Some rid \<Rightarrow> Inr rid),
       s\<lparr>files := (files s)(resolve_db_path env None := f), spawned := Suc (spawned s)\<rparr>))"
  by (auto simp: newest_run_id_def child_def spawn_def eff_apply Let_def split: prod.splits option.splits)

lemma print_lines_apply: "print_lines ls s = (Inr (), s\<lparr>stdout := stdout s @ ls\<rparr>)"
  by (simp add: print_lines_def)

lemmas printing = print_lines_apply section_title_def note_lines_def

text \<open>A sequence of commands on one file, each in its process.\<close>

fun session :: "'c langgraph \<Rightarrow> 'c host \<Rightarrow> environ \<Rightarrow> string list list \<Rightarrow> world \<times> 'c \<Rightarrow> process_result list" where
  "session lg h env [] f = []"
| "session lg h env (args # rest) f = (case process lg h env args f of (p, f') \<Rightarrow> p # session lg h env rest f')"

lemma session_Cons_iff:
  "session lg h env (args # rest) f = p # ps \<longleftrightarrow> (\<exists>f'. process lg h env args f = (p, f') \<and> session lg h env rest f' = ps)"
  by (auto split: prod.splits)

lemma session_Nil_iff: "session lg h env [] f = ps \<longleftrightarrow> ps = []"
  by auto

lemma length_session [simp]: "length (session lg h env cs f) = length cs"
  by (induction lg h env cs f rule: session.induct) (auto split: prod.splits)

declare session.simps [simp del]

definition slice :: "nat \<Rightarrow> nat \<Rightarrow> string list \<Rightarrow> string list" where
  "slice i n ls = take n (drop i ls)"

section \<open>Part one\<close>

definition ENV_ONE :: environ where "ENV_ONE = part_env recorded_host ''part1.db''"
definition FILE_ONE :: string where "FILE_ONE = resolve_db_path ENV_ONE None"
definition RUN_ONE :: string where "RUN_ONE = ''run_96c423523e33''"

definition COMMANDS_ONE :: "string list list" where
  "COMMANDS_ONE = [[''start'', ''emp-001''], [''list''], [''trace'', RUN_ONE], [''sign'', RUN_ONE, ''--document-id'', ''doc_too_early''],
     [''approve'', RUN_ONE, ''--approver'', ''priya.raman'', ''--note'', ''Confirmed, last day 9/30.''],
     [''sign'', RUN_ONE, ''--document-id'', ''doc_final_signed''], [''trace'', RUN_ONE], [''side-effects'', RUN_ONE]]"

definition pages :: "'c host \<Rightarrow> nat \<Rightarrow> string list list \<Rightarrow> process_result list \<Rightarrow> string list list \<times> (int \<times> string option)" where
  "pages h n cs ps = (map (\<lambda>(i, c, p). transcribed h i c p) (filter (\<lambda>(i, c, p). c \<noteq> [''list'']) (zip [n..<n + length cs] (zip cs ps))),
     (exit_code (ps ! 1), latest_run_id (stdout_text (ps ! 1))))"

lemma printed_eq:
  assumes "ls = ls'" and "n = n'"
  shows "s\<lparr>stdout := stdout s @ ls, files := fs, spawned := n\<rparr> = s\<lparr>stdout := stdout s @ ls', files := fs, spawned := n'\<rparr>"
    and "s\<lparr>files := fs, spawned := n, stdout := stdout s @ ls\<rparr> = s\<lparr>stdout := stdout s @ ls', files := fs, spawned := n'\<rparr>"
    and "s\<lparr>spawned := n, files := fs, stdout := stdout s @ ls, server := u\<rparr> =
      s\<lparr>stdout := stdout s @ ls', files := fs, spawned := n', server := u\<rparr>"
  using assms by simp_all

lemma recorded_host_simps [simp]: "windows recorded_host = False" "route recorded_host = recorded_route"
  "render recorded_host b = dumps (recorded_json b)" "comes_up recorded_host"
  "to_int recorded_host = recorded_int" "os_environ recorded_host = (\<lambda>name. None)"
  by (simp_all add: recorded_host_def)

lemma session_one: "pages recorded_host 0 COMMANDS_ONE (session linear_engine recorded_host ENV_ONE COMMANDS_ONE (new_file recorded_host FILE_ONE))
  = ([slice 9 8 TRANSCRIPT_ONE, slice 19 5 TRANSCRIPT_ONE, slice 28 4 TRANSCRIPT_ONE, slice 35 8 TRANSCRIPT_ONE,
      slice 48 7 TRANSCRIPT_ONE, slice 59 11 TRANSCRIPT_ONE, slice 73 5 TRANSCRIPT_ONE], (0, Some RUN_ONE))"
  by code_simp

lemma file_one: "resolve_db_path ENV_ONE None = FILE_ONE"
  by (simp add: FILE_ONE_def)

lemma part_one_recorded:
  assumes "spawned s = 0" and "files s FILE_ONE = new_file recorded_host FILE_ONE"
  shows "\<exists>f. part_one linear_engine recorded_host s =
    (Inr (), s\<lparr>stdout := stdout s @ TRANSCRIPT_ONE, files := (files s)(FILE_ONE := f), spawned := 8\<rparr>)"
proof -
  let ?run = "process linear_engine recorded_host ENV_ONE"
  let ?S = "session linear_engine recorded_host ENV_ONE COMMANDS_ONE (new_file recorded_host FILE_ONE)"
  have "length ?S = 8" by (simp add: COMMANDS_ONE_def)
  then obtain p0 p1 p2 p3 p4 p5 p6 p7 where ps: "?S = [p0, p1, p2, p3, p4, p5, p6, p7]"
    by (auto simp: numeral_eq_Suc length_Suc_conv simp del: length_session)
  then obtain f1 f2 f3 f4 f5 f6 f7 f8 where runs:
    "?run [''start'', ''emp-001''] (new_file recorded_host FILE_ONE) = (p0, f1)" "?run [''list''] f1 = (p1, f2)"
    "?run [''trace'', RUN_ONE] f2 = (p2, f3)" "?run [''sign'', RUN_ONE, ''--document-id'', ''doc_too_early''] f3 = (p3, f4)"
    "?run [''approve'', RUN_ONE, ''--approver'', ''priya.raman'', ''--note'', ''Confirmed, last day 9/30.''] f4 = (p4, f5)"
    "?run [''sign'', RUN_ONE, ''--document-id'', ''doc_final_signed''] f5 = (p5, f6)"
    "?run [''trace'', RUN_ONE] f6 = (p6, f7)" "?run [''side-effects'', RUN_ONE] f7 = (p7, f8)"
    unfolding COMMANDS_ONE_def session_Cons_iff session_Nil_iff by blast
  note seen = session_one [unfolded ps, unfolded pages_def COMMANDS_ONE_def, simplified]
  have "part_one linear_engine recorded_host s =
      (Inr (), s\<lparr>stdout := stdout s @ TRANSCRIPT_ONE, files := (files s)(FILE_ONE := f8), spawned := 8\<rparr>)"
    by (simp only: part_one_def Let_def ENV_ONE_def [symmetric],
      simp add: assms seen runs mseq_apply mbind_apply run_command_apply newest_run_id_apply printing file_one,
      rule printed_eq(1), code_simp, simp)
  then show ?thesis by blast
qed
section \<open>Part two\<close>

definition ENV_TWO :: environ where "ENV_TWO = part_env recorded_host ''part2.db''"
definition FILE_TWO :: string where "FILE_TWO = resolve_db_path ENV_TWO None"
definition RUN_TWO :: string where "RUN_TWO = ''run_4a4f13bbf0f1''"

definition CALL_ONE :: api_call where
  "CALL_ONE = PostRun \<lparr>sb_employee = ''emp-002'', sb_max_steps = None, sb_max_tool_calls = None\<rparr>"

definition CALLS_TWO :: "api_call list" where
  "CALLS_TWO = [ShowRun RUN_TWO, PostApprove RUN_TWO \<lparr>ab_approver = ''aisha.bakr'', ab_note = None\<rparr>,
     PostSign RUN_TWO \<lparr>gb_document = ''doc_killed_and_restarted'', gb_signed_at = None\<rparr>]"

text \<open>The answers of one server to a sequence of calls, and what the script sees of them.\<close>

fun calls :: "'c langgraph \<Rightarrow> services py \<Rightarrow> api_call list \<Rightarrow> (world \<times> 'c) \<times> services option \<Rightarrow> (exc + response) list" where
  "calls lg wire [] st = []"
| "calls lg wire (call # rest) st = (case app_call lg wire call st of (r, st') \<Rightarrow> r # calls lg wire rest st')"

lemma calls_Cons_iff: "calls lg wire (call # rest) st = r # rs \<longleftrightarrow>
    (\<exists>st'. app_call lg wire call st = (r, st') \<and> calls lg wire rest st' = rs)"
  by (auto split: prod.splits)

lemma length_calls [simp]: "length (calls lg wire cs st) = length cs"
  by (induction lg wire cs st rule: calls.induct) (auto split: prod.splits)

declare calls.simps [simp del]

definition seen_of :: "exc + response \<Rightarrow> bool \<times> string option \<times> string option" where
  "seen_of r = (case r of Inl e \<Rightarrow> (False, None, None)
     | Inr resp \<Rightarrow> let v = recorded_json (resp_body resp) in
         (200 \<le> resp_code resp \<and> resp_code resp < 300, field v ''status'', field v ''pause_reason''))"

definition page_of :: "exc + response \<Rightarrow> string list \<times> string option" where
  "page_of r = (case r of Inl e \<Rightarrow> ([], None)
     | Inr resp \<Rightarrow> let v = recorded_json (resp_body resp) in (text_lines (dumps_indent 0 v), field v ''run_id''))"

lemma session_two:
  "(case app_call linear_engine (wired recorded_host ENV_TWO) CALL_ONE (new_file recorded_host FILE_TWO, None) of
      (r, (f, c)) \<Rightarrow> (page_of r, seen_of r, map seen_of (calls linear_engine (wired recorded_host ENV_TWO) CALLS_TWO (f, None))))
   = ((slice 15 16 TRANSCRIPT_TWO, Some RUN_TWO), (True, Some ''paused'', Some ''hr_approval''),
      [(True, Some ''paused'', Some ''hr_approval''), (True, Some ''paused'', Some ''signed_document''), (True, Some ''completed'', None)])"
  by code_simp

lemma recorded_routes:
  "recorded_route ''POST'' ''/runs'' (Some (dumps (PDict [(''employee_id'', PStr ''emp-002'')]))) = Inr CALL_ONE"
  "recorded_route ''GET'' (''/runs/'' @ RUN_TWO) None = Inr (CALLS_TWO ! 0)"
  "recorded_route ''POST'' (''/runs/'' @ RUN_TWO @ ''/approve'') (Some (dumps (PDict [(''approver'', PStr ''aisha.bakr'')]))) = Inr (CALLS_TWO ! 1)"
  "recorded_route ''POST'' (''/runs/'' @ RUN_TWO @ ''/sign'') (Some (dumps (PDict [(''document_id'', PStr ''doc_killed_and_restarted'')])))
     = Inr (CALLS_TWO ! 2)"
  by code_simp+

lemma file_two: "resolve_db_path ENV_TWO None = FILE_TWO"
  by (simp add: FILE_TWO_def)

lemma json_recorded: "loads (dumps (recorded_json b)) = Some (recorded_json b)"
proof -
  have "keyed (opt_value v)" "json_roundtrip (opt_value v) = opt_value v" for v
    by (simp_all add: opt_value_def split: option.splits)
  then have "keyed (recorded_json b)" "json_roundtrip (recorded_json b) = recorded_json b"
    by (simp_all add: recorded_json_def split: body.splits)
  then show ?thesis using loads_dumps by simp
qed

lemma field_item: "field v k = Some x \<Longrightarrow> get_item v k s = (Inr (PStr x), s)"
  "field v k = Some x \<Longrightarrow> get_or_none v k s = (Inr (PStr x), s)"
  by (auto simp: field_def get_item_def get_or_none_def py_item_def split: pyval.splits option.splits)

lemma start_server_recorded: "start_server recorded_host env s = (Inr (pid recorded_host (spawned s)),
    s\<lparr>stdout := stdout s @ [''$ uvicorn offboarding.api.main:app --port 8799'', ''  (pid: '' @ show_int (pid recorded_host (spawned s)) @ '')''],
      spawned := Suc (spawned s), server := Some (pid recorded_host (spawned s), env, None)\<rparr>)"
proof -
  have port: "recorded_int ''8799'' = Inr 8799" by code_simp
  have "display_cmd recorded_host [''uvicorn'', ''offboarding.api.main:app'', ''--port'', show_int 8799] =
      ''uvicorn offboarding.api.main:app --port 8799''"
    by code_simp
  then show ?thesis
    by (simp add: start_server_def PORT_def env_get_def port spawn_def wait_for_server_def printing mseq_apply mbind_apply)
qed

lemma seen_ofD:
  assumes "seen_of r = (True, st, why)"
  obtains resp where "r = Inr resp" "\<not> resp_code resp < 200" "\<not> 300 \<le> resp_code resp"
    "field (recorded_json (resp_body resp)) ''status'' = st" "field (recorded_json (resp_body resp)) ''pause_reason'' = why"
  using assms by (cases r) (auto simp: seen_of_def Let_def)

lemma part_two_recorded:
  assumes "spawned s = 8" and "files s FILE_TWO = new_file recorded_host FILE_TWO"
  shows "\<exists>f. part_two linear_engine recorded_host s =
    (Inr (), s\<lparr>stdout := stdout s @ TRANSCRIPT_TWO, files := (files s)(FILE_TWO := f), spawned := 10, server := None\<rparr>)"
proof -
  let ?call = "app_call linear_engine (wired recorded_host ENV_TWO)"
  obtain r1 f1 c1 where call1: "?call CALL_ONE (new_file recorded_host FILE_TWO, None) = (r1, (f1, c1))" by (metis surj_pair)
  let ?C = "calls linear_engine (wired recorded_host ENV_TWO) CALLS_TWO (f1, None)"
  have "length ?C = 3" by (simp add: CALLS_TWO_def)
  then obtain r2 r3 r4 where rs: "?C = [r2, r3, r4]"
    by (auto simp: numeral_eq_Suc length_Suc_conv simp del: length_calls)
  have calls: "CALLS_TWO = [CALLS_TWO ! 0, CALLS_TWO ! 1, CALLS_TWO ! 2]" by (simp add: CALLS_TWO_def)
  obtain f2 c2 f3 c3 f4 c4 where more: "?call (CALLS_TWO ! 0) (f1, None) = (r2, (f2, c2))"
    "?call (CALLS_TWO ! Suc 0) (f2, c2) = (r3, (f3, c3))" "?call (CALLS_TWO ! 2) (f3, c3) = (r4, (f4, c4))"
    using rs by (subst (asm) calls) (auto simp: calls_Cons_iff)
  have seen: "page_of r1 = (slice 15 16 TRANSCRIPT_TWO, Some RUN_TWO)" "seen_of r1 = (True, Some ''paused'', Some ''hr_approval'')"
    "seen_of r2 = (True, Some ''paused'', Some ''hr_approval'')" "seen_of r3 = (True, Some ''paused'', Some ''signed_document'')"
    "seen_of r4 = (True, Some ''completed'', None)"
    using session_two by (simp_all add: call1 rs)
  obtain p1 where p1: "r1 = Inr p1" "\<not> resp_code p1 < 200" "\<not> 300 \<le> resp_code p1" by (rule seen_ofD [OF seen(2)])
  obtain p2 where p2: "r2 = Inr p2" "\<not> resp_code p2 < 200" "\<not> 300 \<le> resp_code p2"
    "field (recorded_json (resp_body p2)) ''status'' = Some ''paused''"
    "field (recorded_json (resp_body p2)) ''pause_reason'' = Some ''hr_approval''"
    by (rule seen_ofD [OF seen(3)])
  obtain p3 where p3: "r3 = Inr p3" "\<not> resp_code p3 < 200" "\<not> 300 \<le> resp_code p3" by (rule seen_ofD [OF seen(4)])
  obtain p4 where p4: "r4 = Inr p4" "\<not> resp_code p4 < 200" "\<not> 300 \<le> resp_code p4"
    "field (recorded_json (resp_body p4)) ''status'' = Some ''completed''"
    by (rule seen_ofD [OF seen(5)])
  have page: "text_lines (dumps_indent 0 (recorded_json (resp_body p1))) = slice 15 16 TRANSCRIPT_TWO"
    "field (recorded_json (resp_body p1)) ''run_id'' = Some RUN_TWO"
    using seen(1) p1(1) by (simp_all add: page_of_def Let_def)
  have "part_two linear_engine recorded_host s =
      (Inr (), s\<lparr>stdout := stdout s @ TRANSCRIPT_TWO, files := (files s)(FILE_TWO := f4), spawned := 10, server := None\<rparr>)"
    by (simp only: part_two_def Let_def ENV_TWO_def [symmetric],
      simp add: assms printing mseq_apply mbind_apply start_server_recorded kill_server_def confirm_dead_def
        http_post_def http_get_def answer_def exchange_def recorded_routes [simplified append.simps] json_recorded file_two call1 more p1 p2 p3 p4 page field_item
        del: dumps.simps,
      rule printed_eq(3), code_simp, simp)
  then show ?thesis by blast
qed

section \<open>Part three\<close>

definition ENV_THREE :: environ where
  "ENV_THREE = (part_env recorded_host ''part3.db'')(''OFFBOARDING_IAM_FAIL_TIMES'' \<mapsto> ''2'')"
definition FILE_THREE :: string where "FILE_THREE = resolve_db_path ENV_THREE None"
definition RUN_THREE :: string where "RUN_THREE = ''run_75ea0d8e7a75''"

definition COMMANDS_THREE :: "string list list" where
  "COMMANDS_THREE = [[''start'', ''emp-003''], [''list''], [''approve'', RUN_THREE, ''--approver'', ''tom.becker''], [''trace'', RUN_THREE]]"

definition revocations :: "process_result \<Rightarrow> string list" where
  "revocations p = filter (\<lambda>line. contains ''revoke_access'' line) (splitlines (output_text (out_lines p @ err_lines p)))"

lemma session_three: "(let ps = session linear_engine recorded_host ENV_THREE COMMANDS_THREE (new_file recorded_host FILE_THREE)
    in (pages recorded_host 10 COMMANDS_THREE ps, revocations (ps ! 3)))
  = (([slice 8 8 TRANSCRIPT_THREE, slice 16 8 TRANSCRIPT_THREE, slice 27 11 TRANSCRIPT_THREE], (0, Some RUN_THREE)),
     slice 39 3 TRANSCRIPT_THREE)"
  by code_simp

lemma file_three: "resolve_db_path ENV_THREE None = FILE_THREE"
  by (simp add: FILE_THREE_def)

lemma part_three_recorded:
  assumes "spawned s = 10" and "files s FILE_THREE = new_file recorded_host FILE_THREE"
  shows "\<exists>f. part_three linear_engine recorded_host s =
    (Inr (), s\<lparr>stdout := stdout s @ TRANSCRIPT_THREE, files := (files s)(FILE_THREE := f), spawned := 14\<rparr>)"
proof -
  let ?run = "process linear_engine recorded_host ENV_THREE"
  let ?S = "session linear_engine recorded_host ENV_THREE COMMANDS_THREE (new_file recorded_host FILE_THREE)"
  have "length ?S = 4" by (simp add: COMMANDS_THREE_def)
  then obtain p0 p1 p2 p3 where ps: "?S = [p0, p1, p2, p3]"
    by (auto simp: numeral_eq_Suc length_Suc_conv simp del: length_session)
  then obtain f1 f2 f3 f4 where runs:
    "?run [''start'', ''emp-003''] (new_file recorded_host FILE_THREE) = (p0, f1)" "?run [''list''] f1 = (p1, f2)"
    "?run [''approve'', RUN_THREE, ''--approver'', ''tom.becker''] f2 = (p2, f3)" "?run [''trace'', RUN_THREE] f3 = (p3, f4)"
    unfolding COMMANDS_THREE_def session_Cons_iff session_Nil_iff by blast
  note seen = session_three [unfolded ps Let_def, unfolded pages_def COMMANDS_THREE_def, simplified]
  have "part_three linear_engine recorded_host s =
      (Inr (), s\<lparr>stdout := stdout s @ TRANSCRIPT_THREE, files := (files s)(FILE_THREE := f4), spawned := 14\<rparr>)"
    by (simp only: part_three_def Let_def ENV_THREE_def [symmetric],
      simp add: assms seen runs mseq_apply mbind_apply run_command_apply newest_run_id_apply printing file_three
        revocations_def [symmetric],
      rule printed_eq(2), code_simp, simp)
  then show ?thesis by blast
qed

section \<open>The whole script\<close>

lemma files_differ: "FILE_ONE \<noteq> FILE_TWO" "FILE_ONE \<noteq> FILE_THREE" "FILE_TWO \<noteq> FILE_THREE"
  by code_simp+

text \<open>
  C39. The demonstration prints its transcript: run on the process numbers, run ids and clock of the
  recording, \<open>demo.py\<close> ends normally and its standard output is \<open>docs/demo-transcript.txt\<close>, line by
  line: the CLI life cycle with the refused early signature, the run a killed server started and
  another finished, the revocation that fails twice and succeeds.
\<close>

theorem demo_prints_its_transcript:
  "fst (demo_script linear_engine recorded_host) = Inr ()
   \<and> stdout (snd (demo_script linear_engine recorded_host)) = TRANSCRIPT_ONE @ TRANSCRIPT_TWO @ TRANSCRIPT_THREE
   \<and> stderr (snd (demo_script linear_engine recorded_host)) = []"
proof -
  let ?lg = "linear_engine :: (string \<Rightarrow> checkpoint option) langgraph"
  let ?h = recorded_host
  define s where "s = (\<lparr>stdout = [], stderr = [], files = new_file ?h, spawned = 0, server = None\<rparr> :: (string \<Rightarrow> checkpoint option) demo)"
  have s: "stdout s = []" "stderr s = []" "files s = new_file ?h" "spawned s = 0" by (simp_all add: s_def)
  have "\<exists>f. part_one ?lg ?h s = (Inr (), s\<lparr>stdout := stdout s @ TRANSCRIPT_ONE, files := (files s)(FILE_ONE := f), spawned := 8\<rparr>)"
    by (rule part_one_recorded) (simp_all add: s)
  then obtain f1 s1 where one: "part_one ?lg ?h s = (Inr (), s1)"
      "s1 = s\<lparr>stdout := stdout s @ TRANSCRIPT_ONE, files := (files s)(FILE_ONE := f1), spawned := 8\<rparr>" by blast
  have "\<exists>f. part_two ?lg ?h s1 = (Inr (), s1\<lparr>stdout := stdout s1 @ TRANSCRIPT_TWO, files := (files s1)(FILE_TWO := f), spawned := 10, server := None\<rparr>)"
    by (rule part_two_recorded) (simp_all add: one(2) s files_differ files_differ [symmetric])
  then obtain f2 s2 where two: "part_two ?lg ?h s1 = (Inr (), s2)"
      "s2 = s1\<lparr>stdout := stdout s1 @ TRANSCRIPT_TWO, files := (files s1)(FILE_TWO := f2), spawned := 10, server := None\<rparr>" by blast
  have "\<exists>f. part_three ?lg ?h s2 = (Inr (), s2\<lparr>stdout := stdout s2 @ TRANSCRIPT_THREE, files := (files s2)(FILE_THREE := f), spawned := 14\<rparr>)"
    by (rule part_three_recorded) (simp_all add: two(2) one(2) s files_differ files_differ [symmetric])
  then obtain f3 s3 where three: "part_three ?lg ?h s2 = (Inr (), s3)"
      "s3 = s2\<lparr>stdout := stdout s2 @ TRANSCRIPT_THREE, files := (files s2)(FILE_THREE := f3), spawned := 14\<rparr>" by blast
  have "executable_exists ?h" "PORT ?h s = (Inr 8799, s)"
  proof -
    have "recorded_int ''8799'' = Inr 8799" by code_simp
    then show "PORT ?h s = (Inr 8799, s)" by (simp add: PORT_def env_get_def)
  qed (simp add: recorded_host_def)
  then have "demo_script ?lg ?h = (Inr (), cleanup ?h s3)"
    by (simp add: demo_script_def s_def [symmetric] main_def mbind_apply mseq_apply one(1) two(1) three(1))
  then show ?thesis by (simp add: cleanup_def three(2) two(2) one(2) s)
qed

end
