(* ===== verification/Spec2Isabelle.thy ===== *)
theory Spec2Isabelle
  imports Service_Behaviour Abandoned_Runs Service_Progress Stored_State Cancellation Api Cli Demo Demo_Transcript
begin

text \<open>
  Verification library of the offboarding orchestrator (Python, package \<open>offboarding\<close> under
  \<open>src/\<close>).

  \<^bold>\<open>The program.\<close>  A run service drives one employee's offboarding through a graph of seven
  steps: fetch the HR record, plan with a language model, wait for HR's approval, revoke access,
  send the exit paperwork, wait for the signed document, archive.  Everything durable is in one
  SQLite database (runs, step attempts, side effects, mocked providers) and in LangGraph's
  checkpoints; every tool call goes through one executor (allowlist, budget, retries, trace) and,
  when it has an effect outside, through an idempotency ledger.  A process may die anywhere and be
  replaced; the CLI builds everything anew for each command, the API once per process.

  \<^bold>\<open>How the model reads.\<close>  An operation is a function from the world to an exception or a value and
  the world after it (\<open>Prelude\<close>: \<open>('s, 'e, 'a) eff\<close>); Python's exceptions are values of \<open>exc\<close> with
  the class hierarchy of \<open>domain/errors.py\<close>, and every \<open>except\<close> clause is decided by \<open>is_instance\<close>.
  The world (\<open>Store.world\<close>) is the four tables as lists of rows, the clock and the source of UUIDs as
  streams with a read counter, and the fault settings of the mocked providers.  JSON-like values are
  \<open>pyval\<close>.  The engine's checkpoint store is a second state component of any type.

  \<^bold>\<open>Theories and the code they model.\<close>
  \<^item> \<open>Errors\<close>: \<open>domain/errors.py\<close>.  \<open>Run_Domain\<close>: \<open>domain/run.py\<close>, both lifecycles behind the locale
    \<open>checked_lifecycle\<close>.  \<open>Redaction\<close>: \<open>domain/redaction.py\<close>.
  \<^item> \<open>Store\<close>: \<open>domain/models.py\<close>, the schema of \<open>persistence/db.py\<close>, \<open>now\<close> and \<open>immediate\<close> of
    \<open>persistence/base.py\<close>.  \<open>Runs\<close>, \<open>Trace\<close>, \<open>Side_Effects\<close>: the repositories of \<open>persistence/\<close>, and
    \<open>tools/providers.py\<close>; providers and ledger rows share the locale \<open>write_once\<close>.
  \<^item> \<open>Tools\<close>: \<open>tools/base.py\<close> and the four tools.  \<open>Ledger\<close>: \<open>tools/ledger.py\<close>; \<open>At_Most_Once\<close>: what
    it promises of any tool that keeps the locale \<open>accounted_tool\<close>, interpreted on the three
    side-effecting tools.  \<open>Executor\<close>: \<open>tools/executor.py\<close>.  \<open>Llm\<close>: \<open>llm/\<close>.
  \<^item> \<open>Nodes\<close>: \<open>orchestration/nodes.py\<close>, \<open>tracing.py\<close> and \<open>services.py\<close>.  \<open>Graph\<close>: \<open>graph.py\<close> and
    \<open>state.py\<close> with the contract of LangGraph.  \<open>Run_Service\<close>: \<open>run_service.py\<close>, and histories of
    requests and restarts (\<open>play\<close>).
  \<^item> \<open>Request_Parts\<close>: the operations of \<open>run_service.py\<close> cut into their reads, transactions and invocations of
    the graph, and \<open>reachable\<close>: the states that requests served to their end, requests killed after any of
    their parts, and restarts lead to.  \<open>Abandoned_Runs\<close>: a run whose process died before its first checkpoint.
  \<^item> \<open>Interleaving\<close>: the same parts with other requests in between.  \<open>Node_Parts\<close>: the invocation of \<open>_advance\<close> cut at
    the nodes of \<open>nodes.py\<close> as well.  \<open>Cancellation\<close>: \<open>cancel_run\<close>, the guard of every node and
    \<open>_advance\<close> together.
  \<^item> \<open>Json\<close> and \<open>Timestamps\<close>: \<open>json.dumps\<close>, \<open>json.loads\<close> and the ISO texts of \<open>persistence/base.py\<close>.
    \<open>Rows\<close>: the schema, the SQL statements of the repositories on rows, and \<open>_to_run\<close>, \<open>_to_attempt\<close>,
    \<open>_to_record\<close>.  \<open>Stored_State\<close>: \<open>connect\<close>, \<open>initialize\<close>, \<open>build_checkpointer\<close>, and what is on disk in a
    reachable state.
  \<^item> \<open>Api\<close>: \<open>api/main.py\<close>.  \<open>Cli\<close>: \<open>cli/main.py\<close>.  \<open>Demo\<close>: \<open>scripts/demo.py\<close>, over both;
    \<open>Demo_Transcript\<close> runs it in the kernel against \<open>docs/demo-transcript.txt\<close>.

  \<^bold>\<open>The lemma groups.\<close>  \<open>Prelude.guarantee\<close> is the locale of two-state relations an operation
  respects; each component interprets it for its own frame (\<open>only_runs\<close>, \<open>only_trace\<close>, ...).
  \<open>Invariants\<close> collects them into \<open>safe_step\<close> and the database invariant \<open>db_inv\<close>;
  \<open>Step_Relations\<close> lifts any such relation from the repositories to the nodes, for all runs or for
  some of them; \<open>Node_Outcomes\<close> says
  which exceptions a node can raise and which gate interrupts; \<open>Step_Evidence\<close> that a node which
  completes leaves a completed attempt; \<open>Service_Safety\<close> and \<open>Service_Invariant\<close> carry the
  invariant over the database and the checkpoints through every part of a request, and so through deaths
  between its transactions; \<open>Request_Parts\<close> proves that the parts run alone are the request;
  \<open>Lifecycle_Spec\<close> is the
  abstract two-gate life cycle and the simulation; \<open>Sample_History\<close> plays one history with a crash
  and a restart, evaluated in the kernel; \<open>Service_Behaviour\<close> states the properties of reachable
  states, and \<open>Abandoned_Runs\<close> the one kind of state no request leads out of.  \<open>Node_Progress\<close> says when each node does go through, and \<open>Service_Progress\<close> that a run
  which is approved and signed therefore completes.  \<open>Rows\<close> proves that the read models in the tables
  of \<open>Store\<close> are faithful to the stored rows: each row reads back as its model, each change of a model
  is the repository's statement on the row; \<open>Stored_State\<close> that the writers of new rows are the \<open>INSERT\<close>s
  under the schema's constraints, references included because \<open>connect\<close> asks for them.  \<open>Interleaving\<close>
  proves that no interleaving leaves the invariant, and what the checks made outside the write lock do
  let through.  \<open>Api\<close> and \<open>Cli\<close> prove that a process, or one process per command, does what the history of
  the requests it was asked does, and pin the status codes and exit codes.  \<open>Node_Parts\<close> proves that the nodes run alone are the invocation, and
  carries the invariant through the system of requests, arrivals, deaths and restarts in which other
  requests run between two nodes; \<open>Cancellation\<close> shows with one more interpretation of \<open>step_relation\<close>,
  for all runs but one, that a flagged run is left alone by all of it, that its invocation ends
  CANCELLED, and the moment at which a flag comes too late.

  \<^bold>\<open>Parameters.\<close>  Not under \<open>src/\<close> and therefore arguments: tenacity (\<open>retries_as_documented\<close>),
  pydantic (\<open>pydantic_ok\<close>), the Gemini SDK with its JSON (its \<open>output_text\<close> is typed as a string: an answer
  without any text, on which \<open>json.loads\<close> would raise a \<open>TypeError\<close>, is outside the model), LangGraph (\<open>langgraph_ok\<close>: an invocation
  with a meaning \<open>drives\<close> the graph from its entry and leaves the thread's checkpoint; it may be
  killed before any node, or after one and before its checkpoint; continuing a thread at the end finishes
  again, and continuing one that was never begun raises \<open>EmptyInputError\<close> and changes nothing; under interleaving
  \<open>drives_or_rests\<close>: it drives the graph or writes nothing, and node by node \<open>engine_step\<close>, which is
  the same contract), the environment, \<open>int()\<close> on its strings and \<open>datetime.isoformat\<close>, and for the demonstration
  the operating system, typer, FastAPI and uvicorn (the record \<open>host\<close>).  Each has a
  concrete instance for which the contract is proved (\<open>documented_tenacity\<close>, \<open>documented_pydantic\<close>,
  \<open>forgetful_sdk\<close>, \<open>linear_engine\<close>, \<open>recorded_host\<close>).

  \<^bold>\<open>Bounds.\<close>  \<open>run_once\<close> re-enters itself and carries the depth of the call stack that is left
  (\<open>RECURSION_LIMIT\<close>, Python's 1000; \<open>missing_run_exhausts_the_stack\<close> shows it reached, and one
  re-entry is enough for a run that exists, \<open>run_once_depth\<close>).  The retry loop has \<open>loop_bound\<close>
  rounds, which \<open>retry_loop_ends\<close> shows enough.  The class hierarchy is searched six levels up, its
  depth.  \<open>linear_engine\<close> makes 16 rounds for a chain of seven nodes (\<open>drive_ends\<close>: eight do).

  \<^bold>\<open>Not modelled.\<close>  SQLite's own work: files, locks, its two indexes, and integers beyond 64 bits
  (\<open>counters_stay_in_bounds\<close> shows that the counters keep within their allowances); \<open>ON DELETE CASCADE\<close>, as
  nothing is ever deleted.  JSON is modelled without floats and for characters up to U+00FF, and without the
  interpreter's limit on nesting.  The sleep between retries; routing, body parsing and JSON
  rendering by FastAPI, command line parsing by typer.  A process killed in the middle of a node is
  represented where the code itself does it (\<open>SimulatedProcessDeath\<close>, after the provider's effect);
  elsewhere it is killed before a node, after it, or between any two parts of a request.  SQLite's transactions make the intermediate
  states of single writes invisible.  Requests interleave between the transactions of the run service
  and between the nodes of an invocation; a node, with the calls it makes, is one part.
\<close>

end
